(* ===== verification/Prelude.thy ===== *)
theory Prelude
  imports Main "HOL-Library.Word" "HOL-Library.AList"
begin

text \<open>
  Shared vocabulary of the development: Go's fixed-width integers as words, byte slices,
  little-endian encodings (\<^verbatim>\<open>encoding/binary\<close>), \<^verbatim>\<open>time.Time\<close> and \<^verbatim>\<open>time.Duration\<close>, Go maps as
  association lists, and the generic lemmas on them that the component theories share.
\<close>

unbundle bit_operations_syntax

named_theorems go_simps \<open>unfolding rules of the modelled Go library operations\<close>
named_theorems le_simps \<open>little-endian encodings and their inverses\<close>

section \<open>Machine integers and byte slices\<close>

type_synonym u8 = "8 word"
type_synonym u16 = "16 word"
type_synonym u32 = "32 word"
type_synonym u64 = "64 word"
type_synonym bytes = "u8 list"

text \<open>Signed 64-bit wrap-around (Go's \<^verbatim>\<open>int64\<close> and, on the supported platforms, \<^verbatim>\<open>int\<close>).\<close>

definition i64_wrap :: "int \<Rightarrow> int" where
  "i64_wrap x = (x + 2 ^ 63) mod 2 ^ 64 - 2 ^ 63"

lemma i64_wrap_id: "- (2 ^ 63) \<le> x \<Longrightarrow> x < 2 ^ 63 \<Longrightarrow> i64_wrap x = x"
  by (simp add: i64_wrap_def)

lemma unat_less_pow: "unat (w :: 'a::len word) < 2 ^ LENGTH('a)"
  by (rule unsigned_less)

named_theorems and_masks \<open>conjunction with a low-bit mask as truncation\<close>

lemma and_mask_numeral [and_masks]:
  fixes x :: "'a::len word"
  shows "x AND 0x1 = take_bit 1 x" "x AND 0x7 = take_bit 3 x" "x AND 0xF = take_bit 4 x"
    "x AND 0x1F = take_bit 5 x" "x AND 0x7F = take_bit 7 x" "x AND 0xFF = take_bit 8 x"
    "x AND 0x7FF = take_bit 11 x" "x AND 0x1FFFF = take_bit 17 x" "x AND 0x1FFFFF = take_bit 21 x"
  by (simp_all add: take_bit_eq_mask mask_eq_exp_minus_1)

section \<open>Time\<close>

text \<open>
  A \<^verbatim>\<open>time.Time\<close> is the number of nanoseconds since Go's zero time (year 1), a \<^verbatim>\<open>time.Duration\<close> a
  number of nanoseconds. \<^verbatim>\<open>Time.Sub\<close> saturates at the bounds of \<^verbatim>\<open>int64\<close>, as the library does.
\<close>

type_synonym gotime = int
type_synonym duration = int

definition zeroTime :: gotime where
  "zeroTime = 0"

definition IsZero :: "gotime \<Rightarrow> bool" where
  "IsZero t \<longleftrightarrow> t = zeroTime"

definition minDuration :: duration where
  "minDuration = - (2 ^ 63)"

definition maxDuration :: duration where
  "maxDuration = 2 ^ 63 - 1"

definition time_Sub :: "gotime \<Rightarrow> gotime \<Rightarrow> duration" where
  "time_Sub t u = max minDuration (min maxDuration (t - u))"

text \<open>\<^verbatim>\<open>Time.UnixNano\<close>, \<^verbatim>\<open>Time.UnixMicro\<close> and the constructor \<^verbatim>\<open>time.UnixMicro\<close>.\<close>

definition unixEpoch :: gotime where
  "unixEpoch = 62135596800 * 10 ^ 9"

definition UnixNano :: "gotime \<Rightarrow> int" where
  "UnixNano t = i64_wrap (t - unixEpoch)"

definition UnixMicro :: "gotime \<Rightarrow> int" where
  "UnixMicro t = i64_wrap ((t - unixEpoch) div 1000)"

definition time_UnixMicro :: "int \<Rightarrow> gotime" where
  "time_UnixMicro us = unixEpoch + us * 1000"

lemma IsZero_zeroTime [simp]: "IsZero zeroTime"
  by (simp add: IsZero_def)

lemma time_Sub_le_maxDuration [simp]: "time_Sub t u \<le> maxDuration"
  by (simp add: time_Sub_def maxDuration_def minDuration_def)

lemma time_Sub_ge: "d \<le> time_Sub t u \<Longrightarrow> minDuration < d \<Longrightarrow> u + d \<le> t"
  by (simp add: time_Sub_def minDuration_def maxDuration_def max_def min_def split: if_splits)

lemma time_Sub_lt_iff:
  "minDuration \<le> d \<Longrightarrow> d \<le> maxDuration \<Longrightarrow> time_Sub t u < d \<longleftrightarrow> t - u < d \<and> minDuration < d"
  by (auto simp: time_Sub_def minDuration_def maxDuration_def)

section \<open>Little-endian encodings\<close>

primrec le_nat :: "bytes \<Rightarrow> nat" where
  "le_nat [] = 0"
| "le_nat (b # bs) = unat b + 256 * le_nat bs"

primrec le_bytes :: "nat \<Rightarrow> nat \<Rightarrow> bytes" where
  "le_bytes 0 x = []"
| "le_bytes (Suc n) x = of_nat (x mod 256) # le_bytes n (x div 256)"

text \<open>\<^verbatim>\<open>binary.LittleEndian\<close>: the readers look at a prefix of the slice they are given.\<close>

definition LE_Uint16 :: "bytes \<Rightarrow> u16" where
  "LE_Uint16 bs = of_nat (le_nat (take 2 bs))"

definition LE_Uint32 :: "bytes \<Rightarrow> u32" where
  "LE_Uint32 bs = of_nat (le_nat (take 4 bs))"

definition LE_Uint64 :: "bytes \<Rightarrow> u64" where
  "LE_Uint64 bs = of_nat (le_nat (take 8 bs))"

definition LE_PutUint16 :: "u16 \<Rightarrow> bytes" where
  "LE_PutUint16 w = le_bytes 2 (unat w)"

definition LE_PutUint32 :: "u32 \<Rightarrow> bytes" where
  "LE_PutUint32 w = le_bytes 4 (unat w)"

definition LE_PutUint64 :: "u64 \<Rightarrow> bytes" where
  "LE_PutUint64 w = le_bytes 8 (unat w)"

lemma length_le_bytes [simp]: "length (le_bytes n x) = n"
  by (induction n arbitrary: x) auto

lemma le_nat_le_bytes [le_simps]: "le_nat (le_bytes n x) = x mod 256 ^ n"
proof (induction n arbitrary: x)
  case 0
  then show ?case by simp
next
  case (Suc n)
  have "unat (of_nat (x mod 256) :: u8) = x mod 256"
    by (simp add: unat_of_nat)
  with Suc show ?case
    by (simp add: mod_mult2_eq)
qed

lemma le_nat_less: "le_nat bs < 256 ^ length bs"
proof (induction bs)
  case Nil
  then show ?case by simp
next
  case (Cons b bs)
  have "unat b < 256"
    using unat_less_pow [of b] by simp
  moreover have "le_nat bs + 1 \<le> 256 ^ length bs"
    using Cons.IH by simp
  then have "256 * (le_nat bs + 1) \<le> 256 * 256 ^ length bs"
    by (rule mult_le_mono2)
  ultimately show ?case by simp
qed

lemma length_LE_Put [simp]:
  "length (LE_PutUint16 a) = 2" "length (LE_PutUint32 b) = 4" "length (LE_PutUint64 c) = 8"
  by (simp_all add: LE_PutUint16_def LE_PutUint32_def LE_PutUint64_def)

lemma LE_Uint16_Put [le_simps]: "LE_Uint16 (LE_PutUint16 w @ rest) = w"
proof -
  have "unat w mod 256 ^ 2 = unat w"
    using unat_less_pow [of w] by simp
  then show ?thesis
    by (simp add: LE_Uint16_def LE_PutUint16_def le_nat_le_bytes)
qed

lemma LE_Uint32_Put [le_simps]: "LE_Uint32 (LE_PutUint32 w @ rest) = w"
proof -
  have "unat w mod 256 ^ 4 = unat w"
    using unat_less_pow [of w] by simp
  then show ?thesis
    by (simp add: LE_Uint32_def LE_PutUint32_def le_nat_le_bytes)
qed

lemma LE_Uint64_Put [le_simps]: "LE_Uint64 (LE_PutUint64 w @ rest) = w"
proof -
  have "unat w mod 256 ^ 8 = unat w"
    using unat_less_pow [of w] by simp
  then show ?thesis
    by (simp add: LE_Uint64_def LE_PutUint64_def le_nat_le_bytes)
qed

lemmas LE_Put_self [le_simps] =
  LE_Uint16_Put [where rest = "[]", simplified]
  LE_Uint32_Put [where rest = "[]", simplified]
  LE_Uint64_Put [where rest = "[]", simplified]

section \<open>Go maps\<close>

text \<open>
  A Go map is an association list with distinct keys; its list order is one of the orders in
  which \<^verbatim>\<open>range\<close> may visit it. A statement about all such lists is a statement about every
  iteration order. The laws a client needs are the locale \<open>keyed_store\<close>.
\<close>

type_synonym ('k, 'v) gomap = "('k \<times> 'v) list"

definition gm_get :: "('k, 'v) gomap \<Rightarrow> 'k \<Rightarrow> 'v option" where
  "gm_get m k = map_of m k"

definition gm_put :: "'k \<Rightarrow> 'v \<Rightarrow> ('k, 'v) gomap \<Rightarrow> ('k, 'v) gomap" where
  "gm_put k v m = AList.update k v m"

definition gm_del :: "'k \<Rightarrow> ('k, 'v) gomap \<Rightarrow> ('k, 'v) gomap" where
  "gm_del k m = AList.delete k m"

text \<open>Deleting, while ranging over the map, every entry that satisfies a test.\<close>

definition gm_del_if :: "('k \<Rightarrow> 'v \<Rightarrow> bool) \<Rightarrow> ('k, 'v) gomap \<Rightarrow> ('k, 'v) gomap" where
  "gm_del_if p m = filter (\<lambda>(k, v). \<not> p k v) m"

definition gm_wf :: "('k, 'v) gomap \<Rightarrow> bool" where
  "gm_wf m \<longleftrightarrow> distinct (map fst m)"

lemma gm_wf_Nil [simp]: "gm_wf []"
  by (simp add: gm_wf_def)

lemma gm_get_Nil [simp]: "gm_get [] k = None"
  by (simp add: gm_get_def)

lemma gm_get_put [simp]: "gm_get (gm_put k v m) = (gm_get m)(k \<mapsto> v)"
  by (simp add: gm_get_def [abs_def] gm_put_def update_conv' fun_eq_iff)

lemma gm_get_del [simp]: "gm_get (gm_del k m) = (gm_get m)(k := None)"
  by (simp add: gm_get_def [abs_def] gm_del_def delete_conv' fun_eq_iff)

lemma gm_wf_put [simp, intro]: "gm_wf m \<Longrightarrow> gm_wf (gm_put k v m)"
  by (simp add: gm_wf_def gm_put_def distinct_update)

lemma gm_wf_del [simp, intro]: "gm_wf m \<Longrightarrow> gm_wf (gm_del k m)"
  by (simp add: gm_wf_def gm_del_def distinct_delete)

lemma gm_wf_del_if [simp, intro]: "gm_wf m \<Longrightarrow> gm_wf (gm_del_if p m)"
  unfolding gm_wf_def gm_del_if_def by (induction m) auto

lemma gm_get_iff: "gm_wf m \<Longrightarrow> gm_get m k = Some v \<longleftrightarrow> (k, v) \<in> set m"
  by (simp add: gm_wf_def gm_get_def)

lemma gm_get_in: "gm_get m k = Some v \<Longrightarrow> (k, v) \<in> set m"
  by (simp add: gm_get_def map_of_SomeD)

lemma gm_get_map: "gm_get (map (\<lambda>(k, v). (k, f k v)) m) k = map_option (f k) (gm_get m k)"
  unfolding gm_get_def by (induction m) auto

lemma gm_get_del_if_key: "gm_get (gm_del_if (\<lambda>k _. p k) m) k = (if p k then None else gm_get m k)"
  unfolding gm_get_def gm_del_if_def by (induction m) auto

lemma gm_get_del_if:
  "gm_wf m \<Longrightarrow> gm_get (gm_del_if p m) k =
     (case gm_get m k of None \<Rightarrow> None | Some v \<Rightarrow> if p k v then None else Some v)"
proof (induction m)
  case Nil
  then show ?case by (simp add: gm_del_if_def)
next
  case (Cons kv m)
  obtain k' v' where kv: "kv = (k', v')" by (cases kv)
  have nk: "gm_get m k' = None"
    using Cons.prems kv by (simp add: gm_wf_def gm_get_def map_of_eq_None_iff)
  have IH: "gm_get (gm_del_if p m) k =
     (case gm_get m k of None \<Rightarrow> None | Some v \<Rightarrow> if p k v then None else Some v)"
    using Cons by (simp add: gm_wf_def)
  show ?case
    using IH nk kv by (cases "k = k'") (auto simp: gm_del_if_def gm_get_def)
qed

locale keyed_store =
  fixes get :: "'m \<Rightarrow> 'k \<Rightarrow> 'v option"
    and put :: "'k \<Rightarrow> 'v \<Rightarrow> 'm \<Rightarrow> 'm"
    and del :: "'k \<Rightarrow> 'm \<Rightarrow> 'm"
    and emp :: 'm
    and invar :: "'m \<Rightarrow> bool"
  assumes get_emp: "get emp k = None"
    and get_put: "invar m \<Longrightarrow> get (put k v m) = (get m)(k \<mapsto> v)"
    and get_del: "invar m \<Longrightarrow> get (del k m) = (get m)(k := None)"
    and invar_emp: "invar emp"
    and invar_put: "invar m \<Longrightarrow> invar (put k v m)"
    and invar_del: "invar m \<Longrightarrow> invar (del k m)"
begin

lemma put_frame: "invar m \<Longrightarrow> k' \<noteq> k \<Longrightarrow> get (put k v m) k' = get m k'"
  by (simp add: get_put)

lemma del_frame: "invar m \<Longrightarrow> k' \<noteq> k \<Longrightarrow> get (del k m) k' = get m k'"
  by (simp add: get_del)

lemma put_del_same: "invar m \<Longrightarrow> get (del k (put k v m)) = get (del k m)"
  by (simp add: get_put get_del invar_put)

end

interpretation gomap: keyed_store gm_get gm_put gm_del "[]" gm_wf
  by unfold_locales auto

section \<open>Slices\<close>

text \<open>
  \<^verbatim>\<open>copy(dst, src)\<close> overwrites a prefix of \<^verbatim>\<open>dst\<close> and keeps its length.
\<close>

definition go_copy :: "'a list \<Rightarrow> 'a list \<Rightarrow> 'a list" where
  "go_copy dst src = take (length dst) src @ drop (length src) dst"

lemma length_go_copy [simp]: "length (go_copy dst src) = length dst"
  by (simp add: go_copy_def)

lemma go_copy_short: "length src \<le> length dst \<Longrightarrow> go_copy dst src = src @ drop (length src) dst"
  by (simp add: go_copy_def)

section \<open>Loops that may panic\<close>

text \<open>A loop over a slice whose body passes the state on, or panics (\<open>None\<close>).\<close>

fun fold_opt :: "('a \<Rightarrow> 's \<Rightarrow> 's option) \<Rightarrow> 'a list \<Rightarrow> 's \<Rightarrow> 's option" where
  "fold_opt f [] s = Some s"
| "fold_opt f (x # xs) s = (case f x s of None \<Rightarrow> None | Some s' \<Rightarrow> fold_opt f xs s')"

lemma fold_opt_rel:
  assumes "fold_opt f xs s = Some s'"
    and "\<And>s. R s s" "\<And>s t u. R s t \<Longrightarrow> R t u \<Longrightarrow> R s u"
    and "\<And>x s s'. x \<in> set xs \<Longrightarrow> f x s = Some s' \<Longrightarrow> R s s'"
  shows "R s s'"
  using assms(1,4)
proof (induction xs arbitrary: s)
  case (Cons x xs)
  then obtain t where t: "f x s = Some t" "fold_opt f xs t = Some s'"
    by (auto split: option.splits)
  then have "R s t" "R t s'" using Cons by auto
  then show ?case by (rule assms(3))
qed (simp add: assms(2))

lemma fold_opt_reach:
  assumes "fold_opt f xs s = Some s'" "x \<in> set xs" "I s"
    and "\<And>y s s'. y \<in> set xs \<Longrightarrow> f y s = Some s' \<Longrightarrow> I s \<Longrightarrow> I s'"
    and "\<And>s s'. f x s = Some s' \<Longrightarrow> I s \<Longrightarrow> Q s'"
    and "\<And>y s s'. y \<in> set xs \<Longrightarrow> f y s = Some s' \<Longrightarrow> Q s \<Longrightarrow> Q s'"
  shows "Q s'"
proof -
  have keep: "Q s \<Longrightarrow> Q s'" if "fold_opt f ys s = Some s'" "set ys \<subseteq> set xs" for ys s s'
    using that
    by (induction ys arbitrary: s) (auto split: option.splits intro: assms(6))
  have "fold_opt f ys s = Some s' \<Longrightarrow> x \<in> set ys \<Longrightarrow> I s \<Longrightarrow> set ys \<subseteq> set xs \<Longrightarrow> Q s'" for ys
  proof (induction ys arbitrary: s)
    case (Cons y ys)
    then obtain t where t: "f y s = Some t" "fold_opt f ys t = Some s'"
      by (auto split: option.splits)
    show ?case
    proof (cases "x = y")
      case True
      then show ?thesis using keep [OF t(2)] assms(5) t(1) Cons.prems by auto
    next
      case False
      then show ?thesis using Cons.IH [OF t(2)] assms(4) [OF _ t(1)] Cons.prems by auto
    qed
  qed simp
  then show ?thesis using assms(1-3) by blast
qed

lemma fold_opt_id: "(\<And>x. x \<in> set xs \<Longrightarrow> f x s = Some s) \<Longrightarrow> fold_opt f xs s = Some s"
  by (induction xs) auto

text \<open>
  A sequence of times (or other values) that continues \<open>x\<close>, ends in \<open>y\<close> and whose neighbours are
  related.
\<close>

definition paced_by :: "('a \<Rightarrow> 'a \<Rightarrow> bool) \<Rightarrow> 'a \<Rightarrow> 'a list \<Rightarrow> 'a \<Rightarrow> bool" where
  "paced_by R x xs y \<longleftrightarrow> y = last (x # xs) \<and> successively R (x # xs)"

lemma paced_by_Nil [simp]: "paced_by R x [] y \<longleftrightarrow> y = x"
  by (simp add: paced_by_def)

lemma paced_by_Cons [simp]: "paced_by R x (a # xs) y \<longleftrightarrow> R x a \<and> paced_by R a xs y"
  by (auto simp: paced_by_def)

lemma paced_by_append: "paced_by R x xs y \<Longrightarrow> paced_by R y ys z \<Longrightarrow> paced_by R x (xs @ ys) z"
  by (induction xs arbitrary: x) auto

section \<open>Binary search\<close>

text \<open>\<^verbatim>\<open>sort.Search(n, f)\<close>: the loop of the library, over the half-open interval \<open>[i, j)\<close>.\<close>

function search_loop :: "(nat \<Rightarrow> bool) \<Rightarrow> nat \<Rightarrow> nat \<Rightarrow> nat" where
  "search_loop f i j =
     (if i < j
      then let h = (i + j) div 2
           in if \<not> f h then search_loop f (h + 1) j else search_loop f i h
      else i)"
  by pat_completeness auto
termination
  by (relation "measure (\<lambda>(f, i, j). j - i)") auto

declare search_loop.simps [simp del]

definition sort_Search :: "nat \<Rightarrow> (nat \<Rightarrow> bool) \<Rightarrow> nat" where
  "sort_Search n f = search_loop f 0 n"

lemma search_loop_spec:
  "(\<forall>a b. a \<le> b \<and> b < n \<and> f a \<longrightarrow> f b) \<Longrightarrow> i \<le> j \<Longrightarrow> j \<le> n \<Longrightarrow> (\<forall>k < i. \<not> f k) \<Longrightarrow>
    (\<forall>k. j \<le> k \<and> k < n \<longrightarrow> f k) \<Longrightarrow>
    search_loop f i j \<le> n \<and> (\<forall>k < search_loop f i j. \<not> f k) \<and>
    (\<forall>k. search_loop f i j \<le> k \<and> k < n \<longrightarrow> f k)"
proof (induction f i j rule: search_loop.induct)
  case (1 f i j)
  show ?case
  proof (cases "i < j")
    case False
    then have "search_loop f i j = i"
      by (simp add: search_loop.simps [of f i j])
    then show ?thesis
      using False "1.prems" by auto
  next
    case True
    define h where "h = (i + j) div 2"
    have h: "i \<le> h" "h < j" using True by (auto simp: h_def)
    show ?thesis
    proof (cases "f h")
      case True
      have up: "\<forall>k. h \<le> k \<and> k < n \<longrightarrow> f k"
        using True "1.prems"(1) by blast
      have nn: "\<not> \<not> f h" and hn: "h \<le> n"
        using True h(2) "1.prems"(3) by (blast, linarith)
      have "search_loop f i h \<le> n \<and> (\<forall>k < search_loop f i h. \<not> f k) \<and>
          (\<forall>k. search_loop f i h \<le> k \<and> k < n \<longrightarrow> f k)"
        by (rule "1.IH"(2) [OF \<open>i < j\<close> h_def nn "1.prems"(1) h(1) hn "1.prems"(4) up])
      moreover have "search_loop f i j = search_loop f i h"
        using True \<open>i < j\<close> by (simp add: search_loop.simps [of f i j] h_def [symmetric] Let_def)
      ultimately show ?thesis by simp
    next
      case False
      have down: "\<forall>k < h + 1. \<not> f k"
      proof (intro allI impI notI)
        fix k assume "k < h + 1" "f k"
        moreover have "k \<le> h" "h < n" using \<open>k < h + 1\<close> h(2) "1.prems"(3) by linarith+
        ultimately show False using False "1.prems"(1) by blast
      qed
      have hj: "h + 1 \<le> j" using h(2) by linarith
      have "search_loop f (h + 1) j \<le> n \<and> (\<forall>k < search_loop f (h + 1) j. \<not> f k) \<and>
          (\<forall>k. search_loop f (h + 1) j \<le> k \<and> k < n \<longrightarrow> f k)"
        by (rule "1.IH"(1) [OF \<open>i < j\<close> h_def False "1.prems"(1) hj "1.prems"(3) down "1.prems"(5)])
      moreover have "search_loop f i j = search_loop f (h + 1) j"
        using False \<open>i < j\<close> by (simp add: search_loop.simps [of f i j] h_def [symmetric] Let_def)
      ultimately show ?thesis by simp
    qed
  qed
qed

text \<open>On a monotone predicate the search returns the least index that satisfies it, or \<open>n\<close>.\<close>

lemma sort_Search_spec:
  assumes "\<forall>a b. a \<le> b \<and> b < n \<and> f a \<longrightarrow> f b"
  shows "sort_Search n f \<le> n" "k < sort_Search n f \<Longrightarrow> \<not> f k"
    "sort_Search n f \<le> k \<Longrightarrow> k < n \<Longrightarrow> f k"
proof -
  have "sort_Search n f \<le> n \<and> (\<forall>k < sort_Search n f. \<not> f k) \<and>
      (\<forall>k. sort_Search n f \<le> k \<and> k < n \<longrightarrow> f k)"
    unfolding sort_Search_def by (rule search_loop_spec [OF assms]) auto
  then show "sort_Search n f \<le> n" "k < sort_Search n f \<Longrightarrow> \<not> f k"
    "sort_Search n f \<le> k \<Longrightarrow> k < n \<Longrightarrow> f k"
    by blast+
qed

end
