(* ===== verification/GoStrings.thy ===== *)
theory GoStrings
  imports Prelude
begin

text \<open>
  The parts of Go's \<^verbatim>\<open>strings\<close> and \<^verbatim>\<open>strconv\<close> packages that the sources call: splitting and
  trimming byte strings (white space as \<^verbatim>\<open>unicode.IsSpace\<close> sees it, in UTF-8), formatting
  integers and parsing them with the library's errors. A Go string is a list of bytes, here of
  \<open>char\<close>.
\<close>

section \<open>White space, trimming and splitting\<close>

definition bcode :: "char \<Rightarrow> nat" where
  "bcode c = of_char c"

text \<open>A Go string is a byte sequence: conversions between strings and byte slices.\<close>

definition string_of_bytes :: "bytes \<Rightarrow> string" where
  "string_of_bytes bs = map (\<lambda>b. char_of (unat b)) bs"

definition bytes_of_string :: "string \<Rightarrow> bytes" where
  "bytes_of_string s = map (\<lambda>c. of_nat (bcode c)) s"

lemma bcode_less: "bcode c < 256"
  by (simp add: bcode_def of_char_def)

lemma string_of_bytes_of_string [simp]: "string_of_bytes (bytes_of_string s) = s"
proof -
  have "char_of (unat (of_nat (bcode c) :: u8)) = c" for c
    using bcode_less [of c] by (simp add: unat_of_nat bcode_def)
  then show ?thesis by (induction s) (simp_all add: string_of_bytes_def bytes_of_string_def)
qed

lemma length_string_of_bytes [simp]: "length (string_of_bytes bs) = length bs"
  by (simp add: string_of_bytes_def)

lemma length_bytes_of_string [simp]: "length (bytes_of_string s) = length s"
  by (simp add: bytes_of_string_def)

lemma bytes_of_string_of_bytes [simp]: "bytes_of_string (string_of_bytes bs) = bs"
proof -
  have "of_nat (bcode (char_of (unat b))) = b" for b :: u8
    using unat_less_pow [of b] by (simp add: bcode_def)
  then show ?thesis by (induction bs) (simp_all add: string_of_bytes_def bytes_of_string_def)
qed

text \<open>The number of bytes of the white-space rune a string starts with, 0 if there is none.\<close>

definition space_len :: "string \<Rightarrow> nat" where
  "space_len s =
     (case map bcode (take 3 s) of
        [] \<Rightarrow> 0
      | a # r \<Rightarrow>
          if a \<in> {9, 10, 11, 12, 13, 32} then 1
          else if a = 0xC2 \<and> r \<noteq> [] \<and> hd r \<in> {0x85, 0xA0} then 2
          else if a = 0xE1 \<and> r = [0x9A, 0x80] then 3
          else if a = 0xE2 \<and> length r = 2 \<and> hd r = 0x80 \<and>
                  (0x80 \<le> last r \<and> last r \<le> 0x8A \<or> last r \<in> {0xA8, 0xA9, 0xAF}) then 3
          else if a = 0xE2 \<and> r = [0x81, 0x9F] then 3
          else if a = 0xE3 \<and> r = [0x80, 0x80] then 3
          else 0)"

lemma space_len_Nil [simp]: "space_len [] = 0"
  by (simp add: space_len_def)

lemma space_len_pos_Nil: "space_len s \<noteq> 0 \<Longrightarrow> s \<noteq> []"
  by auto

text \<open>The same at the end of a string (\<^verbatim>\<open>utf8.DecodeLastRuneInString\<close>).\<close>

definition space_len_end :: "string \<Rightarrow> nat" where
  "space_len_end s =
     (if length s \<ge> 1 \<and> space_len (drop (length s - 1) s) = 1 then 1
      else if length s \<ge> 2 \<and> space_len (drop (length s - 2) s) = 2 then 2
      else if length s \<ge> 3 \<and> space_len (drop (length s - 3) s) = 3 then 3
      else 0)"

function trim_left :: "string \<Rightarrow> string" where
  "trim_left s = (if space_len s = 0 then s else trim_left (drop (space_len s) s))"
  by pat_completeness auto
termination
proof (relation "measure length")
  fix s :: string
  assume "space_len s \<noteq> 0"
  then show "(drop (space_len s) s, s) \<in> measure length"
    using space_len_pos_Nil [of s] by (cases s) auto
qed simp

declare trim_left.simps [simp del]

function trim_right :: "string \<Rightarrow> string" where
  "trim_right s =
     (if space_len_end s = 0 then s else trim_right (take (length s - space_len_end s) s))"
  by pat_completeness auto
termination
proof (relation "measure length")
  fix s :: string
  assume "space_len_end s \<noteq> 0"
  then have "s \<noteq> []"
    by (auto simp: space_len_end_def)
  then show "(take (length s - space_len_end s) s, s) \<in> measure length"
    using \<open>space_len_end s \<noteq> 0\<close> by simp
qed simp

declare trim_right.simps [simp del]

definition TrimSpace :: "string \<Rightarrow> string" where
  "TrimSpace s = trim_right (trim_left s)"

fun span_word :: "string \<Rightarrow> string \<times> string" where
  "span_word [] = ([], [])"
| "span_word (c # cs) =
     (if space_len (c # cs) \<noteq> 0 then ([], c # cs)
      else let (w, r) = span_word cs in (c # w, r))"

lemma span_word_length: "length (snd (span_word s)) \<le> length s"
  by (induction s) (auto simp: Let_def split: prod.split)

lemma trim_left_length: "length (trim_left s) \<le> length s"
proof (induction s rule: trim_left.induct)
  case (1 s)
  then show ?case
    by (subst trim_left.simps) (auto intro: order_trans)
qed

lemma trim_left_no_space: "space_len (trim_left s) = 0"
  by (induction s rule: trim_left.induct) (subst trim_left.simps, simp)

lemma span_word_shrinks: "s \<noteq> [] \<Longrightarrow> space_len s = 0 \<Longrightarrow> length (snd (span_word s)) < length s"
  using span_word_length [of "tl s"]
  by (cases s) (auto simp: Let_def less_Suc_eq_le split: prod.split)

function Fields :: "string \<Rightarrow> string list" where
  "Fields s =
     (let t = trim_left s
      in if t = [] then [] else fst (span_word t) # Fields (snd (span_word t)))"
  by pat_completeness auto
termination
proof (relation "measure length")
  fix s t :: string
  assume t: "t = trim_left s" and ne: "t \<noteq> []"
  have "length (snd (span_word t)) < length t"
    using ne t trim_left_no_space [of s] by (intro span_word_shrinks) auto
  also have "length t \<le> length s"
    using t trim_left_length by simp
  finally show "(snd (span_word t), s) \<in> measure length" by simp
qed simp

declare Fields.simps [simp del]

text \<open>\<^verbatim>\<open>strings.Split\<close> and \<^verbatim>\<open>strings.Cut\<close> with a one-byte separator.\<close>

fun Split :: "char \<Rightarrow> string \<Rightarrow> string list" where
  "Split sep [] = [[]]"
| "Split sep (c # cs) =
     (if c = sep then [] # Split sep cs
      else (case Split sep cs of [] \<Rightarrow> [[c]] | w # ws \<Rightarrow> (c # w) # ws))"

fun Cut :: "char \<Rightarrow> string \<Rightarrow> (string \<times> string) option" where
  "Cut sep [] = None"
| "Cut sep (c # cs) =
     (if c = sep then Some ([], cs)
      else (case Cut sep cs of None \<Rightarrow> None | Some (a, b) \<Rightarrow> Some (c # a, b)))"

lemma Split_not_Nil [simp]: "Split sep s \<noteq> []"
  by (induction s) (auto split: list.splits)

lemma Cut_Some: "Cut sep s = Some (a, b) \<Longrightarrow> s = a @ sep # b \<and> sep \<notin> set a"
  by (induction s arbitrary: a b) (auto split: if_splits option.splits)

lemma Cut_append: "sep \<notin> set a \<Longrightarrow> Cut sep (a @ sep # b) = Some (a, b)"
  by (induction a) auto

lemma Cut_None: "Cut sep s = None \<longleftrightarrow> sep \<notin> set s"
  by (induction s) (auto split: option.splits)

section \<open>ASCII case folding\<close>

text \<open>
  \<^verbatim>\<open>strings.ToLower\<close> and \<^verbatim>\<open>strings.EqualFold\<close> on ASCII text, which is what device names, NAMEs
  and model identifiers are on the bus; bytes outside ASCII are left alone.
\<close>

definition lower_char :: "char \<Rightarrow> char" where
  "lower_char c = (if 65 \<le> bcode c \<and> bcode c \<le> 90 then char_of (bcode c + 32) else c)"

definition ToLower :: "string \<Rightarrow> string" where
  "ToLower s = map lower_char s"

definition EqualFold :: "string \<Rightarrow> string \<Rightarrow> bool" where
  "EqualFold s t \<longleftrightarrow> ToLower s = ToLower t"

definition HasPrefix :: "string \<Rightarrow> string \<Rightarrow> bool" where
  "HasPrefix s p \<longleftrightarrow> take (length p) s = p"

definition CutSuffix :: "string \<Rightarrow> string \<Rightarrow> string option" where
  "CutSuffix s suf =
     (if length suf \<le> length s \<and> drop (length s - length suf) s = suf
      then Some (take (length s - length suf) s) else None)"

section \<open>Formatting and parsing integers\<close>

definition digit_char :: "nat \<Rightarrow> char" where
  "digit_char d = (if d < 10 then char_of (48 + d) else char_of (87 + d))"

definition digit_val :: "char \<Rightarrow> nat option" where
  "digit_val c =
     (if 48 \<le> bcode c \<and> bcode c \<le> 57 then Some (bcode c - 48)
      else if 97 \<le> bcode c \<and> bcode c \<le> 122 then Some (bcode c - 87)
      else if 65 \<le> bcode c \<and> bcode c \<le> 90 then Some (bcode c - 55)
      else None)"

function FormatUint :: "nat \<Rightarrow> nat \<Rightarrow> string" where
  "FormatUint base n =
     (if n < base \<or> base < 2 then [digit_char n]
      else FormatUint base (n div base) @ [digit_char (n mod base)])"
  by pat_completeness auto
termination
  by (relation "measure snd") auto

declare FormatUint.simps [simp del]

definition FormatInt :: "int \<Rightarrow> string" where
  "FormatInt i = (if i < 0 then CHR ''-'' # FormatUint 10 (nat (- i)) else FormatUint 10 (nat i))"

text \<open>The verb \<^verbatim>\<open>%016x\<close>: at least 16 lower-case hexadecimal digits, padded with zeros.\<close>

definition hex16 :: "u64 \<Rightarrow> string" where
  "hex16 w = (let s = FormatUint 16 (unat w) in replicate (16 - length s) (CHR ''0'') @ s)"

datatype num_error = ErrSyntax | ErrRange

fun parse_digits :: "nat \<Rightarrow> nat \<Rightarrow> nat \<Rightarrow> string \<Rightarrow> num_error + nat" where
  "parse_digits base maxVal n [] = Inr n"
| "parse_digits base maxVal n (c # cs) =
     (case digit_val c of
        None \<Rightarrow> Inl ErrSyntax
      | Some d \<Rightarrow>
          if d \<ge> base then Inl ErrSyntax
          else if n * base + d > maxVal then Inl ErrRange
          else parse_digits base maxVal (n * base + d) cs)"

definition ParseUint :: "string \<Rightarrow> nat \<Rightarrow> nat \<Rightarrow> num_error + nat" where
  "ParseUint s base bits =
     (if s = [] then Inl ErrSyntax else parse_digits base (2 ^ bits - 1) 0 s)"

definition ParseInt64 :: "string \<Rightarrow> num_error + int" where
  "ParseInt64 s =
     (if s = [] then Inl ErrSyntax
      else
        let neg = (hd s = CHR ''-'');
            t = (if hd s = CHR ''+'' \<or> hd s = CHR ''-'' then tl s else s)
        in case ParseUint t 10 64 of
             Inl e \<Rightarrow> Inl e
           | Inr un \<Rightarrow>
               if \<not> neg \<and> un \<ge> 2 ^ 63 then Inl ErrRange
               else if neg \<and> un > 2 ^ 63 then Inl ErrRange
               else Inr (if neg then - int un else int un))"

lemma bcode_char_of: "n < 256 \<Longrightarrow> bcode (char_of n) = n"
  by (simp add: bcode_def)

lemma digit_val_char: "d < 16 \<Longrightarrow> digit_val (digit_char d) = Some d"
  by (simp add: digit_val_def digit_char_def bcode_char_of)

lemma FormatUint_not_Nil [simp]: "FormatUint b n \<noteq> []"
  by (subst FormatUint.simps) simp

lemma parse_digits_append:
  "parse_digits b m n (xs @ ys) =
     (case parse_digits b m n xs of Inl e \<Rightarrow> Inl e | Inr k \<Rightarrow> parse_digits b m k ys)"
  by (induction xs arbitrary: n) (auto split: option.split)

lemma parse_digits_Format:
  "2 \<le> b \<Longrightarrow> b \<le> 16 \<Longrightarrow> n \<le> m \<Longrightarrow> parse_digits b m 0 (FormatUint b n) = Inr n"
proof (induction b n rule: FormatUint.induct)
  case (1 b n)
  show ?case
  proof (cases "n < b")
    case True
    with 1 show ?thesis
      by (subst FormatUint.simps) (simp add: digit_val_char)
  next
    case False
    have "n div b \<le> m"
      using 1 by (meson div_le_dividend le_trans)
    then have IH: "parse_digits b m 0 (FormatUint b (n div b)) = Inr (n div b)"
      using 1 False by simp
    have d: "n mod b < 16" "\<not> b \<le> n mod b"
      using 1 by (auto intro: less_le_trans [of _ b] simp: not_le)
    have "\<not> m < n div b * b + n mod b"
      using 1 by simp
    then show ?thesis
      using 1 False IH d digit_val_char [OF d(1)]
      by (subst FormatUint.simps) (simp add: parse_digits_append)
  qed
qed

lemma ParseUint_Format:
  "2 \<le> b \<Longrightarrow> b \<le> 16 \<Longrightarrow> n < 2 ^ bits \<Longrightarrow> ParseUint (FormatUint b n) b bits = Inr n"
  by (simp add: ParseUint_def parse_digits_Format)

lemma parse_digits_le:
  "parse_digits b m n s = Inr k \<Longrightarrow> n \<le> m \<Longrightarrow> k \<le> m"
  by (induction s arbitrary: n) (auto split: option.splits if_splits)

lemma ParseUint_bound:
  assumes "ParseUint s b bits = Inr n"
  shows "n < 2 ^ bits"
proof -
  have "n \<le> 2 ^ bits - 1"
    using assms parse_digits_le [of b "2 ^ bits - 1" 0 s n]
    by (auto simp: ParseUint_def split: if_splits)
  moreover have "(0::nat) < 2 ^ bits" by simp
  ultimately show ?thesis by linarith
qed

lemma FormatUint_digits: "2 \<le> b \<Longrightarrow> b \<le> 10 \<Longrightarrow> \<forall>c \<in> set (FormatUint b n). 48 \<le> bcode c \<and> bcode c \<le> 57"
proof (induction b n rule: FormatUint.induct)
  case (1 b n)
  have "n mod b < 10"
    using 1 by (auto intro: less_le_trans [of _ b])
  then show ?case
    using 1 by (subst FormatUint.simps) (auto simp: digit_char_def bcode_char_of)
qed

lemma hd_FormatUint_digit: "48 \<le> bcode (hd (FormatUint 10 n)) \<and> bcode (hd (FormatUint 10 n)) \<le> 57"
  using FormatUint_digits [of 10 n] by simp

lemma ParseInt64_Format:
  assumes "- (2 ^ 63) \<le> i" and "i < 2 ^ 63"
  shows "ParseInt64 (FormatInt i) = Inr i"
proof (cases "i < 0")
  case True
  have "nat (- i) \<le> 2 ^ 63"
    using assms True by simp
  then have "nat (- i) < 2 ^ 64" by simp
  then have "ParseUint (FormatUint 10 (nat (- i))) 10 64 = Inr (nat (- i))"
    by (intro ParseUint_Format) auto
  then show ?thesis
    using True assms by (simp add: ParseInt64_def FormatInt_def Let_def)
next
  case False
  have lt: "nat i < 2 ^ 63"
    using assms False by (simp add: nat_less_iff)
  then have "ParseUint (FormatUint 10 (nat i)) 10 64 = Inr (nat i)"
    by (intro ParseUint_Format) auto
  moreover have "hd (FormatUint 10 (nat i)) \<noteq> CHR ''-''" "hd (FormatUint 10 (nat i)) \<noteq> CHR ''+''"
    using hd_FormatUint_digit [of "nat i"] by (auto simp: bcode_def)
  ultimately show ?thesis
    using False lt by (simp add: ParseInt64_def FormatInt_def Let_def)
qed

section \<open>Printable text\<close>

text \<open>Words of printable ASCII survive trimming and are what \<^verbatim>\<open>strings.Fields\<close> returns.\<close>

definition plain :: "char \<Rightarrow> bool" where
  "plain c \<longleftrightarrow> 33 \<le> bcode c \<and> bcode c \<le> 126"

lemma space_len_plain: "plain c \<Longrightarrow> space_len (c # s) = 0"
  by (simp add: space_len_def plain_def)

lemma space_len_blank: "space_len (CHR '' '' # s) = 1"
  by (simp add: space_len_def bcode_def)

lemma space_len_end_plain:
  assumes "s \<noteq> []" "plain (last s)"
  shows "space_len_end s = 0"
proof -
  obtain u c where s: "s = u @ [c]" and c: "plain c"
    using assms by (metis append_butlast_last_id)
  have "space_len (drop (length s - 2) s) \<noteq> 2" if "length s \<ge> 2"
    using that c by (cases u rule: rev_cases) (auto simp: s space_len_def plain_def)
  moreover have "space_len (drop (length s - 3) s) \<noteq> 3" if len: "length s \<ge> 3"
  proof -
    obtain v a b where u: "u = v @ [a, b]"
      using len by (cases u rule: rev_cases; cases "butlast u" rule: rev_cases) (auto simp: s)
    show ?thesis using c by (auto simp: s u space_len_def plain_def)
  qed
  moreover have "space_len [c] \<noteq> 1"
    using space_len_plain [OF c] by simp
  ultimately show ?thesis
    using assms(1) by (auto simp: space_len_end_def s)
qed

lemma TrimSpace_Nil [simp]: "TrimSpace [] = []"
  by (simp add: TrimSpace_def trim_left.simps trim_right.simps space_len_end_def)

lemma TrimSpace_plain:
  assumes "s \<noteq> []" "plain (hd s)" "plain (last s)"
  shows "TrimSpace s = s"
proof -
  have "trim_left s = s"
    using assms space_len_plain by (cases s) (auto simp: trim_left.simps)
  then show ?thesis
    using space_len_end_plain [OF assms(1,3)] by (simp add: TrimSpace_def trim_right.simps)
qed

lemma span_word_plain:
  "\<forall>c \<in> set w. plain c \<Longrightarrow> span_word w = (w, [])"
  "\<forall>c \<in> set w. plain c \<Longrightarrow> span_word (w @ CHR '' '' # r) = (w, CHR '' '' # r)"
  by (induction w) (auto simp: space_len_plain space_len_blank)

lemma Fields_Nil [simp]: "Fields [] = []"
  by (subst Fields.simps) (simp add: trim_left.simps)

lemma Fields_blank: "Fields (CHR '' '' # r) = Fields r"
proof -
  have "trim_left (CHR '' '' # r) = trim_left r"
    by (subst trim_left.simps) (simp add: space_len_blank)
  then show ?thesis by (subst Fields.simps) (metis Fields.simps)
qed

lemma Fields_plain:
  assumes "w \<noteq> []" "\<forall>c \<in> set w. plain c"
  shows "Fields w = [w]" "Fields (w @ CHR '' '' # r) = w # Fields r"
proof -
  have t: "trim_left (w @ x) = w @ x" for x
    using assms by (cases w) (auto simp: trim_left.simps space_len_plain)
  show "Fields w = [w]"
    using t [of "[]"] assms by (subst Fields.simps) (simp add: span_word_plain Let_def)
  show "Fields (w @ CHR '' '' # r) = w # Fields r"
    using t assms by (subst Fields.simps) (simp add: span_word_plain Let_def Fields_blank)
qed

fun join :: "char \<Rightarrow> string list \<Rightarrow> string" where
  "join sep [] = []"
| "join sep [w] = w"
| "join sep (w # ws) = w @ sep # join sep ws"

lemma join_Cons: "ws \<noteq> [] \<Longrightarrow> join sep (w # ws) = w @ sep # join sep ws"
  by (cases ws) auto

lemma Split_word: "sep \<notin> set w \<Longrightarrow> Split sep w = [w]"
  by (induction w) auto

lemma Split_word_sep: "sep \<notin> set w \<Longrightarrow> Split sep (w @ sep # r) = w # Split sep r"
  by (induction w) auto

lemma Split_join: "ws \<noteq> [] \<Longrightarrow> \<forall>w \<in> set ws. sep \<notin> set w \<Longrightarrow> Split sep (join sep ws) = ws"
  by (induction ws rule: list_nonempty_induct) (auto simp: Split_word Split_word_sep join_Cons)

lemma set_join: "set (join sep ws) \<subseteq> insert sep (\<Union>w \<in> set ws. set w)"
  by (induction sep ws rule: join.induct) auto

lemma join_Nil_iff: "\<forall>w \<in> set ws. w \<noteq> [] \<Longrightarrow> join sep ws = [] \<longleftrightarrow> ws = []"
  by (cases ws rule: list.exhaust; cases "tl ws") auto

lemma FormatUint_hex: "b = 10 \<or> b = 16 \<Longrightarrow>
    \<forall>c \<in> set (FormatUint b n). 48 \<le> bcode c \<and> bcode c \<le> 57 \<or> 97 \<le> bcode c \<and> bcode c \<le> 102"
proof (induction b n rule: FormatUint.induct)
  case (1 b n)
  have "n mod b < 16"
    using 1 by (auto intro: less_le_trans [of _ b])
  then show ?case
    using 1 by (subst FormatUint.simps) (auto simp: digit_char_def bcode_char_of)
qed

lemma FormatUint_plain: "b = 10 \<or> b = 16 \<Longrightarrow> c \<in> set (FormatUint b n) \<Longrightarrow> plain c"
  using FormatUint_hex [of b n] by (force simp: plain_def)

lemma FormatUint_no_sep:
  "b = 10 \<or> b = 16 \<Longrightarrow> CHR '','' \<notin> set (FormatUint b n)" "b = 10 \<or> b = 16 \<Longrightarrow> CHR ''-'' \<notin> set (FormatUint b n)"
  using FormatUint_hex [of b n] by (force simp: bcode_def)+

lemma TrimSpace_FormatUint [simp]: "b = 10 \<or> b = 16 \<Longrightarrow> TrimSpace (FormatUint b n) = FormatUint b n"
  by (rule TrimSpace_plain) (metis FormatUint_plain FormatUint_not_Nil hd_in_set last_in_set)+

end
