(* ===== verification/CanId.thy ===== *)
theory CanId
  imports GoStrings
begin

text \<open>
  Package \<^verbatim>\<open>canbus\<close>: the 29-bit CAN identifier (\<^verbatim>\<open>canid.go\<close>) and the 64-bit ISO NAME
  (\<^verbatim>\<open>name.go\<close>), each with its encoder, its decoder and the inverse laws between them. Both
  pairs are instances of the codec interface \<open>codec\<close>.
\<close>

section \<open>The codec interface\<close>

locale codec =
  fixes enc :: "'a \<Rightarrow> 'b"
    and dec :: "'b \<Rightarrow> 'a"
    and valid_src :: "'a \<Rightarrow> bool"
    and valid_code :: "'b \<Rightarrow> bool"
  assumes dec_enc: "valid_src x \<Longrightarrow> dec (enc x) = x"
    and enc_dec: "valid_code c \<Longrightarrow> enc (dec c) = c"
    and valid_enc: "valid_src x \<Longrightarrow> valid_code (enc x)"
    and valid_dec: "valid_code c \<Longrightarrow> valid_src (dec c)"
begin

lemma enc_inject: "valid_src x \<Longrightarrow> valid_src y \<Longrightarrow> enc x = enc y \<longleftrightarrow> x = y"
  by (metis dec_enc)

lemma dec_inject: "valid_code c \<Longrightarrow> valid_code d \<Longrightarrow> dec c = dec d \<longleftrightarrow> c = d"
  by (metis enc_dec)

lemma enc_bij: "bij_betw enc {x. valid_src x} {c. valid_code c}"
  by (rule bij_betw_byWitness [where f' = dec]) (auto simp: dec_enc enc_dec valid_enc valid_dec)

end

section \<open>CAN identifiers\<close>

record CANHeader =
  h_Priority :: u8
  h_PGN :: u32
  h_Source :: u8
  h_Destination :: u8

definition ParseCANID :: "u32 \<Rightarrow> CANHeader" where
  "ParseCANID cid =
     (let source = (ucast (cid AND 0xFF) :: u8);
          ps = (ucast (drop_bit 8 cid AND 0xFF) :: u8);
          pf = (ucast (drop_bit 16 cid AND 0xFF) :: u8);
          dp = (ucast (drop_bit 24 cid AND 0x01) :: u8);
          priority = (ucast (drop_bit 26 cid AND 0x07) :: u8);
          pgn = (if pf \<ge> 240
                 then push_bit 16 (ucast dp) OR push_bit 8 (ucast pf) OR ucast ps
                 else push_bit 16 (ucast dp) OR push_bit 8 (ucast pf) :: u32);
          dest = (if pf \<ge> 240 then 0xFF else ps)
      in \<lparr>h_Priority = priority, h_PGN = pgn, h_Source = source, h_Destination = dest\<rparr>)"

definition BuildCANID :: "CANHeader \<Rightarrow> u32" where
  "BuildCANID h =
     (let dp = drop_bit 16 (h_PGN h) AND 0x01;
          pf = (ucast (drop_bit 8 (h_PGN h) AND 0xFF) :: u8);
          ps = (if pf \<ge> 240 then ucast (h_PGN h AND 0xFF) else h_Destination h)
      in push_bit 26 (ucast (h_Priority h)) OR push_bit 24 dp OR push_bit 16 (ucast pf)
         OR push_bit 8 (ucast ps) OR ucast (h_Source h))"

text \<open>
  The identifiers and headers NMEA 2000 uses: 29 bits with the reserved bit 25 clear; a 3-bit
  priority, a 17-bit PGN, and either the broadcast destination (PDU2) or a PGN whose low byte is
  zero (PDU1, the destination is in the PS byte).
\<close>

definition valid_canid :: "u32 \<Rightarrow> bool" where
  "valid_canid cid \<longleftrightarrow> take_bit 29 cid = cid \<and> \<not> bit cid 25"

definition valid_header :: "CANHeader \<Rightarrow> bool" where
  "valid_header h \<longleftrightarrow>
     h_Priority h AND 7 = h_Priority h \<and> h_PGN h AND 0x1FFFF = h_PGN h \<and>
     (if (ucast (drop_bit 8 (h_PGN h)) :: u8) \<ge> 240 then h_Destination h = 0xFF
      else h_PGN h AND 0xFF = 0)"


lemmas bit_field_simps =
  bit_or_iff bit_and_iff bit_push_bit_iff bit_drop_bit_eq bit_unsigned_iff bit_take_bit_iff comp_def

definition canid_pf :: "u32 \<Rightarrow> u8" where
  "canid_pf cid = ucast (drop_bit 16 cid)"

definition canid_pgn_pf :: "u32 \<Rightarrow> u8" where
  "canid_pgn_pf pgn = ucast (drop_bit 8 pgn)"

lemma u8_bit_less: "bit (w :: u8) n \<Longrightarrow> n < 8"
  using bit_imp_le_length [of w n] by simp

lemma u32_bit_less: "bit (w :: u32) n \<Longrightarrow> n < 32"
  using bit_imp_le_length [of w n] by simp

lemma ucast_take8: "(ucast (take_bit 8 (x::u32)) :: u8) = ucast x"
  by (rule bit_word_eqI) (auto simp: bit_field_simps)

lemma Parse_simps:
  "h_Priority (ParseCANID cid) = ucast (take_bit 3 (drop_bit 26 cid))"
  "h_Source (ParseCANID cid) = ucast cid"
  "h_Destination (ParseCANID cid) = (if canid_pf cid \<ge> 240 then 0xFF else ucast (drop_bit 8 cid))"
  by (simp_all only: ParseCANID_def Let_def CANHeader.simps and_masks ucast_take8 canid_pf_def)


lemma bit_PGN_Parse:
  "bit (h_PGN (ParseCANID cid)) n \<longleftrightarrow>
     n < 8 \<and> canid_pf cid \<ge> 240 \<and> bit cid (n + 8) \<or> 8 \<le> n \<and> n < 17 \<and> bit cid (n + 8)"
proof -
  have *: "h_PGN (ParseCANID cid) =
      (if canid_pf cid \<ge> 240 then push_bit 16 (ucast (ucast (take_bit 1 (drop_bit 24 cid)) :: u8))
         OR push_bit 8 (ucast (canid_pf cid)) OR ucast (ucast (drop_bit 8 cid) :: u8)
       else push_bit 16 (ucast (ucast (take_bit 1 (drop_bit 24 cid)) :: u8)) OR push_bit 8 (ucast (canid_pf cid)))"
    by (simp only: ParseCANID_def Let_def CANHeader.simps and_masks ucast_take8 canid_pf_def)
  consider "n < 8" | "8 \<le> n" "n < 16" | "n = 16" | "16 < n" by linarith
  then show ?thesis
  proof cases
    case 1
    then show ?thesis
      by (simp add: * bit_field_simps add.commute)
  next
    case 2
    then obtain k where "n = k + 8" "k < 8" by (metis add.commute le_Suc_ex nat_add_left_cancel_less numeral_Bit0)
    then show ?thesis
      by (simp add: * bit_field_simps canid_pf_def add.commute add.left_commute)
  next
    case 3
    then show ?thesis
      by (simp add: * bit_field_simps canid_pf_def even_drop_bit_iff_not_bit)
  next
    case 4
    then show ?thesis
      by (auto simp: * bit_field_simps canid_pf_def)
  qed
qed


definition canid_ps :: "CANHeader \<Rightarrow> u8" where
  "canid_ps h = (if canid_pgn_pf (h_PGN h) \<ge> 240 then ucast (h_PGN h) else h_Destination h)"

lemma BuildCANID_alt:
  "BuildCANID h = push_bit 26 (ucast (h_Priority h)) OR push_bit 24 (take_bit 1 (drop_bit 16 (h_PGN h)))
     OR push_bit 16 (ucast (canid_pgn_pf (h_PGN h))) OR push_bit 8 (ucast (canid_ps h)) OR ucast (h_Source h)"
  by (simp only: BuildCANID_def Let_def and_masks ucast_take8 canid_pgn_pf_def canid_ps_def)

lemma bit_BuildCANID:
  "bit (BuildCANID h) n \<longleftrightarrow>
     n < 8 \<and> bit (h_Source h) n \<or> 8 \<le> n \<and> n < 16 \<and> bit (canid_ps h) (n - 8) \<or>
     16 \<le> n \<and> n < 25 \<and> bit (h_PGN h) (n - 8) \<or> 26 \<le> n \<and> n < 32 \<and> bit (h_Priority h) (n - 26)"
proof -
  consider "n < 8" | k where "n = k + 8" "k < 8" | k where "n = k + 16" "k < 8" | "n = 24" | "n = 25"
    | k where "n = k + 26" "k < 6" | "32 \<le> n"
  proof -
    have "n < 8 \<or> 8 \<le> n \<and> n - 8 < 8 \<or> 16 \<le> n \<and> n - 16 < 8 \<or> n = 24 \<or> n = 25 \<or> 26 \<le> n \<and> n - 26 < 6 \<or> 32 \<le> n"
      by linarith
    then show ?thesis
      using that by (metis le_add_diff_inverse2)
  qed
  then show ?thesis
    by cases (auto simp: BuildCANID_alt bit_field_simps canid_pgn_pf_def even_drop_bit_iff_not_bit dest: u8_bit_less u32_bit_less)
qed

lemma Build_Parse:
  assumes "valid_canid cid"
  shows "BuildCANID (ParseCANID cid) = cid"
proof (rule bit_word_eqI)
  fix n assume n: "n < LENGTH(32)"
  have hi: "bit cid n \<Longrightarrow> n < 29 \<and> n \<noteq> 25"
    using assms unfolding valid_canid_def by (metis bit_take_bit_iff)
  have pf: "canid_pgn_pf (h_PGN (ParseCANID cid)) = canid_pf cid"
    by (rule bit_word_eqI) (auto simp: canid_pgn_pf_def canid_pf_def bit_field_simps bit_PGN_Parse add.commute add.left_commute)
  have ps: "bit (canid_ps (ParseCANID cid)) k \<longleftrightarrow> k < 8 \<and> bit cid (k + 8)" for k
    by (auto simp: canid_ps_def pf bit_PGN_Parse Parse_simps bit_field_simps add.commute)
  show "bit (BuildCANID (ParseCANID cid)) n = bit cid n"
  proof (cases "26 \<le> n \<and> n < 29")
    case True
    then show ?thesis by (auto simp: bit_BuildCANID ps bit_PGN_Parse Parse_simps bit_field_simps)
  next
    case False
    consider "n < 8" | "8 \<le> n" "n < 16" | "16 \<le> n" "n < 25" | "25 \<le> n" by linarith
    then show ?thesis
      using hi n False by cases (auto simp: bit_BuildCANID ps bit_PGN_Parse Parse_simps bit_field_simps)
  qed
qed

lemma Parse_Build:
  assumes "valid_header h"
  shows "ParseCANID (BuildCANID h) = h"
proof -
  have prio: "bit (h_Priority h) n \<Longrightarrow> n < 3" and pgn: "bit (h_PGN h) n \<Longrightarrow> n < 17" for n
    using assms unfolding valid_header_def and_masks by (metis bit_take_bit_iff)+
  have pf: "canid_pf (BuildCANID h) = canid_pgn_pf (h_PGN h)"
    by (rule bit_word_eqI) (auto simp: canid_pgn_pf_def canid_pf_def bit_field_simps bit_BuildCANID)
  have low: "\<not> canid_pgn_pf (h_PGN h) \<ge> 240 \<Longrightarrow> bit (h_PGN h) n \<Longrightarrow> 8 \<le> n" for n
    using assms unfolding valid_header_def and_masks canid_pgn_pf_def
    by (metis bit_0_eq bit_take_bit_iff bot_apply bot_bool_def not_le)
  show ?thesis
  proof (rule CANHeader.equality)
    show "h_Priority (ParseCANID (BuildCANID h)) = h_Priority h"
      by (rule bit_word_eqI) (auto simp: Parse_simps bit_field_simps bit_BuildCANID dest: prio)
    show "h_Source (ParseCANID (BuildCANID h)) = h_Source h"
      by (rule bit_word_eqI) (auto simp: Parse_simps bit_field_simps bit_BuildCANID)
    show "h_Destination (ParseCANID (BuildCANID h)) = h_Destination h"
    proof (cases "canid_pgn_pf (h_PGN h) \<ge> 240")
      case True
      then show ?thesis
        using assms by (simp add: Parse_simps pf valid_header_def canid_pgn_pf_def)
    next
      case False
      have "(ucast (drop_bit 8 (BuildCANID h)) :: u8) = h_Destination h"
        using False by (intro bit_word_eqI) (auto simp: bit_field_simps bit_BuildCANID canid_ps_def)
      then show ?thesis using False by (simp add: Parse_simps pf)
    qed
    show "h_PGN (ParseCANID (BuildCANID h)) = h_PGN h"
      using low pgn
      by (intro bit_word_eqI)
         (fastforce simp: bit_PGN_Parse pf bit_BuildCANID canid_ps_def bit_field_simps)
  qed simp
qed


interpretation canid: codec BuildCANID ParseCANID valid_header valid_canid
proof
  fix h assume "valid_header h"
  then show "ParseCANID (BuildCANID h) = h" by (rule Parse_Build)
next
  fix c assume "valid_canid c"
  then show "BuildCANID (ParseCANID c) = c" by (rule Build_Parse)
next
  fix h assume h: "valid_header h"
  have "bit (h_Priority h) n \<Longrightarrow> n < 3" for n
    using h unfolding valid_header_def and_masks by (metis bit_take_bit_iff)
  then have "bit (BuildCANID h) n \<Longrightarrow> n < 29" for n
    by (fastforce simp: bit_BuildCANID)
  then have "take_bit 29 (BuildCANID h) = BuildCANID h"
    by (intro bit_word_eqI) (auto simp: bit_take_bit_iff)
  then show "valid_canid (BuildCANID h)"
    by (simp add: valid_canid_def bit_BuildCANID)
next
  fix c
  show "valid_header (ParseCANID c)"
  proof -
    have "canid_pgn_pf (h_PGN (ParseCANID c)) = canid_pf c"
      by (rule bit_word_eqI)
         (auto simp: canid_pgn_pf_def canid_pf_def bit_field_simps bit_PGN_Parse ac_simps)
    moreover have "take_bit 3 (h_Priority (ParseCANID c)) = h_Priority (ParseCANID c)"
      by (rule bit_word_eqI) (auto simp: Parse_simps bit_field_simps)
    moreover have "take_bit 17 (h_PGN (ParseCANID c)) = h_PGN (ParseCANID c)"
      by (rule bit_word_eqI) (auto simp: bit_PGN_Parse bit_field_simps)
    moreover have "\<not> canid_pf c \<ge> 240 \<Longrightarrow> take_bit 8 (h_PGN (ParseCANID c)) = 0"
      by (rule bit_word_eqI) (auto simp: bit_PGN_Parse bit_field_simps)
    ultimately show ?thesis
      by (auto simp: valid_header_def and_masks canid_pgn_pf_def Parse_simps)
  qed
qed

text \<open>
  C29: building the identifier of a parsed header gives the identifier back, for every 29-bit
  identifier with the reserved bit clear, and parsing the identifier of a header gives the header
  back, for every header NMEA 2000 can carry; so the two functions are inverse bijections.
\<close>

theorem canid_roundtrip:
  "(valid_canid cid \<longrightarrow> BuildCANID (ParseCANID cid) = cid) \<and>
   (valid_header h \<longrightarrow> ParseCANID (BuildCANID h) = h) \<and>
   bij_betw BuildCANID {h. valid_header h} {cid. valid_canid cid}"
  using canid.dec_enc canid.enc_dec canid.enc_bij by blast

theorem canid_roundtrip_witness:
  "BuildCANID (ParseCANID 0x09F8010A) = 0x09F8010A \<and>
   ParseCANID (BuildCANID \<lparr>h_Priority = 6, h_PGN = 59904, h_Source = 254, h_Destination = 10\<rparr>)
     = \<lparr>h_Priority = 6, h_PGN = 59904, h_Source = 254, h_Destination = 10\<rparr>"
proof -
  have "valid_canid 0x09F8010A" by (simp add: valid_canid_def)
  moreover have "valid_header \<lparr>h_Priority = 6, h_PGN = 59904, h_Source = 254, h_Destination = 10\<rparr>"
    by (simp add: valid_header_def)
  ultimately show ?thesis
    using canid_roundtrip by blast
qed

section \<open>ISO NAMEs\<close>

record NameFields =
  nf_NAMEHex :: string
  nf_Manufacturer :: string
  nf_ManufacturerCode :: u16
  nf_DeviceClass :: u8
  nf_DeviceFunction :: u8
  nf_DeviceInstance :: u8
  nf_UniqueNumber :: u32

definition Manufacturers :: "(u16 \<times> string) list" where
  "Manufacturers = [
    (69, ''Maretron''), (78, ''FW Murphy''), (80, ''Twin Disc''), (85, ''Kohler''),
    (88, ''Hemisphere GPS''), (116, ''BEP''), (135, ''Airmar''), (137, ''Simrad''),
    (140, ''Lowrance''), (144, ''Mercury Marine''), (147, ''Nautibus''),
    (148, ''Blue Water Data''), (154, ''Westerbeke''), (163, ''Evinrude''),
    (165, ''CPAC Systems''), (168, ''Xantrex''), (174, ''Yanmar''), (176, ''Mastervolt''),
    (185, ''BEP Marine''), (192, ''Floscan''), (198, ''Mystic Valley Comms''), (199, ''Actia''),
    (211, ''Nobeltec''), (215, ''Oceanic Systems''), (224, ''Yacht Monitoring Solutions''),
    (228, ''ZF''), (229, ''Garmin''), (233, ''Yacht Devices''), (235, ''SilverHook/Fusion''),
    (243, ''Coelmo''), (257, ''Honda''), (272, ''Groco''), (273, ''Actisense''),
    (274, ''Amphenol''), (275, ''Navico''), (283, ''Hamilton Jet''), (285, ''Sea Recovery''),
    (286, ''Coelmo''), (295, ''BEP Marine''), (304, ''Empir Bus''), (305, ''NovAtel''),
    (306, ''Sleipner''), (315, ''ICOM''), (328, ''Qwerty''), (341, ''Victron Energy''),
    (345, ''Korea Maritime University''), (351, ''Thrane and Thrane''), (355, ''Mastervolt''),
    (356, ''Fischer Panda''), (358, ''Victron''), (370, ''Rolls Royce Marine''),
    (373, ''Electronic Design''), (374, ''Northern Lights''), (378, ''Glendinning''),
    (381, ''B&G''), (384, ''Rose Point Navigation''), (385, ''Johnson Outdoors''),
    (394, ''Capi 2''), (396, ''Beyond Measure''), (400, ''Livorsi Marine''), (404, ''ComNav''),
    (409, ''Chetco Digital Instruments''), (419, ''Fusion''), (421, ''Standard Horizon''),
    (422, ''True Heading''), (426, ''Egersund Marine Electronics''),
    (427, ''Em-Trak Marine Electronics''), (431, ''Tohatsu''), (437, ''Digital Yacht''),
    (440, ''Comar Systems''), (443, ''VDO/Continental''), (451, ''Parker Hannifin''),
    (459, ''Alltek Marine Electronics''), (460, ''SAN Giorgio''), (466, ''Ocean Signal''),
    (467, ''Mastervolt''), (470, ''Webasto''), (471, ''Torqeedo''), (473, ''Silvertek''),
    (476, ''GME/Standard Communications''), (478, ''Humminbird''), (481, ''Sea Cross Marine''),
    (493, ''LCJ Capteurs''), (499, ''Vesper Marine''), (502, ''Attwood Marine''),
    (503, ''Naviop''), (504, ''Vessel Systems & Electronics''), (510, ''Marinesoft''),
    (517, ''NoLand Engineering''), (518, ''Transas Marine''),
    (529, ''National Instruments Korea''), (532, ''Shenzhen Jiuzhou Himunication''),
    (540, ''Cummins''), (557, ''Suzuki''), (571, ''Volvo Penta''), (573, ''Watcheye''),
    (578, ''Advansea''), (579, ''KVH''), (580, ''San Jose Technology''),
    (583, ''Yacht Control''), (586, ''Ewol''), (591, ''Raymarine''),
    (595, ''Diverse Yacht Services''), (600, ''Furuno''), (605, ''Si-Tex''),
    (612, ''Samwon IT''), (614, ''Seekeeper''), (637, ''Cox Powertrain''), (641, ''Humphree''),
    (644, ''Ocean LED''), (645, ''Prospec''), (658, ''NovAtel''), (688, ''Poly Planar''),
    (715, ''Lumishore''), (717, ''Bilt Solar''), (735, ''Yamaha''), (739, ''Dometic''),
    (743, ''Simrad''), (744, ''Intellian''), (773, ''Broyda Industries''),
    (776, ''Canadian Automotive''), (795, ''Technicold''), (796, ''Blue Water Desalination''),
    (803, ''Gill Sensors''), (811, ''HelmSmith''), (815, ''Quick''), (824, ''Undheim Systems''),
    (838, ''TeamSurv''), (845, ''Honda''), (862, ''Oceanvolt''), (868, ''Prospec''),
    (890, ''Oceanvolt''), (909, ''Still Water Designs''), (911, ''BlueSea''),
    (1850, ''Yamaha''), (1851, ''Yamaha''), (1852, ''Yamaha''), (1853, ''Yamaha''),
    (1854, ''Yamaha''), (1855, ''Yamaha'')]"

definition LookupManufacturer :: "u16 \<Rightarrow> string" where
  "LookupManufacturer code =
     (case map_of Manufacturers code of
        Some name \<Rightarrow> name
      | None \<Rightarrow> ''Unknown ('' @ FormatUint 10 (unat code) @ '')'')"

definition DecodeNAME :: "u64 \<Rightarrow> NameFields" where
  "DecodeNAME name =
     (let uniqueNumber = (ucast (name AND 0x1FFFFF) :: u32);
          manufacturerCode = (ucast (drop_bit 21 name AND 0x7FF) :: u16);
          instanceLower = (ucast (drop_bit 32 name AND 0x07) :: u8);
          instanceUpper = (ucast (drop_bit 35 name AND 0x1F) :: u8);
          deviceFunction = (ucast (drop_bit 40 name AND 0xFF) :: u8);
          deviceClass = (ucast (drop_bit 49 name AND 0x7F) :: u8);
          deviceInstance = push_bit 3 instanceUpper OR instanceLower
      in \<lparr>nf_NAMEHex = hex16 name, nf_Manufacturer = LookupManufacturer manufacturerCode,
          nf_ManufacturerCode = manufacturerCode, nf_DeviceClass = deviceClass,
          nf_DeviceFunction = deviceFunction, nf_DeviceInstance = deviceInstance,
          nf_UniqueNumber = uniqueNumber\<rparr>)"

record NameEncodeFields =
  ne_UniqueNumber :: u32
  ne_ManufacturerCode :: u16
  ne_DeviceInstance :: u8
  ne_DeviceFunction :: u8
  ne_DeviceClass :: u8
  ne_SystemInstance :: u8
  ne_IndustryGroup :: u8
  ne_ArbitraryAddressCapable :: bool

definition EncodeName :: "NameEncodeFields \<Rightarrow> u64" where
  "EncodeName f =
     ucast (ne_UniqueNumber f AND 0x1FFFFF)
     OR push_bit 21 (ucast (ne_ManufacturerCode f AND 0x7FF))
     OR push_bit 32 (ucast (ne_DeviceInstance f AND 0x07))
     OR push_bit 35 (ucast (drop_bit 3 (ne_DeviceInstance f) AND 0x1F))
     OR push_bit 40 (ucast (ne_DeviceFunction f))
     OR push_bit 49 (ucast (ne_DeviceClass f AND 0x7F))
     OR push_bit 56 (ucast (ne_SystemInstance f AND 0x0F))
     OR push_bit 60 (ucast (ne_IndustryGroup f AND 0x07))
     OR (if ne_ArbitraryAddressCapable f then push_bit 63 1 else 0)"

lemma bit_2p63: "bit (9223372036854775808 :: int) n \<longleftrightarrow> n = 63"
proof -
  have "(9223372036854775808 :: int) = 2 ^ 63" by simp
  then show ?thesis
    by (simp only: bit_exp_iff) auto
qed

lemma bit_EncodeName:
  "n < 21 \<Longrightarrow> bit (EncodeName f) n = bit (ne_UniqueNumber f) n"
  "n < 11 \<Longrightarrow> bit (EncodeName f) (21 + n) = bit (ne_ManufacturerCode f) n"
  "n < 3 \<Longrightarrow> bit (EncodeName f) (32 + n) = bit (ne_DeviceInstance f) n"
  "n < 5 \<Longrightarrow> bit (EncodeName f) (35 + n) = bit (ne_DeviceInstance f) (3 + n)"
  "n < 8 \<Longrightarrow> bit (EncodeName f) (40 + n) = bit (ne_DeviceFunction f) n"
  "n < 7 \<Longrightarrow> bit (EncodeName f) (49 + n) = bit (ne_DeviceClass f) n"
  by (auto simp: EncodeName_def and_masks bit_field_simps bit_2p63 dest: u8_bit_less)

lemma Decode_simps:
  "nf_UniqueNumber (DecodeNAME w) = ucast (take_bit 21 w)"
  "nf_ManufacturerCode (DecodeNAME w) = ucast (take_bit 11 (drop_bit 21 w))"
  "nf_DeviceFunction (DecodeNAME w) = ucast (take_bit 8 (drop_bit 40 w))"
  "nf_DeviceClass (DecodeNAME w) = ucast (take_bit 7 (drop_bit 49 w))"
  "nf_DeviceInstance (DecodeNAME w) =
     push_bit 3 (ucast (take_bit 5 (drop_bit 35 w))) OR ucast (take_bit 3 (drop_bit 32 w))"
  "nf_NAMEHex (DecodeNAME w) = hex16 w"
  "nf_Manufacturer (DecodeNAME w) = LookupManufacturer (nf_ManufacturerCode (DecodeNAME w))"
  by (simp_all only: DecodeNAME_def Let_def NameFields.simps and_masks)

text \<open>
  decoding an encoded NAME returns the encoded fields cut to their widths (21-bit unique
  number, 11-bit manufacturer code, 7-bit class; instance and function in full), and the
  manufacturer name looked up from the encoded code.
\<close>

theorem DecodeNAME_EncodeName:
  "DecodeNAME (EncodeName f) =
     \<lparr>nf_NAMEHex = hex16 (EncodeName f),
      nf_Manufacturer = LookupManufacturer (take_bit 11 (ne_ManufacturerCode f)),
      nf_ManufacturerCode = take_bit 11 (ne_ManufacturerCode f),
      nf_DeviceClass = take_bit 7 (ne_DeviceClass f),
      nf_DeviceFunction = ne_DeviceFunction f,
      nf_DeviceInstance = ne_DeviceInstance f,
      nf_UniqueNumber = take_bit 21 (ne_UniqueNumber f)\<rparr>"
proof -
  have mc: "nf_ManufacturerCode (DecodeNAME (EncodeName f)) = take_bit 11 (ne_ManufacturerCode f)"
    by (rule bit_word_eqI) (auto simp: Decode_simps bit_field_simps bit_EncodeName)
  have "nf_UniqueNumber (DecodeNAME (EncodeName f)) = take_bit 21 (ne_UniqueNumber f)"
    by (rule bit_word_eqI) (auto simp: Decode_simps bit_field_simps bit_EncodeName)
  moreover have "nf_DeviceFunction (DecodeNAME (EncodeName f)) = ne_DeviceFunction f"
    by (rule bit_word_eqI) (auto simp: Decode_simps bit_field_simps bit_EncodeName)
  moreover have "nf_DeviceClass (DecodeNAME (EncodeName f)) = take_bit 7 (ne_DeviceClass f)"
    by (rule bit_word_eqI) (auto simp: Decode_simps bit_field_simps bit_EncodeName)
  moreover have "nf_DeviceInstance (DecodeNAME (EncodeName f)) = ne_DeviceInstance f"
  proof (rule bit_word_eqI)
    fix n assume "n < LENGTH(8)"
    then show "bit (nf_DeviceInstance (DecodeNAME (EncodeName f))) n = bit (ne_DeviceInstance f) n"
    proof (cases "n < 3")
      case False
      then obtain k where "n = 3 + k" by (metis le_Suc_ex not_less)
      with \<open>n < LENGTH(8)\<close> show ?thesis
        by (simp add: Decode_simps bit_field_simps bit_EncodeName)
    qed (simp add: Decode_simps bit_field_simps bit_EncodeName)
  qed
  ultimately show ?thesis
    using mc by (simp add: Decode_simps NameFields.equality)
qed

end
