(* ===== verification/Float64.thy ===== *)
theory Float64
  imports GoStrings "HOL-Library.Log_Nat"
begin

text \<open>
  Go's \<^verbatim>\<open>float64\<close> as the sources use it: conversion from integers, parsing of decimal literals,
  subtraction, absolute value and comparison, with IEEE round-to-nearest-even on exact rationals.
  Finite values are the rationals they denote; negative zero is kept apart because it prints
  differently.
\<close>

datatype f64 = FNaN | FPInf | FNInf | FNegZero | FFin rat

definition pow2i :: "int \<Rightarrow> rat" where
  "pow2i e = 2 powi e"

definition round_half_even :: "rat \<Rightarrow> int" where
  "round_half_even q =
     (let f = \<lfloor>q\<rfloor>; r = q - of_int f
      in if r < 1 / 2 then f else if r > 1 / 2 then f + 1 else if even f then f else f + 1)"

text \<open>The binary exponent of a positive rational: \<open>pow2i e \<le> q < pow2i (e + 1)\<close>.\<close>

definition ilog2 :: "rat \<Rightarrow> int" where
  "ilog2 q =
     (case quotient_of q of (n, d) \<Rightarrow>
        let e = bitlen n - bitlen d in if pow2i e \<le> q then e else e - 1)"

definition f64_of_rat :: "rat \<Rightarrow> f64" where
  "f64_of_rat q =
     (if q = 0 then FFin 0
      else
        let a = \<bar>q\<bar>; u = max (ilog2 a - 52) (- 1074);
            v = of_int (round_half_even (a / pow2i u)) * pow2i u
        in if v \<ge> 2 ^ 1024 then (if q < 0 then FNInf else FPInf)
           else if v = 0 then (if q < 0 then FNegZero else FFin 0)
           else FFin (if q < 0 then - v else v))"

definition f64_of_int :: "int \<Rightarrow> f64" where
  "f64_of_int i = f64_of_rat (of_int i)"

fun f64_val :: "f64 \<Rightarrow> rat option" where
  "f64_val (FFin q) = Some q"
| "f64_val FNegZero = Some 0"
| "f64_val _ = None"

fun f64_lt :: "f64 \<Rightarrow> f64 \<Rightarrow> bool" where
  "f64_lt FNaN _ = False"
| "f64_lt _ FNaN = False"
| "f64_lt FNInf y = (y \<noteq> FNInf)"
| "f64_lt FPInf _ = False"
| "f64_lt x FPInf = True"
| "f64_lt x FNInf = False"
| "f64_lt x y = (the (f64_val x) < the (f64_val y))"

fun f64_eq :: "f64 \<Rightarrow> f64 \<Rightarrow> bool" where
  "f64_eq FNaN _ = False"
| "f64_eq _ FNaN = False"
| "f64_eq FPInf y = (y = FPInf)"
| "f64_eq FNInf y = (y = FNInf)"
| "f64_eq x FPInf = False"
| "f64_eq x FNInf = False"
| "f64_eq x y = (the (f64_val x) = the (f64_val y))"

definition f64_le :: "f64 \<Rightarrow> f64 \<Rightarrow> bool" where
  "f64_le x y \<longleftrightarrow> f64_lt x y \<or> f64_eq x y"

fun f64_sub :: "f64 \<Rightarrow> f64 \<Rightarrow> f64" where
  "f64_sub FNaN _ = FNaN"
| "f64_sub _ FNaN = FNaN"
| "f64_sub FPInf y = (if y = FPInf then FNaN else FPInf)"
| "f64_sub FNInf y = (if y = FNInf then FNaN else FNInf)"
| "f64_sub x FPInf = FNInf"
| "f64_sub x FNInf = FPInf"
| "f64_sub FNegZero (FFin b) = (if b = 0 then FNegZero else f64_of_rat (- b))"
| "f64_sub x y = f64_of_rat (the (f64_val x) - the (f64_val y))"

fun f64_abs :: "f64 \<Rightarrow> f64" where
  "f64_abs FNaN = FNaN"
| "f64_abs FPInf = FPInf"
| "f64_abs FNInf = FPInf"
| "f64_abs FNegZero = FFin 0"
| "f64_abs (FFin q) = FFin \<bar>q\<bar>"

text \<open>
  \<^verbatim>\<open>strconv.ParseFloat(s, 64)\<close> on plain decimal notation (sign, digits, at most one point, no
  exponent), the only notation the callers' lexer lets through.
\<close>

definition is_digit_char :: "char \<Rightarrow> bool" where
  "is_digit_char c \<longleftrightarrow> 48 \<le> bcode c \<and> bcode c \<le> 57"

definition digits_val :: "string \<Rightarrow> nat" where
  "digits_val s = foldl (\<lambda>n c. n * 10 + (bcode c - 48)) 0 s"

definition ParseFloat64 :: "string \<Rightarrow> num_error + f64" where
  "ParseFloat64 s =
     (if s = [] then Inl ErrSyntax
      else
        let neg = (hd s = CHR ''-'');
            t = (if hd s = CHR ''+'' \<or> hd s = CHR ''-'' then tl s else s);
            (ip, fp) = (case Cut (CHR ''.'') t of None \<Rightarrow> (t, []) | Some (a, b) \<Rightarrow> (a, b))
        in if ip @ fp = [] \<or> \<not> list_all is_digit_char (ip @ fp) then Inl ErrSyntax
           else
             let q = (of_nat (digits_val (ip @ fp)) / 10 ^ length fp :: rat);
                 v = f64_of_rat q
             in if v = FPInf then Inl ErrRange
                else Inr (if neg then (case v of FFin x \<Rightarrow> if x = 0 then FNegZero else FFin (- x) | w \<Rightarrow> w)
                          else v))"

section \<open>Integers survive the conversion\<close>

lemma pow2i_pos [simp]: "0 < pow2i e"
  by (simp add: pow2i_def)

lemma pow2i_nat: "0 \<le> e \<Longrightarrow> pow2i e = 2 ^ nat e"
  by (simp add: pow2i_def power_int_def)

lemma pow2i_neg: "e < 0 \<Longrightarrow> pow2i e = 1 / 2 ^ nat (- e)"
  by (simp add: pow2i_def power_int_def field_simps)

lemma pow2i_add: "pow2i (a + b) = pow2i a * pow2i b"
  by (simp add: pow2i_def power_int_add)

lemma pow2i_mono: "a \<le> b \<Longrightarrow> pow2i a \<le> pow2i b"
  by (simp add: pow2i_def power_int_increasing)

lemma pow2i_bitlen: "0 < n \<Longrightarrow> pow2i (bitlen n - 1) \<le> of_int n \<and> of_int n < pow2i (bitlen n)"
proof -
  assume "0 < n"
  then have b: "2 ^ nat (bitlen n - 1) \<le> n" "n < 2 ^ nat (bitlen n)" "0 < bitlen n"
    using bitlen_bounds [of n] bitlen_eq_zero_iff [of n] bitlen_nonneg [of n] by linarith+
  have "(of_int (2 ^ nat (bitlen n - 1)) :: rat) \<le> of_int n" "(of_int n :: rat) < of_int (2 ^ nat (bitlen n))"
    using b(1,2) by (simp_all only: of_int_le_iff of_int_less_iff)
  then show ?thesis
    using b(3) by (simp add: pow2i_nat)
qed

lemma ilog2_spec: "0 < q \<Longrightarrow> pow2i (ilog2 q) \<le> q \<and> q < pow2i (ilog2 q + 1)"
proof -
  assume q: "0 < q"
  obtain n d where nd: "quotient_of q = (n, d)" by (cases "quotient_of q")
  have d: "0 < d" using nd quotient_of_denom_pos by simp
  have qe: "q = of_int n / of_int d" using nd quotient_of_div by simp
  then have n: "0 < n" using q d by (simp add: zero_less_divide_iff)
  let ?e = "bitlen n - bitlen d"
  note bn = pow2i_bitlen [OF n] and bd = pow2i_bitlen [OF d]
  have up: "q < pow2i (?e + 1)"
  proof -
    have "pow2i (bitlen n) = pow2i (?e + 1) * pow2i (bitlen d - 1)"
      by (simp add: pow2i_add [symmetric])
    also have "\<dots> \<le> pow2i (?e + 1) * of_int d"
      using bd by (intro mult_left_mono) (auto intro: less_imp_le)
    finally show ?thesis using bn d qe by (simp add: pos_divide_less_eq)
  qed
  have low: "pow2i (?e - 1) \<le> q"
  proof -
    have "pow2i (?e - 1) * of_int d \<le> pow2i (?e - 1) * pow2i (bitlen d)"
      using bd by (intro mult_left_mono) (auto intro: less_imp_le)
    also have "\<dots> = pow2i (bitlen n - 1)"
      by (simp add: pow2i_add [symmetric])
    finally show ?thesis using bn d qe by (simp add: pos_le_divide_eq)
  qed
  show ?thesis
    using up low by (auto simp: ilog2_def nd Let_def not_le)
qed

lemma round_half_even_int [simp]: "round_half_even (of_int k) = k"
  by (simp add: round_half_even_def Let_def)

lemma round_half_even_ge: "of_int k \<le> q \<Longrightarrow> k \<le> round_half_even q"
  by (auto simp: round_half_even_def Let_def le_floor_iff intro: order_trans [of k "\<lfloor>q\<rfloor>"])

text \<open>Every integer of at most 53 bits is exact; a larger one stays at least \<open>2\<^sup>53\<close> in size.\<close>

lemma f64_of_int_exact:
  assumes "\<bar>i\<bar> \<le> 2 ^ 53"
  shows "f64_of_int i = FFin (of_int i)"
proof (cases "i = 0")
  case False
  let ?a = "of_int \<bar>i\<bar> :: rat" and ?e = "ilog2 (of_int \<bar>i\<bar>)"
  have a: "0 < ?a" using False by simp
  note il = ilog2_spec [OF a]
  have a53: "?a \<le> 2 ^ 53"
    using assms by (metis of_int_le_iff of_int_power of_int_numeral)
  have e0: "0 \<le> ?e"
  proof (rule ccontr)
    assume "\<not> 0 \<le> ?e"
    then have "pow2i (?e + 1) \<le> pow2i 0" by (intro pow2i_mono) simp
    then have "?a < 1" using il by (simp add: pow2i_nat)
    then show False using False by (metis int_one_le_iff_zero_less not_le of_int_1_le_iff zero_less_abs_iff)
  qed
  have e53: "?e \<le> 53"
  proof (rule ccontr)
    assume "\<not> ?e \<le> 53"
    then have "pow2i 54 \<le> pow2i ?e" by (intro pow2i_mono) simp
    then show False using il a53 by (simp add: pow2i_nat)
  qed
  obtain k where k: "?a / pow2i (max (?e - 52) (- 1074)) = of_int k"
  proof (cases "?e \<le> 52")
    case True
    then have "?a / pow2i (max (?e - 52) (- 1074)) = of_int (\<bar>i\<bar> * 2 ^ nat (52 - ?e))"
      using e0 by (cases "?e = 52") (simp_all add: pow2i_nat pow2i_neg)
    then show ?thesis by (rule that)
  next
    case False
    then have "?e = 53" using e53 by simp
    then have "?a = 2 ^ 53" using il a53 by (simp add: pow2i_nat)
    then have "?a / pow2i (max (?e - 52) (- 1074)) = of_int (2 ^ 52)"
      using \<open>?e = 53\<close> by (simp add: pow2i_nat)
    then show ?thesis by (rule that)
  qed
  have cancel: "a = of_int k * p" if "a / p = of_int k" "0 < p" for a p :: rat
    using that by (simp add: divide_eq_eq)
  have v: "of_int (round_half_even (?a / pow2i (max (?e - 52) (- 1074)))) * pow2i (max (?e - 52) (- 1074)) = ?a"
    unfolding k round_half_even_int by (rule cancel [OF k pow2i_pos, symmetric])
  have "?a < 2 ^ 1024" using a53 by (rule le_less_trans) simp
  then show ?thesis
    using v False by (auto simp: f64_of_int_def f64_of_rat_def Let_def)
qed (simp add: f64_of_int_def f64_of_rat_def)

lemma round_half_even_le: "of_int (round_half_even q) \<le> q + 1"
proof -
  have "of_int \<lfloor>q\<rfloor> \<le> q" by simp
  moreover have "round_half_even q = \<lfloor>q\<rfloor> \<or> round_half_even q = \<lfloor>q\<rfloor> + 1"
    by (simp add: round_half_even_def Let_def)
  ultimately show ?thesis
    by (elim disjE) (simp_all add: add_increasing2)
qed

lemma f64_of_rat_fin:
  assumes "q \<noteq> 0" "v = of_int (round_half_even (\<bar>q\<bar> / pow2i u)) * pow2i u"
    "u = max (ilog2 \<bar>q\<bar> - 52) (- 1074)" "v < 2 ^ 1024" "v \<noteq> 0"
  shows "f64_of_rat q = FFin (if q < 0 then - v else v)"
proof -
  have "\<not> v \<ge> 2 ^ 1024" using assms(4) by (simp only: not_le)
  then show ?thesis
    using assms(1,5) unfolding f64_of_rat_def Let_def assms(3) [symmetric] assms(2) [symmetric]
    by (simp only: if_False)
qed

lemma f64_of_int_large:
  assumes "2 ^ 53 \<le> \<bar>i\<bar>" "\<bar>i\<bar> < 2 ^ 64"
  obtains v where "f64_of_int i = FFin (if i < 0 then - v else v)" "2 ^ 53 \<le> v"
proof -
  let ?a = "of_int \<bar>i\<bar> :: rat"
  define e where "e = ilog2 ?a"
  have a: "2 ^ 53 \<le> ?a" "?a < 2 ^ 64"
    using assms by (metis of_int_le_iff of_int_power of_int_numeral,
        metis of_int_less_iff of_int_power of_int_numeral)
  have il: "pow2i e \<le> ?a" "?a < pow2i (e + 1)"
    using ilog2_spec [of ?a] a(1) unfolding e_def by (simp_all add: le_less_trans)
  have e53: "53 \<le> e"
  proof (rule ccontr)
    assume "\<not> 53 \<le> e"
    then have "pow2i (e + 1) \<le> pow2i 53" by (intro pow2i_mono) simp
    then show False using il a by (simp add: pow2i_nat)
  qed
  then have u: "max (e - 52) (- 1074) = e - 52" by simp
  define P where "P = pow2i (e - 52)"
  define m where "m = round_half_even (?a / P)"
  have P: "0 < P" "pow2i e = 2 ^ 52 * P" "P \<le> ?a"
    using pow2i_add [of 52 "e - 52"] il(1) pow2i_mono [of "e - 52" e] by (auto simp: P_def pow2i_nat)
  have "of_int (2 ^ 52) \<le> ?a / P"
    using P il(1) by (simp add: pos_le_divide_eq)
  then have "2 ^ 52 \<le> m" unfolding m_def by (rule round_half_even_ge)
  then have "(2 ^ 52 :: rat) \<le> of_int m" by (metis of_int_le_iff of_int_power of_int_numeral)
  then have "pow2i e \<le> of_int m * P"
    unfolding P(2) using P(1) by (intro mult_right_mono) auto
  moreover have "(2::rat) ^ 53 \<le> pow2i e"
    using pow2i_mono [OF e53] by (simp add: pow2i_nat)
  ultimately have low: "2 ^ 53 \<le> of_int m * P" by linarith
  have "of_int m * P \<le> (?a / P + 1) * P"
    unfolding m_def using P(1) round_half_even_le by (intro mult_right_mono) auto
  then have "of_int m * P \<le> ?a + ?a" using P(1,3) by (simp add: distrib_right)
  also have "?a + ?a < 2 ^ 64 + 2 ^ 64" using a(2) by (intro add_strict_mono)
  also have "(2 ^ 64 + 2 ^ 64 :: rat) < 2 ^ 1024" by simp
  finally have "of_int m * P < 2 ^ 1024" .
  moreover have "of_int m * P \<noteq> 0" using low by auto
  ultimately have "f64_of_rat (of_int i) = FFin (if (of_int i :: rat) < 0 then - (of_int m * P) else of_int m * P)"
    using a(1) by (intro f64_of_rat_fin [where u = "e - 52"]) (use u in \<open>auto simp: m_def P_def e_def\<close>)
  then have "f64_of_int i = FFin (if i < 0 then - (of_int m * P) else of_int m * P)"
    by (simp add: f64_of_int_def)
  then show ?thesis using low by (rule that)
qed

text \<open>Comparing two converted integers, one of them below \<open>2\<^sup>53\<close> and non-negative, is exact.\<close>

lemma f64_cmp_exact:
  assumes x: "0 \<le> x" "x < 2 ^ 53" and i: "- (2 ^ 63) \<le> i" "i < 2 ^ 63"
  shows "f64_eq (f64_of_int x) (f64_of_int i) \<longleftrightarrow> x = i"
    "f64_lt (f64_of_int x) (f64_of_int i) \<longleftrightarrow> x < i"
    "f64_lt (f64_of_int i) (f64_of_int x) \<longleftrightarrow> i < x"
proof -
  have fx: "f64_of_int x = FFin (of_int x)"
    using x by (intro f64_of_int_exact) auto
  have "(f64_eq (f64_of_int x) (f64_of_int i) \<longleftrightarrow> x = i) \<and>
    (f64_lt (f64_of_int x) (f64_of_int i) \<longleftrightarrow> x < i) \<and> (f64_lt (f64_of_int i) (f64_of_int x) \<longleftrightarrow> i < x)"
  proof (cases "\<bar>i\<bar> \<le> 2 ^ 53")
    case True
    then show ?thesis using fx f64_of_int_exact [of i] by simp
  next
    case False
    have "2 ^ 53 \<le> \<bar>i\<bar>" "\<bar>i\<bar> < 2 ^ 64" using i False by (linarith, auto)
    then obtain v where v: "f64_of_int i = FFin (if i < 0 then - v else v)" "2 ^ 53 \<le> v"
      by (rule f64_of_int_large)
    have "(of_int x :: rat) < 2 ^ 53" "(0::rat) \<le> of_int x"
      using x by (metis of_int_less_iff of_int_power of_int_numeral, simp)
    then show ?thesis
      using v fx False x by (auto split: if_splits)
  qed
  then show "f64_eq (f64_of_int x) (f64_of_int i) \<longleftrightarrow> x = i"
    "f64_lt (f64_of_int x) (f64_of_int i) \<longleftrightarrow> x < i"
    "f64_lt (f64_of_int i) (f64_of_int x) \<longleftrightarrow> i < x" by blast+
qed

end
