(* ===== verification/Pgn.thy ===== *)
theory Pgn
  imports Float64
begin

text \<open>
  What the sources see of the generated package \<^verbatim>\<open>pgn\<close>: a registry that maps PGN numbers to
  metadata and decoders. The package is generated from the definition files by the build, so the
  registry is a parameter of the definitions that use it. Decoded packets are inspected by
  reflection only; a decoded value is modelled as the reflection tree the code walks.
\<close>

datatype rval =
    RFloat f64
  | RInt int
  | RUint nat
  | RString string
  | RPtr "rval option"
  | RStruct "(string \<times> bool \<times> string \<times> rval) list"
  | ROther nat

text \<open>A struct field is its Go name, whether it is exported, its \<^verbatim>\<open>json\<close> tag and its value.\<close>

type_synonym sfield = "string \<times> bool \<times> string \<times> rval"

type_synonym decoder = "bytes \<Rightarrow> rval option"

record PGNInfo =
  pi_FastPacket :: bool
  pi_Interval :: duration
  pi_Tolerances :: "(string \<times> f64) list"
  pi_Decode :: "decoder option"

type_synonym registry = "u32 \<Rightarrow> PGNInfo option"

text \<open>The name under which a field is looked up: its tag up to the first comma, or its Go name.\<close>

definition field_name :: "sfield \<Rightarrow> string" where
  "field_name f =
     (case f of (goName, exported, tag, v) \<Rightarrow>
        let name = (if tag = [] \<or> tag = ''-'' then goName else tag)
        in takeWhile (\<lambda>c. c \<noteq> CHR '','') name)"

text \<open>Conversion of a reflected numeric value, through one pointer, to \<^verbatim>\<open>float64\<close>.\<close>

fun numeric_of :: "rval \<Rightarrow> f64 option" where
  "numeric_of (RFloat x) = Some x"
| "numeric_of (RInt i) = Some (f64_of_int i)"
| "numeric_of (RUint n) = Some (f64_of_int (int n))"
| "numeric_of _ = None"

definition toFloat64 :: "rval \<Rightarrow> f64 option" where
  "toFloat64 v =
     (case v of
        RPtr None \<Rightarrow> None
      | RPtr (Some w) \<Rightarrow> numeric_of w
      | w \<Rightarrow> numeric_of w)"

text \<open>\<^verbatim>\<open>reflect.DeepEqual\<close>: structural, with the comparison of floats of the language.\<close>

fun DeepEqual :: "rval \<Rightarrow> rval \<Rightarrow> bool"
  and DeepEqual_fields :: "(string \<times> bool \<times> string \<times> rval) list \<Rightarrow> (string \<times> bool \<times> string \<times> rval) list \<Rightarrow> bool" where
  "DeepEqual (RFloat a) (RFloat b) = f64_eq a b"
| "DeepEqual (RInt a) (RInt b) = (a = b)"
| "DeepEqual (RUint a) (RUint b) = (a = b)"
| "DeepEqual (RString a) (RString b) = (a = b)"
| "DeepEqual (RPtr None) (RPtr None) = True"
| "DeepEqual (RPtr (Some a)) (RPtr (Some b)) = DeepEqual a b"
| "DeepEqual (RStruct fs) (RStruct gs) = DeepEqual_fields fs gs"
| "DeepEqual (ROther a) (ROther b) = (a = b)"
| "DeepEqual _ _ = False"
| "DeepEqual_fields [] [] = True"
| "DeepEqual_fields ((n, e, t, v) # fs) ((m, d, u, w) # gs) =
     ((n, e, t) = (m, d, u) \<and> DeepEqual v w \<and> DeepEqual_fields fs gs)"
| "DeepEqual_fields _ _ = False"

end
