(* ===== verification/FastPacket.thy ===== *)
theory FastPacket
  imports CanId Pgn
begin

text \<open>
  \<^verbatim>\<open>fastpacket.go\<close>: reassembly and fragmentation of NMEA 2000 fast packets, and the frame handling
  of \<^verbatim>\<open>can.go\<close> that uses them (one step of the reader loop, the frames one transmit request
  becomes). The assembler is shown to be a product of independent per-transfer machines, and a
  fragmented payload to be delivered whatever other traffic is interleaved with it.
\<close>

section \<open>The assembler\<close>

record reassemblyKey =
  rk_PGN :: u32
  rk_Source :: u8

record reassemblyState =
  rs_SeqID :: u8
  rs_TotalLen :: nat
  rs_Data :: bytes
  rs_NextFrame :: nat
  rs_StartedAt :: gotime

record FastPacketAssembler =
  fa_inProgress :: "(reassemblyKey, reassemblyState) gomap"
  fa_timeout :: duration

definition NewFastPacketAssembler :: "duration \<Rightarrow> FastPacketAssembler" where
  "NewFastPacketAssembler timeout = \<lparr>fa_inProgress = [], fa_timeout = timeout\<rparr>"

text \<open>
  \<^verbatim>\<open>Process\<close>: the result \<open>None\<close> is Go's nil. The state of a transfer is a pointer in the map, so
  an append to its data is an update of the entry.
\<close>

definition FastPacketAssembler_Process ::
  "FastPacketAssembler \<Rightarrow> u32 \<Rightarrow> u8 \<Rightarrow> bytes \<Rightarrow> gotime \<Rightarrow> FastPacketAssembler \<times> bytes option" where
  "FastPacketAssembler_Process a pgn source data now =
     (if length data < 2 then (a, None)
      else
        let key = \<lparr>rk_PGN = pgn, rk_Source = source\<rparr>;
            seqID = drop_bit 5 (data ! 0);
            frameNum = data ! 0 AND 0x1F
        in if frameNum = 0 then
             let totalLen = unat (data ! 1)
             in if totalLen = 0 then (a, None)
                else
                  let payload0 = drop 2 data;
                      payload = (if length payload0 > totalLen then take totalLen payload0 else payload0);
                      state = \<lparr>rs_SeqID = seqID, rs_TotalLen = totalLen, rs_Data = payload,
                               rs_NextFrame = 1, rs_StartedAt = now\<rparr>
                  in if length payload \<ge> totalLen
                     then (a\<lparr>fa_inProgress := gm_del key (fa_inProgress a)\<rparr>, Some (take totalLen payload))
                     else (a\<lparr>fa_inProgress := gm_put key state (fa_inProgress a)\<rparr>, None)
           else
             case gm_get (fa_inProgress a) key of
               None \<Rightarrow> (a, None)
             | Some state \<Rightarrow>
                 if rs_SeqID state \<noteq> seqID \<or> unat frameNum \<noteq> rs_NextFrame state
                 then (a\<lparr>fa_inProgress := gm_del key (fa_inProgress a)\<rparr>, None)
                 else if time_Sub now (rs_StartedAt state) > fa_timeout a
                 then (a\<lparr>fa_inProgress := gm_del key (fa_inProgress a)\<rparr>, None)
                 else
                   let payload0 = drop 1 data;
                       remaining = rs_TotalLen state - length (rs_Data state);
                       payload = (if length payload0 > remaining then take remaining payload0 else payload0);
                       state' = state\<lparr>rs_Data := rs_Data state @ payload,
                                      rs_NextFrame := rs_NextFrame state + 1\<rparr>
                   in if length (rs_Data state') \<ge> rs_TotalLen state'
                      then (a\<lparr>fa_inProgress := gm_del key (fa_inProgress a)\<rparr>,
                            Some (take (rs_TotalLen state') (rs_Data state')))
                      else (a\<lparr>fa_inProgress := gm_put key state' (fa_inProgress a)\<rparr>, None))"

definition FastPacketAssembler_PurgeStale :: "FastPacketAssembler \<Rightarrow> gotime \<Rightarrow> FastPacketAssembler" where
  "FastPacketAssembler_PurgeStale a now =
     a\<lparr>fa_inProgress := gm_del_if (\<lambda>key state. time_Sub now (rs_StartedAt state) > fa_timeout a)
                          (fa_inProgress a)\<rparr>"

section \<open>Fragmentation\<close>

function fragment_loop :: "u8 \<Rightarrow> bytes \<Rightarrow> nat \<Rightarrow> u8 \<Rightarrow> bytes list" where
  "fragment_loop seqBits data offset frameNum =
     (if offset < length data
      then let copied = min 7 (length data - offset);
               frame = (seqBits OR (frameNum AND 0x1F)) # take copied (drop offset data)
                       @ replicate (7 - copied) 0xFF
           in frame # fragment_loop seqBits data (offset + copied) (frameNum + 1)
      else [])"
  by pat_completeness auto
termination
  by (relation "measure (\<lambda>(s, data, offset, f). length data - offset)") auto

declare fragment_loop.simps [simp del]

definition FragmentFastPacket :: "bytes \<Rightarrow> u8 \<Rightarrow> bytes list" where
  "FragmentFastPacket data seqCounter =
     (let seqBits = push_bit 5 (seqCounter AND 0x07);
          totalLen = length data;
          frame0 = seqBits # of_nat totalLen # go_copy (replicate 6 0) data;
          n = min 6 totalLen
      in frame0 # fragment_loop seqBits data n 1)"

section \<open>The CAN reader and writer\<close>

text \<open>
  The PGN registry is a parameter. A CAN frame of the driver library is the fields
  the sources use of it. One iteration of the loop of \<^verbatim>\<open>CANReader\<close> turns a received frame into at
  most one frame for the broker; one iteration of the loop of \<^verbatim>\<open>CANWriter\<close> turns a transmit
  request into driver frames and advances the sequence counter.
\<close>

record RxFrame =
  rx_Timestamp :: gotime
  rx_Header :: CANHeader
  rx_Data :: bytes
  rx_Bus :: string
  rx_Seq :: u64

record TxRequest =
  tx_Header :: CANHeader
  tx_Data :: bytes
  tx_Bus :: string

record can_Frame =
  cf_ID :: u32
  cf_Length :: u8
  cf_Data :: bytes
  cf_IsExtended :: bool

definition IsFastPacket :: "registry \<Rightarrow> u32 \<Rightarrow> bool" where
  "IsFastPacket reg pgnNum = (case reg pgnNum of Some info \<Rightarrow> pi_FastPacket info | None \<Rightarrow> False)"

definition CANReader_step ::
  "registry \<Rightarrow> string \<Rightarrow> FastPacketAssembler \<Rightarrow> bool \<Rightarrow> can_Frame \<Rightarrow> gotime
   \<Rightarrow> FastPacketAssembler \<times> RxFrame option" where
  "CANReader_step reg iface assembler hasErrorFrame frame now =
     (if hasErrorFrame then (assembler, None)
      else if \<not> cf_IsExtended frame then (assembler, None)
      else
        let header = ParseCANID (cf_ID frame);
            data = take (unat (cf_Length frame)) (cf_Data frame);
            rx = (\<lambda>d. \<lparr>rx_Timestamp = now, rx_Header = header, rx_Data = d, rx_Bus = iface, rx_Seq = 0\<rparr>)
        in if IsFastPacket reg (h_PGN header) then
             (case FastPacketAssembler_Process assembler (h_PGN header) (h_Source header) data now of
                (assembler', None) \<Rightarrow> (assembler', None)
              | (assembler', Some assembled) \<Rightarrow> (assembler', Some (rx assembled)))
           else (assembler, Some (rx data)))"

definition CANWriter_step :: "registry \<Rightarrow> u8 \<Rightarrow> TxRequest \<Rightarrow> can_Frame list \<times> u8" where
  "CANWriter_step reg seqCounter req =
     (let canID = BuildCANID (tx_Header req)
      in if IsFastPacket reg (h_PGN (tx_Header req)) \<and> length (tx_Data req) > 8
         then (map (\<lambda>frag. \<lparr>cf_ID = canID, cf_Length = 8, cf_Data = go_copy (replicate 8 0) frag,
                            cf_IsExtended = True\<rparr>)
                 (FragmentFastPacket (tx_Data req) seqCounter),
               (seqCounter + 1) AND 0x07)
         else ([\<lparr>cf_ID = canID, cf_Length = of_nat (length (tx_Data req)),
                 cf_Data = go_copy (replicate 8 0) (tx_Data req), cf_IsExtended = True\<rparr>],
               seqCounter))"

fun CANReader_run ::
  "registry \<Rightarrow> string \<Rightarrow> FastPacketAssembler \<Rightarrow> (can_Frame \<times> gotime) list
   \<Rightarrow> FastPacketAssembler \<times> RxFrame list" where
  "CANReader_run reg iface a [] = (a, [])"
| "CANReader_run reg iface a ((frame, now) # fs) =
     (let (a', out) = CANReader_step reg iface a False frame now;
          (a'', outs) = CANReader_run reg iface a' fs
      in (a'', (case out of None \<Rightarrow> outs | Some rx \<Rightarrow> rx # outs)))"

section \<open>One transfer as a machine\<close>

text \<open>The abstract machine of one (PGN, source) pair: its transfer in progress, if any.\<close>

definition transfer_step ::
  "duration \<Rightarrow> reassemblyState option \<Rightarrow> bytes \<Rightarrow> gotime \<Rightarrow> reassemblyState option \<times> bytes option" where
  "transfer_step timeout st data now =
     (let seqID = drop_bit 5 (data ! 0); frameNum = data ! 0 AND 0x1F; total = unat (data ! 1) in
      if length data < 2 \<or> frameNum = 0 \<and> total = 0 then (st, None)
      else if frameNum = 0 then
        (if total \<le> length data - 2 then (None, Some (take total (drop 2 data)))
         else (Some \<lparr>rs_SeqID = seqID, rs_TotalLen = total, rs_Data = drop 2 data, rs_NextFrame = 1,
                     rs_StartedAt = now\<rparr>, None))
      else case st of
        None \<Rightarrow> (None, None)
      | Some s \<Rightarrow>
          if rs_SeqID s \<noteq> seqID \<or> unat frameNum \<noteq> rs_NextFrame s
             \<or> time_Sub now (rs_StartedAt s) > timeout then (None, None)
          else let got = rs_Data s @ take (rs_TotalLen s - length (rs_Data s)) (drop 1 data)
               in if length got \<ge> rs_TotalLen s then (None, Some (take (rs_TotalLen s) got))
                  else (Some (s\<lparr>rs_Data := got, rs_NextFrame := rs_NextFrame s + 1\<rparr>), None))"

lemma Process_step:
  "fa_timeout (fst (FastPacketAssembler_Process a pgn src data now)) = fa_timeout a"
  "gm_get (fa_inProgress (fst (FastPacketAssembler_Process a pgn src data now))) =
     (gm_get (fa_inProgress a))(\<lparr>rk_PGN = pgn, rk_Source = src\<rparr> :=
        fst (transfer_step (fa_timeout a) (gm_get (fa_inProgress a) \<lparr>rk_PGN = pgn, rk_Source = src\<rparr>) data now))"
  "snd (FastPacketAssembler_Process a pgn src data now) =
     snd (transfer_step (fa_timeout a) (gm_get (fa_inProgress a) \<lparr>rk_PGN = pgn, rk_Source = src\<rparr>) data now)"
  subgoal
    by (simp add: FastPacketAssembler_Process_def Let_def split: option.split)
  subgoal
    by (cases "gm_get (fa_inProgress a) \<lparr>rk_PGN = pgn, rk_Source = src\<rparr>")
       (auto simp: FastPacketAssembler_Process_def transfer_step_def Let_def fun_eq_iff)
  subgoal
    by (cases "gm_get (fa_inProgress a) \<lparr>rk_PGN = pgn, rk_Source = src\<rparr>")
       (auto simp: FastPacketAssembler_Process_def transfer_step_def Let_def)
  done

section \<open>Runs\<close>

type_synonym can_event = "(u32 \<times> u8) \<times> bytes \<times> gotime"

fun assembler_run :: "FastPacketAssembler \<Rightarrow> can_event list \<Rightarrow> FastPacketAssembler \<times> bytes option list" where
  "assembler_run a [] = (a, [])"
| "assembler_run a (((pgn, src), data, t) # es) =
     (let (a', out) = FastPacketAssembler_Process a pgn src data t;
          (a'', outs) = assembler_run a' es
      in (a'', out # outs))"

fun transfer_run ::
  "duration \<Rightarrow> reassemblyState option \<Rightarrow> (bytes \<times> gotime) list \<Rightarrow> reassemblyState option \<times> bytes option list" where
  "transfer_run timeout st [] = (st, [])"
| "transfer_run timeout st ((data, t) # es) =
     (let (st', out) = transfer_step timeout st data t;
          (st'', outs) = transfer_run timeout st' es
      in (st'', out # outs))"

definition events_of :: "u32 \<times> u8 \<Rightarrow> can_event list \<Rightarrow> (bytes \<times> gotime) list" where
  "events_of k es = map snd (filter (\<lambda>e. fst e = k) es)"

definition outputs_of :: "u32 \<times> u8 \<Rightarrow> can_event list \<Rightarrow> bytes option list \<Rightarrow> bytes option list" where
  "outputs_of k es outs = map snd (filter (\<lambda>(e, out). fst e = k) (zip es outs))"

definition key_of :: "u32 \<times> u8 \<Rightarrow> reassemblyKey" where
  "key_of k = \<lparr>rk_PGN = fst k, rk_Source = snd k\<rparr>"

lemma key_of_eq [simp]: "key_of k = key_of k' \<longleftrightarrow> k = k'"
  by (auto simp: key_of_def prod_eq_iff)

lemma assembler_run_product:
  "gm_get (fa_inProgress (fst (assembler_run a es))) (key_of k) =
     fst (transfer_run (fa_timeout a) (gm_get (fa_inProgress a) (key_of k)) (events_of k es)) \<and>
   outputs_of k es (snd (assembler_run a es)) =
     snd (transfer_run (fa_timeout a) (gm_get (fa_inProgress a) (key_of k)) (events_of k es))"
proof (induction a es rule: assembler_run.induct)
  case (1 a)
  then show ?case by (simp add: events_of_def outputs_of_def)
next
  case (2 a pgn src data t es)
  obtain a' out where p: "FastPacketAssembler_Process a pgn src data t = (a', out)"
    by (cases "FastPacketAssembler_Process a pgn src data t")
  note step = Process_step [of a pgn src data t, unfolded p fst_conv snd_conv]
  have ne: "key_of k \<noteq> \<lparr>rk_PGN = pgn, rk_Source = src\<rparr>" if "k \<noteq> (pgn, src)"
    using that key_of_eq [of k "(pgn, src)"] by (simp add: key_of_def)
  have IH: "gm_get (fa_inProgress (fst (assembler_run a' es))) (key_of k) =
     fst (transfer_run (fa_timeout a) (gm_get (fa_inProgress a') (key_of k)) (events_of k es)) \<and>
   outputs_of k es (snd (assembler_run a' es)) =
     snd (transfer_run (fa_timeout a) (gm_get (fa_inProgress a') (key_of k)) (events_of k es))"
    using "2.IH" [OF p [symmetric] refl] step(1) by simp
  show ?case
  proof (cases "k = (pgn, src)")
    case True
    then show ?thesis
      using IH step p by (simp add: events_of_def outputs_of_def key_of_def split_beta Let_def)
  next
    case False
    then show ?thesis
      using IH step p ne [OF False] by (auto simp: events_of_def outputs_of_def split_beta Let_def)
  qed
qed

section \<open>Fragments are reassembled\<close>

lemma frame_head:
  fixes s f :: u8
  shows "drop_bit 5 (push_bit 5 (s AND 0x07) OR (f AND 0x1F)) = s AND 0x07"
    and "(push_bit 5 (s AND 0x07) OR (f AND 0x1F)) AND 0x1F = f AND 0x1F"
    and "drop_bit 5 (push_bit 5 (s AND 0x07)) = s AND 0x07"
    and "push_bit 5 (s AND 0x07) AND 0x1F = 0"
  by (rule bit_word_eqI, auto simp: and_masks bit_field_simps)+

lemma frame_number: "n < 32 \<Longrightarrow> unat ((of_nat n :: u8) AND 0x1F) = n"
proof -
  assume "n < 32"
  then have "(of_nat n :: u8) AND 0x1F = of_nat n"
    unfolding and_masks by (simp add: take_bit_of_nat) (simp add: take_bit_nat_eq_self)
  with \<open>n < 32\<close> show ?thesis by (simp add: unat_of_nat)
qed

lemma transfer_step_fragment:
  assumes st: "rs_SeqID st = seq AND 0x07" "rs_NextFrame st = n" "rs_TotalLen st = length data"
      "rs_Data st = take off data"
    and n: "0 < n" "n < 32" and off: "off < length data"
    and t: "\<not> time_Sub now (rs_StartedAt st) > timeout"
  shows "transfer_step timeout (Some st)
      ((push_bit 5 (seq AND 0x07) OR (of_nat n AND 0x1F)) # take (min 7 (length data - off)) (drop off data)
        @ replicate (7 - min 7 (length data - off)) 0xFF) now
    = (if off + 7 \<ge> length data then (None, Some data)
       else (Some (st\<lparr>rs_Data := take (off + 7) data, rs_NextFrame := n + 1\<rparr>), None))"
proof -
  let ?c = "min 7 (length data - off)"
  define d0 where "d0 = push_bit 5 (seq AND 0x07) OR ((of_nat n :: u8) AND 0x1F)"
  let ?f = "d0 # take ?c (drop off data) @ replicate (7 - ?c) 0xFF"
  have len: "\<not> length ?f < 2" by simp
  have low: "d0 AND 0x1F = of_nat n AND 0x1F" and sq: "drop_bit 5 (?f ! 0) = seq AND 0x07"
    unfolding d0_def nth_Cons_0 by (rule frame_head)+
  have fn: "unat (?f ! 0 AND 0x1F) = n" "?f ! 0 AND 0x1F \<noteq> 0"
    using n frame_number [OF n(2)] unfolding nth_Cons_0 low by auto
  have got: "take off data @ take (length data - off) (drop 1 ?f) = take (off + 7) data"
    using off by (simp add: min_def take_add [symmetric])
  have all: "take (off + 7) data = data" if "off + 7 \<ge> length data" using that by simp
  have "transfer_step timeout (Some st) ?f now =
      (if off + 7 \<ge> length data then (None, Some data)
       else (Some (st\<lparr>rs_Data := take (off + 7) data, rs_NextFrame := n + 1\<rparr>), None))"
    unfolding transfer_step_def Let_def
    using len fn sq got all st t off by (auto simp: min_def)
  then show ?thesis unfolding d0_def .
qed

text \<open>The frames after the first, from any point of the payload.\<close>

lemma transfer_run_rest:
  assumes sb: "sb = push_bit 5 (seq AND 0x07)"
  shows "rs_SeqID st = seq AND 0x07 \<Longrightarrow> rs_NextFrame st = n \<Longrightarrow> rs_TotalLen st = length data \<Longrightarrow>
    rs_Data st = take off data \<Longrightarrow> 0 < n \<Longrightarrow> off < length data \<Longrightarrow> length data \<le> off + 7 * (32 - n) \<Longrightarrow>
    length ts = length (fragment_loop sb data off (of_nat n)) \<Longrightarrow>
    \<forall>t \<in> set ts. \<not> time_Sub t (rs_StartedAt st) > timeout \<Longrightarrow>
    transfer_run timeout (Some st) (zip (fragment_loop sb data off (of_nat n)) ts)
    = (None, replicate (length ts - 1) None @ [Some data])"
proof (induction "length data - off" arbitrary: st n off ts rule: less_induct)
  case less
  have n: "n < 32" using less.prems by (cases "n < 32") auto
  let ?c = "min 7 (length data - off)"
  have eq: "fragment_loop sb data off (of_nat n) =
      ((sb OR (of_nat n AND 0x1F)) # take ?c (drop off data) @ replicate (7 - ?c) 0xFF)
      # fragment_loop sb data (off + ?c) (of_nat (n + 1))"
    using less.prems(6) by (simp add: fragment_loop.simps [of sb data off] Let_def add.commute)
  obtain t ts' where ts: "ts = t # ts'"
    using less.prems(8) eq by (cases ts) auto
  have step: "transfer_step timeout (Some st)
      ((sb OR (of_nat n AND 0x1F)) # take ?c (drop off data) @ replicate (7 - ?c) 0xFF) t
    = (if off + 7 \<ge> length data then (None, Some data)
       else (Some (st\<lparr>rs_Data := take (off + 7) data, rs_NextFrame := n + 1\<rparr>), None))"
    using less.prems ts n unfolding sb by (intro transfer_step_fragment) auto
  show ?case
  proof (cases "off + 7 \<ge> length data")
    case True
    then have "off + ?c = length data" using less.prems(6) by simp
    then have "fragment_loop sb data (off + ?c) (of_nat (n + 1)) = []"
      by (simp add: fragment_loop.simps)
    then show ?thesis
      using less.prems(8) eq ts step True by simp
  next
    case False
    then have c: "?c = 7" by simp
    have len': "length ts' = length (fragment_loop sb data (off + 7) (of_nat (n + 1)))"
      using less.prems(8) ts unfolding eq c by simp
    have "fragment_loop sb data (off + 7) (of_nat (n + 1)) \<noteq> []"
      using False by (subst fragment_loop.simps) (simp add: Let_def)
    then have ne: "ts' \<noteq> []" using len' by auto
    have rest: "transfer_run timeout (Some (st\<lparr>rs_Data := take (off + 7) data, rs_NextFrame := n + 1\<rparr>))
        (zip (fragment_loop sb data (off + 7) (of_nat (n + 1))) ts')
      = (None, replicate (length ts' - 1) None @ [Some data])"
    proof (rule less.hyps)
      show "length data - (off + 7) < length data - off" "off + 7 < length data"
        using False by linarith+
      show "length data \<le> off + 7 + 7 * (32 - (n + 1))"
        using less.prems(7) n by linarith
      show "length ts' = length (fragment_loop sb data (off + 7) (of_nat (n + 1)))"
        by (rule len')
      show "\<forall>t \<in> set ts'. \<not> time_Sub t (rs_StartedAt
          (st\<lparr>rs_Data := take (off + 7) data, rs_NextFrame := n + 1\<rparr>)) > timeout"
        using less.prems(9) ts by simp
    qed (use less.prems(1,3) in simp_all)
    show ?thesis
      unfolding eq c ts zip_Cons_Cons transfer_run.simps step [unfolded c]
      using False rest ne by (cases ts') simp_all
  qed
qed

lemma FragmentFastPacket_split:
  obtains sb where "sb = push_bit 5 (seq AND 0x07)"
    "FragmentFastPacket data seq =
       (sb # of_nat (length data) # go_copy (replicate 6 0) data) # fragment_loop sb data (min 6 (length data)) 1"
  by (simp add: FragmentFastPacket_def Let_def)

lemma transfer_run_fragments:
  assumes len: "0 < length data" "length data \<le> 223"
    and ts: "length ts = length (FragmentFastPacket data seq)"
    and time: "\<forall>t \<in> set ts. \<not> time_Sub t (hd ts) > timeout"
  shows "transfer_run timeout st (zip (FragmentFastPacket data seq) ts)
    = (None, replicate (length ts - 1) None @ [Some data])"
proof -
  obtain sb where sb: "sb = push_bit 5 (seq AND 0x07)"
    and fr: "FragmentFastPacket data seq =
       (sb # of_nat (length data) # go_copy (replicate 6 0) data) # fragment_loop sb data (min 6 (length data)) 1"
    by (rule FragmentFastPacket_split)
  obtain t ts' where tt: "ts = t # ts'"
    using ts fr by (cases ts) auto
  let ?f0 = "sb # of_nat (length data) # go_copy (replicate 6 0) data"
  have h: "drop_bit 5 (?f0 ! 0) = seq AND 0x07" "?f0 ! 0 AND 0x1F = 0"
    unfolding nth_Cons_0 sb by (rule frame_head)+
  have u: "unat (?f0 ! 1) = length data"
    using len by (simp add: unat_of_nat)
  show ?thesis
  proof (cases "length data \<le> 6")
    case True
    have "fragment_loop sb data (min 6 (length data)) 1 = []"
      using True by (subst fragment_loop.simps) simp
    moreover have "take (length data) (drop 2 ?f0) = data"
      using True by (simp add: go_copy_short)
    moreover have "transfer_step timeout st ?f0 t = (None, Some data)"
      unfolding transfer_step_def Let_def h u using True len calculation(2) by simp
    ultimately show ?thesis
      using ts tt unfolding fr by simp
  next
    case False
    let ?st = "\<lparr>rs_SeqID = seq AND 0x07, rs_TotalLen = length data, rs_Data = take 6 data,
      rs_NextFrame = 1, rs_StartedAt = t\<rparr>"
    have d: "drop 2 ?f0 = take 6 data"
      using False by (simp add: go_copy_def)
    have step: "transfer_step timeout st ?f0 t = (Some ?st, None)"
      unfolding transfer_step_def Let_def h u d using False len by simp
    have m: "min 6 (length data) = 6" using False by simp
    have rest: "transfer_run timeout (Some ?st) (zip (fragment_loop sb data 6 (of_nat 1)) ts')
        = (None, replicate (length ts' - 1) None @ [Some data])"
      using ts tt time False len unfolding fr m
      by (intro transfer_run_rest [OF sb]) simp_all
    have "fragment_loop sb data 6 (of_nat 1) \<noteq> []"
      using False by (subst fragment_loop.simps) (simp add: Let_def)
    then have "ts' \<noteq> []"
      using ts tt unfolding fr m by auto
    then show ?thesis
      using rest unfolding fr m tt zip_Cons_Cons transfer_run.simps step
      by (cases ts') simp_all
  qed
qed

section \<open>Properties\<close>

text \<open>
  C2: the assembler is a product of independent machines: for every frame trace, what it delivers
  for one (PGN, source) and the transfer it keeps for it depend only on that pair's own frames.
\<close>

theorem assembler_isolates_transfers:
  "gm_get (fa_inProgress (fst (assembler_run a es))) (key_of k) =
     fst (transfer_run (fa_timeout a) (gm_get (fa_inProgress a) (key_of k)) (events_of k es)) \<and>
   outputs_of k es (snd (assembler_run a es)) =
     snd (transfer_run (fa_timeout a) (gm_get (fa_inProgress a) (key_of k)) (events_of k es))"
  by (rule assembler_run_product)

text \<open>
  C1: round trip under interleaving. If the frames of one (PGN, source) in a trace are the
  fragments of a payload of 1 to 223 bytes, received within the timeout of the first, then the
  assembler returns nothing for all of them but the last, returns the payload for the last, and
  keeps no transfer for the pair; other transfers may be interleaved anywhere, and the assembler
  may start in any state.
\<close>

theorem fastpacket_roundtrip:
  assumes "0 < length data" "length data \<le> 223"
    and "length ts = length (FragmentFastPacket data seq)"
    and "\<forall>t \<in> set ts. \<not> time_Sub t (hd ts) > fa_timeout a"
    and "events_of k es = zip (FragmentFastPacket data seq) ts"
  shows "outputs_of k es (snd (assembler_run a es)) = replicate (length ts - 1) None @ [Some data]
    \<and> gm_get (fa_inProgress (fst (assembler_run a es))) (key_of k) = None"
  using assembler_run_product [of a es k] transfer_run_fragments [OF assms(1-4)] assms(5) by simp

theorem fastpacket_roundtrip_witness:
  "outputs_of (129029, 7)
     [((129029, 7), FragmentFastPacket [1,2,3,4,5,6,7,8,9] 3 ! 0, 1000),
      ((129540, 7), [0x40, 20, 9, 9, 9, 9, 9, 9], 1001),
      ((129029, 7), FragmentFastPacket [1,2,3,4,5,6,7,8,9] 3 ! 1, 1002)]
     (snd (assembler_run (NewFastPacketAssembler 750000000)
     [((129029, 7), FragmentFastPacket [1,2,3,4,5,6,7,8,9] 3 ! 0, 1000),
      ((129540, 7), [0x40, 20, 9, 9, 9, 9, 9, 9], 1001),
      ((129029, 7), FragmentFastPacket [1,2,3,4,5,6,7,8,9] 3 ! 1, 1002)]))
   = [None, Some [1,2,3,4,5,6,7,8,9]]"
proof -
  let ?d = "[1,2,3,4,5,6,7,8,9] :: bytes"
  let ?es = "[((129029, 7), FragmentFastPacket ?d 3 ! 0, 1000),
      ((129540, 7), [0x40, 20, 9, 9, 9, 9, 9, 9], 1001),
      ((129029, 7), FragmentFastPacket ?d 3 ! 1, 1002)] :: can_event list"
  have fr: "FragmentFastPacket ?d 3 = [[0x60, 9, 1, 2, 3, 4, 5, 6], [0x61, 7, 8, 9, 255, 255, 255, 255]]"
    by code_simp
  have "outputs_of (129029, 7) ?es (snd (assembler_run (NewFastPacketAssembler 750000000) ?es))
      = replicate (length [1000, 1002 :: gotime] - 1) None @ [Some ?d]
    \<and> gm_get (fa_inProgress (fst (assembler_run (NewFastPacketAssembler 750000000) ?es))) (key_of (129029, 7)) = None"
    by (rule fastpacket_roundtrip [where seq = 3])
       (simp_all add: fr events_of_def NewFastPacketAssembler_def time_Sub_def maxDuration_def minDuration_def)
  then show ?thesis by simp
qed

section \<open>From writer to reader\<close>

lemma fragment_loop_8: "f \<in> set (fragment_loop sb data off n) \<Longrightarrow> length f = 8"
proof (induction sb data off n rule: fragment_loop.induct)
  case (1 sb data off n)
  show ?case
  proof (cases "off < length data")
    case True
    let ?c = "min 7 (length data - off)"
    have eq: "fragment_loop sb data off n =
        ((sb OR (n AND 0x1F)) # take ?c (drop off data) @ replicate (7 - ?c) 0xFF)
        # fragment_loop sb data (off + ?c) (n + 1)"
      using True by (subst fragment_loop.simps) (simp only: Let_def if_True)
    have "length ((sb OR (n AND 0x1F)) # take ?c (drop off data) @ replicate (7 - ?c) 0xFF) = 8"
      by simp
    then show ?thesis
      using "1.prems" "1.IH" [OF True refl refl] unfolding eq by (auto simp del: length_Cons)
  next
    case False
    then show ?thesis using "1.prems" by (subst (asm) fragment_loop.simps) simp
  qed
qed

lemma FragmentFastPacket_8: "f \<in> set (FragmentFastPacket data seq) \<Longrightarrow> length f = 8"
  by (auto simp: FragmentFastPacket_def Let_def dest: fragment_loop_8)

definition rx_of :: "string \<Rightarrow> CANHeader \<Rightarrow> gotime \<Rightarrow> bytes \<Rightarrow> RxFrame" where
  "rx_of iface h now d = \<lparr>rx_Timestamp = now, rx_Header = h, rx_Data = d, rx_Bus = iface, rx_Seq = 0\<rparr>"

fun delivered :: "bytes option list \<Rightarrow> gotime list \<Rightarrow> (bytes \<times> gotime) list" where
  "delivered (None # outs) (t # ts) = delivered outs ts"
| "delivered (Some d # outs) (t # ts) = (d, t) # delivered outs ts"
| "delivered _ _ = []"

lemma delivered_last: "delivered (replicate (length ts) None @ [Some d]) (ts @ [t]) = [(d, t)]"
  by (induction ts) auto

lemma CANReader_run_fragments:
  assumes fp: "IsFastPacket reg (h_PGN h)" and h: "valid_header h"
  shows "\<forall>f \<in> set frags. length f = 8 \<Longrightarrow> length ts = length frags \<Longrightarrow>
    snd (CANReader_run reg iface a (zip (map (\<lambda>f. \<lparr>cf_ID = BuildCANID h, cf_Length = 8,
        cf_Data = go_copy (replicate 8 0) f, cf_IsExtended = True\<rparr>) frags) ts))
    = map (\<lambda>(d, t). rx_of iface h t d)
        (delivered (snd (transfer_run (fa_timeout a)
           (gm_get (fa_inProgress a) (key_of (h_PGN h, h_Source h))) (zip frags ts))) ts)"
proof (induction frags arbitrary: a ts)
  case Nil
  then show ?case by simp
next
  case (Cons f frags)
  obtain t ts' where ts: "ts = t # ts'" using Cons.prems by (cases ts) auto
  obtain a' out where p: "FastPacketAssembler_Process a (h_PGN h) (h_Source h) f t = (a', out)"
    by (cases "FastPacketAssembler_Process a (h_PGN h) (h_Source h) f t")
  note step = Process_step [of a "h_PGN h" "h_Source h" f t, unfolded p fst_conv snd_conv]
  have f8: "length f = 8" using Cons.prems by simp
  have "CANReader_step reg iface a False \<lparr>cf_ID = BuildCANID h, cf_Length = 8,
        cf_Data = go_copy (replicate 8 0) f, cf_IsExtended = True\<rparr> t
      = (a', map_option (rx_of iface h t) out)"
    using fp p f8 by (simp add: CANReader_step_def Let_def canid.dec_enc [OF h] go_copy_def rx_of_def
        split: option.split)
  then show ?case
    using Cons.IH [of ts' a'] Cons.prems ts step(1,2)
    by (cases out) (simp_all add: step(3) [symmetric] key_of_def split_beta Let_def)
qed

text \<open>
  C3: what the CAN writer sends, the CAN reader of another node delivers. For a header the bus can
  carry and a payload of 9 to 223 bytes of a fast-packet PGN, or of at most 8 bytes of any other
  PGN, the frames of one transmit request, received within the reassembly timeout, produce exactly
  one broker frame, with the header and the payload of the request.
\<close>

theorem writer_reader_roundtrip:
  assumes h: "valid_header (tx_Header req)"
    and len: "if IsFastPacket reg (h_PGN (tx_Header req)) then 8 < length (tx_Data req) \<and> length (tx_Data req) \<le> 223
              else length (tx_Data req) \<le> 8"
    and ts: "length ts = length (fst (CANWriter_step reg seq req))"
    and time: "\<forall>t \<in> set ts. \<not> time_Sub t (hd ts) > fa_timeout a"
  shows "snd (CANReader_run reg iface a (zip (fst (CANWriter_step reg seq req)) ts))
    = [\<lparr>rx_Timestamp = last ts, rx_Header = tx_Header req, rx_Data = tx_Data req, rx_Bus = iface, rx_Seq = 0\<rparr>]"
proof (cases "IsFastPacket reg (h_PGN (tx_Header req))")
  case True
  let ?fr = "FragmentFastPacket (tx_Data req) seq"
  have w: "fst (CANWriter_step reg seq req) = map (\<lambda>f. \<lparr>cf_ID = BuildCANID (tx_Header req), cf_Length = 8,
        cf_Data = go_copy (replicate 8 0) f, cf_IsExtended = True\<rparr>) ?fr"
    using True len by (simp add: CANWriter_step_def Let_def)
  have lts: "length ts = length ?fr" using ts w by simp
  then have ne: "ts \<noteq> []" by (auto simp: FragmentFastPacket_def Let_def)
  have run: "transfer_run (fa_timeout a) (gm_get (fa_inProgress a) k) (zip ?fr ts)
      = (None, replicate (length ts - 1) None @ [Some (tx_Data req)])" for k
    using len True lts time by (intro transfer_run_fragments) auto
  have "delivered (replicate (length ts - 1) None @ [Some (tx_Data req)]) ts = [(tx_Data req, last ts)]"
    using delivered_last [of "butlast ts" "tx_Data req" "last ts"] ne by simp
  then show ?thesis
    using CANReader_run_fragments [OF True h, of ?fr ts iface a] lts ne FragmentFastPacket_8
    unfolding w by (simp add: run rx_of_def)
next
  case False
  then obtain t where t: "ts = [t]"
    using ts by (auto simp: CANWriter_step_def Let_def length_Suc_conv)
  have u: "unat (of_nat (length (tx_Data req)) :: u8) = length (tx_Data req)"
    using len False by (simp add: unat_of_nat)
  show ?thesis
    using False len t u h
    by (simp add: CANWriter_step_def CANReader_step_def Let_def canid.dec_enc go_copy_short)
qed

theorem writer_reader_roundtrip_witness:
  "snd (CANReader_run (\<lambda>p. if p = 126996 then Some \<lparr>pi_FastPacket = True, pi_Interval = 0, pi_Tolerances = [], pi_Decode = None\<rparr> else None)
      ''can0'' (NewFastPacketAssembler 750000000)
      (zip (fst (CANWriter_step (\<lambda>p. if p = 126996 then Some \<lparr>pi_FastPacket = True, pi_Interval = 0, pi_Tolerances = [], pi_Decode = None\<rparr> else None) 5
         \<lparr>tx_Header = \<lparr>h_Priority = 6, h_PGN = 126996, h_Source = 35, h_Destination = 255\<rparr>,
          tx_Data = [1,2,3,4,5,6,7,8,9,10], tx_Bus = []\<rparr>)) [70, 71]))
   = [\<lparr>rx_Timestamp = 71, rx_Header = \<lparr>h_Priority = 6, h_PGN = 126996, h_Source = 35, h_Destination = 255\<rparr>,
       rx_Data = [1,2,3,4,5,6,7,8,9,10], rx_Bus = ''can0'', rx_Seq = 0\<rparr>]"
proof -
  let ?reg = "\<lambda>p :: u32. if p = 126996 then Some \<lparr>pi_FastPacket = True, pi_Interval = 0, pi_Tolerances = [], pi_Decode = None\<rparr> else None"
  let ?req = "\<lparr>tx_Header = \<lparr>h_Priority = 6, h_PGN = 126996, h_Source = 35, h_Destination = 255\<rparr>,
          tx_Data = [1,2,3,4,5,6,7,8,9,10], tx_Bus = []\<rparr>"
  have "length (FragmentFastPacket [1,2,3,4,5,6,7,8,9,10] 5) = 2" by code_simp
  then have len: "length [70, 71 :: gotime] = length (fst (CANWriter_step ?reg 5 ?req))"
    by (simp add: CANWriter_step_def Let_def IsFastPacket_def)
  have "snd (CANReader_run ?reg ''can0'' (NewFastPacketAssembler 750000000)
      (zip (fst (CANWriter_step ?reg 5 ?req)) [70, 71]))
    = [\<lparr>rx_Timestamp = last [70, 71], rx_Header = tx_Header ?req, rx_Data = tx_Data ?req,
        rx_Bus = ''can0'', rx_Seq = 0\<rparr>]"
    by (rule writer_reader_roundtrip [OF _ _ len])
       (simp_all add: valid_header_def IsFastPacket_def NewFastPacketAssembler_def time_Sub_def
         maxDuration_def minDuration_def)
  then show ?thesis by simp
qed

end
