(* ===== verification/Holes.thy ===== *)
theory Holes
  imports Prelude
begin

text \<open>
  \<^verbatim>\<open>replication.go\<close>: the tracker of gaps in the sequence-number space, a sorted list of half-open
  intervals. Its contract is the locale \<open>gap_set\<close>: the tracker is a set of missing sequence
  numbers, \<^verbatim>\<open>Add\<close> is union and \<^verbatim>\<open>Fill\<close> is difference with an interval. The interpretation shows
  that the slice code implements it.
\<close>

section \<open>The tracker as the code has it\<close>

record SeqRange =
  sr_Start :: u64
  sr_End :: u64

record HoleTracker =
  ht_holes :: "SeqRange list"

definition NewHoleTracker :: HoleTracker where
  "NewHoleTracker = \<lparr>ht_holes = []\<rparr>"

text \<open>The loop of \<^verbatim>\<open>Add\<close>: the interval being merged, whether it was inserted, the result so far.\<close>

fun Add_loop :: "SeqRange \<Rightarrow> bool \<Rightarrow> SeqRange list \<Rightarrow> SeqRange list \<Rightarrow> SeqRange \<times> bool \<times> SeqRange list" where
  "Add_loop merged inserted result [] = (merged, inserted, result)"
| "Add_loop merged inserted result (hole # hs) =
     (if sr_End hole < sr_Start merged then Add_loop merged inserted (result @ [hole]) hs
      else if sr_Start hole > sr_End merged then
        Add_loop merged True ((if inserted then result else result @ [merged]) @ [hole]) hs
      else
        Add_loop \<lparr>sr_Start = min (sr_Start merged) (sr_Start hole),
                  sr_End = max (sr_End merged) (sr_End hole)\<rparr> inserted result hs)"

definition HoleTracker_Add :: "HoleTracker \<Rightarrow> u64 \<Rightarrow> u64 \<Rightarrow> HoleTracker" where
  "HoleTracker_Add h start end =
     (if start \<ge> end then h
      else case Add_loop \<lparr>sr_Start = start, sr_End = end\<rparr> False [] (ht_holes h) of
             (merged, inserted, result) \<Rightarrow>
               h\<lparr>ht_holes := (if inserted then result else result @ [merged])\<rparr>)"

fun Fill_loop :: "u64 \<Rightarrow> u64 \<Rightarrow> SeqRange list \<Rightarrow> bool \<Rightarrow> SeqRange list \<Rightarrow> SeqRange list \<times> bool" where
  "Fill_loop start end result affected [] = (result, affected)"
| "Fill_loop start end result affected (hole # hs) =
     (if sr_End hole \<le> start \<or> sr_Start hole \<ge> end then
        Fill_loop start end (result @ [hole]) affected hs
      else
        let result1 = (if sr_Start hole < start
                       then result @ [\<lparr>sr_Start = sr_Start hole, sr_End = start\<rparr>] else result);
            result2 = (if sr_End hole > end
                       then result1 @ [\<lparr>sr_Start = end, sr_End = sr_End hole\<rparr>] else result1)
        in Fill_loop start end result2 True hs)"

definition HoleTracker_Fill :: "HoleTracker \<Rightarrow> u64 \<Rightarrow> u64 \<Rightarrow> HoleTracker \<times> bool" where
  "HoleTracker_Fill h start end =
     (if start \<ge> end \<or> length (ht_holes h) = 0 then (h, False)
      else case Fill_loop start end [] False (ht_holes h) of
             (result, affected) \<Rightarrow> (h\<lparr>ht_holes := result\<rparr>, affected))"

definition HoleTracker_Holes :: "HoleTracker \<Rightarrow> SeqRange list" where
  "HoleTracker_Holes h = ht_holes h"

definition HoleTracker_Len :: "HoleTracker \<Rightarrow> nat" where
  "HoleTracker_Len h = length (ht_holes h)"

definition HoleTracker_TotalMissing :: "HoleTracker \<Rightarrow> u64" where
  "HoleTracker_TotalMissing h = fold (\<lambda>hole total. total + (sr_End hole - sr_Start hole)) (ht_holes h) 0"

definition HoleTracker_ContinuousThrough :: "HoleTracker \<Rightarrow> u64 \<Rightarrow> u64" where
  "HoleTracker_ContinuousThrough h cursor =
     (if length (ht_holes h) = 0 then NOT 0
      else
        let idx = sort_Search (length (ht_holes h)) (\<lambda>i. sr_End (ht_holes h ! i) > cursor)
        in if idx \<ge> length (ht_holes h) then NOT 0
           else
             let hole = ht_holes h ! idx
             in if sr_Start hole \<le> cursor then (if cursor = 0 then 0 else cursor - 1)
                else sr_Start hole - 1)"

section \<open>What the list stands for\<close>

definition range_seqs :: "SeqRange \<Rightarrow> u64 set" where
  "range_seqs r = {sr_Start r..<sr_End r}"

definition missing :: "HoleTracker \<Rightarrow> u64 set" where
  "missing h = (\<Union>r \<in> set (ht_holes h). range_seqs r)"

text \<open>Non-empty intervals, sorted, with a gap between any two (never adjacent).\<close>

definition ranges_ok :: "SeqRange list \<Rightarrow> bool" where
  "ranges_ok rs \<longleftrightarrow>
     (\<forall>r \<in> set rs. sr_Start r < sr_End r) \<and> sorted_wrt (\<lambda>a b. sr_End a < sr_Start b) rs"

definition holes_ok :: "HoleTracker \<Rightarrow> bool" where
  "holes_ok h \<longleftrightarrow> ranges_ok (ht_holes h)"

lemma ranges_ok_Nil [simp]: "ranges_ok []"
  by (simp add: ranges_ok_def)

lemma ranges_ok_Cons:
  "ranges_ok (r # rs) \<longleftrightarrow>
     sr_Start r < sr_End r \<and> (\<forall>s \<in> set rs. sr_End r < sr_Start s) \<and> ranges_ok rs"
  by (auto simp: ranges_ok_def)

lemma ranges_ok_append:
  "ranges_ok (xs @ ys) \<longleftrightarrow>
     ranges_ok xs \<and> ranges_ok ys \<and> (\<forall>x \<in> set xs. \<forall>y \<in> set ys. sr_End x < sr_Start y)"
  by (induction xs) (auto simp: ranges_ok_Cons)

section \<open>Add\<close>

text \<open>The loop without its accumulator and flag.\<close>

fun add_list :: "SeqRange \<Rightarrow> SeqRange list \<Rightarrow> SeqRange list" where
  "add_list m [] = [m]"
| "add_list m (r # rs) =
     (if sr_End r < sr_Start m then r # add_list m rs
      else if sr_Start r > sr_End m then m # r # rs
      else add_list \<lparr>sr_Start = min (sr_Start m) (sr_Start r), sr_End = max (sr_End m) (sr_End r)\<rparr> rs)"

lemma Add_loop_after:
  "\<forall>r \<in> set rs. sr_Start r > sr_End m \<and> \<not> sr_End r < sr_Start m \<Longrightarrow>
     Add_loop m True res rs = (m, True, res @ rs)"
  by (induction rs arbitrary: res) auto

lemma Add_loop_eq:
  "ranges_ok rs \<Longrightarrow> sr_Start m < sr_End m \<Longrightarrow>
     (case Add_loop m False res rs of (m', ins, out) \<Rightarrow> if ins then out else out @ [m'])
     = res @ add_list m rs"
proof (induction rs arbitrary: m res)
  case Nil
  then show ?case by simp
next
  case (Cons r rs)
  have after: "sr_Start s > sr_End m \<and> \<not> sr_End s < sr_Start m"
    if "sr_Start r > sr_End m" "s \<in> set rs" for s
  proof -
    have "sr_End r < sr_Start s" "sr_Start r < sr_End r" "sr_Start s < sr_End s"
      using Cons.prems that(2) by (auto simp: ranges_ok_def)
    then show ?thesis using that(1) Cons.prems(2) by (meson less_trans not_less_iff_gr_or_eq)
  qed
  have "min (sr_Start m) (sr_Start r) < max (sr_End m) (sr_End r)"
    using Cons.prems by (auto simp: min_def max_def)
  then show ?case
    using Cons after by (auto simp: ranges_ok_Cons Add_loop_after)
qed

lemma add_list_bound:
  "b < sr_Start m \<Longrightarrow> \<forall>r \<in> set rs. b < sr_Start r \<Longrightarrow> s \<in> set (add_list m rs) \<Longrightarrow> b < sr_Start s"
  by (induction m rs rule: add_list.induct) (auto simp: min_def split: if_splits)

lemma add_list_ok:
  "ranges_ok rs \<Longrightarrow> sr_Start m < sr_End m \<Longrightarrow> ranges_ok (add_list m rs)"
proof (induction m rs rule: add_list.induct)
  case (2 m r rs)
  consider "sr_End r < sr_Start m" | "\<not> sr_End r < sr_Start m" "sr_Start r > sr_End m"
    | "\<not> sr_End r < sr_Start m" "\<not> sr_Start r > sr_End m" by blast
  then show ?case
  proof cases
    case 1
    then show ?thesis
      using "2" add_list_bound [of "sr_End r" m rs] by (auto simp: ranges_ok_Cons)
  next
    case 2
    have "\<forall>s \<in> set rs. sr_End m < sr_Start s"
      using "2.prems" 2 by (auto simp: ranges_ok_Cons)
    then show ?thesis
      using "2.prems" 2 by (auto simp: ranges_ok_Cons)
  next
    case 3
    have "min (sr_Start m) (sr_Start r) < max (sr_End m) (sr_End r)"
      using "2.prems" by (auto simp: min_def max_def ranges_ok_Cons)
    then show ?thesis
      using "2.IH"(2) "2.prems" 3 by (auto simp: ranges_ok_Cons)
  qed
qed (simp add: ranges_ok_Cons)

lemma merge_ivl:
  fixes a b c d :: "'a::linorder"
  assumes "a < b" "c < d" "c \<le> b" "a \<le> d"
  shows "{min a c..<max b d} = {a..<b} \<union> {c..<d}"
  using assms by (auto simp: min_def max_def)

lemma add_list_seqs:
  "ranges_ok rs \<Longrightarrow> sr_Start m < sr_End m \<Longrightarrow>
     (\<Union>r \<in> set (add_list m rs). range_seqs r) = range_seqs m \<union> (\<Union>r \<in> set rs. range_seqs r)"
proof (induction m rs rule: add_list.induct)
  case (2 m r rs)
  show ?case
  proof (cases "sr_End r < sr_Start m \<or> sr_Start r > sr_End m")
    case True
    then show ?thesis
      using "2" by (auto simp: ranges_ok_Cons)
  next
    case False
    have "min (sr_Start m) (sr_Start r) < max (sr_End m) (sr_End r)"
      using "2.prems" by (auto simp: min_def max_def ranges_ok_Cons)
    moreover have "{min (sr_Start m) (sr_Start r)..<max (sr_End m) (sr_End r)} = range_seqs m \<union> range_seqs r"
      using False "2.prems" unfolding range_seqs_def
      by (intro merge_ivl) (auto simp: ranges_ok_Cons not_less)
    ultimately show ?thesis
      using "2.IH"(2) "2.prems" False by (auto simp: ranges_ok_Cons range_seqs_def)
  qed
qed simp

lemma Add_holes:
  assumes "holes_ok h" "start < end"
  shows "ht_holes (HoleTracker_Add h start end) = add_list \<lparr>sr_Start = start, sr_End = end\<rparr> (ht_holes h)"
  using Add_loop_eq [of "ht_holes h" "\<lparr>sr_Start = start, sr_End = end\<rparr>" "[]"] assms
  by (auto simp: HoleTracker_Add_def holes_ok_def split: prod.splits)

lemma Add_ok: "holes_ok h \<Longrightarrow> holes_ok (HoleTracker_Add h start end)"
proof (cases "start < end")
  case True
  assume "holes_ok h"
  then show ?thesis
    using Add_holes [OF _ True, of h] True add_list_ok by (simp add: holes_ok_def)
qed (simp add: HoleTracker_Add_def not_less)

lemma Add_missing:
  "holes_ok h \<Longrightarrow> missing (HoleTracker_Add h start end) = missing h \<union> {start..<end}"
proof (cases "start < end")
  case True
  assume "holes_ok h"
  then show ?thesis
    using Add_holes [OF _ True, of h] True add_list_seqs
    by (auto simp: missing_def holes_ok_def range_seqs_def)
qed (simp add: HoleTracker_Add_def not_less)

section \<open>Fill\<close>

fun fill_list :: "u64 \<Rightarrow> u64 \<Rightarrow> SeqRange list \<Rightarrow> SeqRange list" where
  "fill_list s e [] = []"
| "fill_list s e (r # rs) =
     (if sr_End r \<le> s \<or> sr_Start r \<ge> e then [r]
      else (if sr_Start r < s then [\<lparr>sr_Start = sr_Start r, sr_End = s\<rparr>] else []) @
           (if sr_End r > e then [\<lparr>sr_Start = e, sr_End = sr_End r\<rparr>] else [])) @ fill_list s e rs"

definition touches :: "u64 \<Rightarrow> u64 \<Rightarrow> SeqRange \<Rightarrow> bool" where
  "touches s e r \<longleftrightarrow> \<not> (sr_End r \<le> s \<or> sr_Start r \<ge> e)"

lemma Fill_loop_eq:
  "Fill_loop s e res aff rs = (res @ fill_list s e rs, aff \<or> (\<exists>r \<in> set rs. touches s e r))"
  by (induction rs arbitrary: res aff) (auto simp: Let_def touches_def)

lemma fill_list_sub:
  "x \<in> set (fill_list s e rs) \<Longrightarrow> \<exists>r \<in> set rs. sr_Start r \<le> sr_Start x \<and> sr_End x \<le> sr_End r"
proof (induction rs)
  case (Cons r rs)
  show ?case
  proof (cases "x \<in> set (fill_list s e rs)")
    case True
    with Cons.IH show ?thesis by auto
  next
    case False
    with Cons.prems have "sr_Start r \<le> sr_Start x \<and> sr_End x \<le> sr_End r"
      by (auto simp: not_le split: if_splits)
    then show ?thesis by auto
  qed
qed simp

lemma fill_list_ok: "s < e \<Longrightarrow> ranges_ok rs \<Longrightarrow> ranges_ok (fill_list s e rs)"
proof (induction rs)
  case (Cons r rs)
  have later: "sr_End r < sr_Start x" if "x \<in> set (fill_list s e rs)" for x
    using fill_list_sub [OF that] Cons.prems by (auto simp: ranges_ok_Cons intro: less_le_trans)
  then have "s < sr_Start x" if "x \<in> set (fill_list s e rs)" "\<not> sr_End r \<le> s" for x
    using that by (meson less_trans not_le)
  with later Cons show ?case
    by (auto simp: ranges_ok_Cons not_le intro: less_trans)
qed simp

lemma fill_list_seqs:
  "s < e \<Longrightarrow> (\<Union>r \<in> set (fill_list s e rs). range_seqs r) = (\<Union>r \<in> set rs. range_seqs r) - {s..<e}"
  by (induction rs) (auto simp: range_seqs_def not_le not_less)

lemma touches_iff: "s < e \<Longrightarrow> sr_Start r < sr_End r \<Longrightarrow> touches s e r \<longleftrightarrow> range_seqs r \<inter> {s..<e} \<noteq> {}"
proof
  assume a: "s < e" "sr_Start r < sr_End r" "touches s e r"
  then have "max s (sr_Start r) \<in> range_seqs r \<inter> {s..<e}"
    by (auto simp: touches_def range_seqs_def not_le)
  then show "range_seqs r \<inter> {s..<e} \<noteq> {}" by blast
qed (auto simp: touches_def range_seqs_def)

lemma Fill_ok: "holes_ok h \<Longrightarrow> holes_ok (fst (HoleTracker_Fill h start end))"
  by (auto simp: HoleTracker_Fill_def Fill_loop_eq holes_ok_def fill_list_ok)

lemma Fill_missing:
  "holes_ok h \<Longrightarrow> missing (fst (HoleTracker_Fill h start end)) = missing h - {start..<end}"
proof -
  have "missing h = {}" if "ht_holes h = []"
    using that by (simp add: missing_def)
  moreover have "{start..<end} = {}" if "\<not> start < end"
    using that by simp
  ultimately show ?thesis
    using fill_list_seqs [of start "end" "ht_holes h"]
    by (simp add: HoleTracker_Fill_def Fill_loop_eq missing_def not_le)
qed

lemma Fill_affected:
  assumes "holes_ok h"
  shows "snd (HoleTracker_Fill h start end) \<longleftrightarrow> missing h \<inter> {start..<end} \<noteq> {}"
proof (cases "start < end \<and> ht_holes h \<noteq> []")
  case True
  have "touches start end r \<longleftrightarrow> range_seqs r \<inter> {start..<end} \<noteq> {}" if "r \<in> set (ht_holes h)" for r
    using that assms True by (intro touches_iff) (auto simp: holes_ok_def ranges_ok_def)
  then show ?thesis
    using True by (auto simp: HoleTracker_Fill_def Fill_loop_eq missing_def)
qed (auto simp: HoleTracker_Fill_def missing_def)

section \<open>The contract\<close>

locale gap_set =
  fixes empty :: 't
    and add :: "'t \<Rightarrow> 'n::linorder \<Rightarrow> 'n \<Rightarrow> 't"
    and fill :: "'t \<Rightarrow> 'n \<Rightarrow> 'n \<Rightarrow> 't"
    and gaps :: "'t \<Rightarrow> 'n set"
    and invar :: "'t \<Rightarrow> bool"
  assumes gaps_empty: "gaps empty = {}"
    and invar_empty: "invar empty"
    and gaps_add: "invar t \<Longrightarrow> gaps (add t s e) = gaps t \<union> {s..<e}"
    and invar_add: "invar t \<Longrightarrow> invar (add t s e)"
    and gaps_fill: "invar t \<Longrightarrow> gaps (fill t s e) = gaps t - {s..<e}"
    and invar_fill: "invar t \<Longrightarrow> invar (fill t s e)"
begin

lemma add_fill_same: "invar t \<Longrightarrow> gaps (fill (add t s e) s e) = gaps t - {s..<e}"
  by (auto simp: gaps_add gaps_fill invar_add)

lemma fill_all:
  "invar t \<Longrightarrow> gaps t \<subseteq> {s..<e} \<Longrightarrow> gaps (fill t s e) = {}"
  by (auto simp: gaps_fill)

lemma run_gaps:
  "invar t \<Longrightarrow>
     invar (foldl (\<lambda>t (f, s, e). if f then fill t s e else add t s e) t ops) \<and>
     gaps (foldl (\<lambda>t (f, s, e). if f then fill t s e else add t s e) t ops)
     = foldl (\<lambda>g (f, s, e). if f then g - {s..<e} else g \<union> {s..<e}) (gaps t) ops"
  by (induction ops arbitrary: t) (auto simp: gaps_add gaps_fill invar_add invar_fill)

end

interpretation holes: gap_set NewHoleTracker HoleTracker_Add
  "\<lambda>h s e. fst (HoleTracker_Fill h s e)" missing holes_ok
  by unfold_locales
     (auto simp: NewHoleTracker_def missing_def holes_ok_def
        Add_missing [unfolded missing_def] Add_ok [unfolded holes_ok_def]
        Fill_missing [unfolded missing_def] Fill_ok [unfolded holes_ok_def])

section \<open>Counting and the continuous prefix\<close>

lemma card_u64_ivl: "card {a..<b :: u64} = unat b - unat a"
proof -
  have "bij_betw unat {a..<b} {unat a..<unat b}"
  proof (rule bij_betw_imageI)
    show "inj_on unat {a..<b}" by (rule inj_onI) (metis word_unat_eq_iff)
    show "unat ` {a..<b} = {unat a..<unat b}"
    proof
      show "unat ` {a..<b} \<subseteq> {unat a..<unat b}"
        by (auto simp: word_le_nat_alt word_less_nat_alt)
      show "{unat a..<unat b} \<subseteq> unat ` {a..<b}"
      proof
        fix n assume n: "n \<in> {unat a..<unat b}"
        then have "unat (of_nat n :: u64) = n"
          using unat_less_pow [of b] by (simp add: unat_of_nat)
        with n have "of_nat n \<in> {a..<b}"
          by (auto simp: word_le_nat_alt word_less_nat_alt)
        then show "n \<in> unat ` {a..<b}"
          using \<open>unat (of_nat n :: u64) = n\<close> by force
      qed
    qed
  qed
  then show ?thesis by (simp add: bij_betw_same_card)
qed

lemma of_nat_card_range:
  "sr_Start r < sr_End r \<Longrightarrow> (of_nat (card (range_seqs r)) :: u64) = sr_End r - sr_Start r"
  by (simp add: range_seqs_def card_u64_ivl word_less_nat_alt)

lemma TotalMissing_fold:
  "ranges_ok rs \<Longrightarrow>
     fold (\<lambda>r total. total + (sr_End r - sr_Start r)) rs t
     = t + of_nat (card (\<Union>r \<in> set rs. range_seqs r))"
proof (induction rs arbitrary: t)
  case (Cons r rs)
  have "sr_End r < sr_Start q" if "q \<in> set rs" for q
    using Cons.prems that by (simp add: ranges_ok_Cons)
  then have "range_seqs r \<inter> (\<Union>r \<in> set rs. range_seqs r) = {}"
    unfolding range_seqs_def by (auto dest: less_le_trans less_trans) (meson less_asym less_le_trans)
  then have "card (range_seqs r \<union> (\<Union>r \<in> set rs. range_seqs r))
      = card (range_seqs r) + card (\<Union>r \<in> set rs. range_seqs r)"
    by (intro card_Un_disjoint) auto
  with Cons show ?case
    by (simp add: ranges_ok_Cons of_nat_card_range)
qed simp

lemma card_missing_less: "card (missing h) < 2 ^ 64"
proof -
  have "x \<noteq> - 1" if "x \<in> missing h" for x :: u64
    using that word_order.extremum [of "sr_End _ :: u64"]
    by (auto simp: missing_def range_seqs_def)
  then have "missing h \<subseteq> UNIV - {- 1}" by auto
  then have "card (missing h) \<le> card (UNIV - {- 1} :: u64 set)"
    by (intro card_mono) auto
  also have "\<dots> < 2 ^ 64" by (simp add: card_Diff_singleton card_word)
  finally show ?thesis .
qed

lemma sorted_End_mono:
  "ranges_ok rs \<Longrightarrow> i \<le> j \<Longrightarrow> j < length rs \<Longrightarrow> sr_End (rs ! i) \<le> sr_End (rs ! j)"
proof (cases "i = j")
  case False
  assume a: "ranges_ok rs" "i \<le> j" "j < length rs"
  then have "sr_End (rs ! i) < sr_Start (rs ! j)"
    using False by (auto simp: ranges_ok_def sorted_wrt_iff_nth_less)
  moreover have "sr_Start (rs ! j) < sr_End (rs ! j)"
    using a by (simp add: ranges_ok_def)
  ultimately show ?thesis by simp
qed simp

text \<open>
  The state of the tracker at a cursor: no gap at or after it, or the first gap that ends after
  it, with every earlier gap below the cursor.
\<close>

lemma ContinuousThrough_cases:
  assumes ok: "holes_ok h"
  obtains (none) "missing h \<inter> {cursor..} = {}" "HoleTracker_ContinuousThrough h cursor = NOT 0"
  | (hole) i where "i < length (ht_holes h)" "sr_End (ht_holes h ! i) > cursor"
      "\<forall>j < i. sr_End (ht_holes h ! j) \<le> cursor"
      "HoleTracker_ContinuousThrough h cursor =
        (if sr_Start (ht_holes h ! i) \<le> cursor then (if cursor = 0 then 0 else cursor - 1)
         else sr_Start (ht_holes h ! i) - 1)"
proof -
  let ?hs = "ht_holes h" and ?f = "\<lambda>i. sr_End (ht_holes h ! i) > cursor"
  have mono: "\<forall>a b. a \<le> b \<and> b < length ?hs \<and> ?f a \<longrightarrow> ?f b"
    using sorted_End_mono [of ?hs] ok less_le_trans unfolding holes_ok_def by blast
  note spec = sort_Search_spec [of "length ?hs" ?f, OF mono]
  define idx where "idx = sort_Search (length ?hs) ?f"
  have before: "j < idx \<Longrightarrow> sr_End (?hs ! j) \<le> cursor" for j
    using spec(2) [where k = j] unfolding idx_def by (simp only: not_less)
  have ct: "HoleTracker_ContinuousThrough h cursor =
      (if length ?hs = 0 \<or> idx \<ge> length ?hs then NOT 0
       else if sr_Start (?hs ! idx) \<le> cursor then (if cursor = 0 then 0 else cursor - 1)
       else sr_Start (?hs ! idx) - 1)"
    by (simp only: HoleTracker_ContinuousThrough_def Let_def idx_def split: if_split) blast
  show ?thesis
  proof (cases "idx < length ?hs")
    case True
    have "?f idx"
      using spec(3) [where k = idx] True unfolding idx_def by blast
    with True before ct show ?thesis
      by (intro hole [of idx]) auto
  next
    case False
    then have "\<forall>r \<in> set ?hs. sr_End r \<le> cursor"
      using before by (metis in_set_conv_nth less_le_trans not_less)
    then have "missing h \<inter> {cursor..} = {}"
      by (force simp: missing_def range_seqs_def)
    then show ?thesis
      using False ct by (intro none) auto
  qed
qed

section \<open>Properties\<close>

text \<open>
  C30: every sequence of \<^verbatim>\<open>Add\<close> and \<^verbatim>\<open>Fill\<close> calls on a new tracker keeps the list sorted, disjoint
  and non-adjacent, and the tracker then stands for exactly the set of sequence numbers that the
  same unions and differences of intervals give.
\<close>

theorem holes_refine_set:
  "holes_ok (foldl (\<lambda>t (f, s, e). if f then fst (HoleTracker_Fill t s e) else HoleTracker_Add t s e)
       NewHoleTracker ops) \<and>
   missing (foldl (\<lambda>t (f, s, e). if f then fst (HoleTracker_Fill t s e) else HoleTracker_Add t s e)
       NewHoleTracker ops)
   = foldl (\<lambda>g (f, s, e). if f then g - {s..<e} else g \<union> {s..<e}) {} ops"
  using holes.run_gaps [OF holes.invar_empty, of ops] by (simp add: holes.gaps_empty)

text \<open>
  \<^verbatim>\<open>Fill\<close> reports true exactly when it removed some missing sequence number.
\<close>

theorem Fill_reports_effect:
  assumes "holes_ok h"
  shows "snd (HoleTracker_Fill h start end) \<longleftrightarrow>
    missing (fst (HoleTracker_Fill h start end)) \<noteq> missing h"
  using Fill_affected [OF assms] Fill_missing [OF assms] by blast

theorem Fill_reports_effect_witness:
  "snd (HoleTracker_Fill \<lparr>ht_holes = [\<lparr>sr_Start = 5, sr_End = 9\<rparr>]\<rparr> 7 20) \<longleftrightarrow>
    missing (fst (HoleTracker_Fill \<lparr>ht_holes = [\<lparr>sr_Start = 5, sr_End = 9\<rparr>]\<rparr> 7 20))
    \<noteq> missing \<lparr>ht_holes = [\<lparr>sr_Start = 5, sr_End = 9\<rparr>]\<rparr>"
  by (rule Fill_reports_effect) (simp add: holes_ok_def ranges_ok_def)

text \<open>
  the 64-bit sum of \<^verbatim>\<open>TotalMissing\<close> never wraps around: it is the number of missing sequence
  numbers.
\<close>

theorem TotalMissing_counts:
  assumes "holes_ok h"
  shows "unat (HoleTracker_TotalMissing h) = card (missing h)"
proof -
  have "HoleTracker_TotalMissing h = of_nat (card (missing h))"
    using assms TotalMissing_fold [of "ht_holes h" 0]
    by (simp add: HoleTracker_TotalMissing_def missing_def holes_ok_def)
  then show ?thesis
    using card_missing_less [of h] by (simp add: unat_of_nat)
qed

theorem TotalMissing_counts_witness:
  "unat (HoleTracker_TotalMissing
     \<lparr>ht_holes = [\<lparr>sr_Start = 0, sr_End = 4\<rparr>, \<lparr>sr_Start = 10, sr_End = - 1\<rparr>]\<rparr>)
   = card (missing \<lparr>ht_holes = [\<lparr>sr_Start = 0, sr_End = 4\<rparr>, \<lparr>sr_Start = 10, sr_End = - 1\<rparr>]\<rparr>)"
  by (rule TotalMissing_counts) (simp add: holes_ok_def ranges_ok_def)

text \<open>
  \<^verbatim>\<open>ContinuousThrough\<close> finds, by binary search over the sorted gaps, the bound the missing set
  gives: the largest 64-bit number if nothing at or after the cursor is missing; just below the
  cursor if the cursor itself is missing (0 for cursor 0); otherwise just below the first missing
  number after the cursor.
\<close>

theorem ContinuousThrough_spec:
  assumes ok: "holes_ok h"
  shows "HoleTracker_ContinuousThrough h cursor =
    (if missing h \<inter> {cursor..} = {} then - 1
     else if cursor \<in> missing h then (if cursor = 0 then 0 else cursor - 1)
     else Min (missing h \<inter> {cursor..}) - 1)"
proof (rule ContinuousThrough_cases [OF ok, of cursor])
  fix i
  let ?r = "ht_holes h ! i"
  assume i: "i < length (ht_holes h)" and e: "sr_End ?r > cursor"
    and before: "\<forall>j < i. sr_End (ht_holes h ! j) \<le> cursor"
    and eq: "HoleTracker_ContinuousThrough h cursor =
      (if sr_Start ?r \<le> cursor then (if cursor = 0 then 0 else cursor - 1) else sr_Start ?r - 1)"
  have rsub: "range_seqs ?r \<subseteq> missing h"
    using nth_mem [OF i] by (auto simp: missing_def)
  have ne: "sr_Start ?r < sr_End ?r"
    using ok i by (simp add: holes_ok_def ranges_ok_def)
  have first: "sr_Start ?r \<le> x" if xm: "x \<in> missing h" and cx: "cursor \<le> x" for x
  proof -
    obtain r where "r \<in> set (ht_holes h)" "x \<in> range_seqs r"
      using xm by (auto simp: missing_def)
    then obtain j where j: "j < length (ht_holes h)" "x \<in> range_seqs (ht_holes h ! j)"
      by (auto simp: in_set_conv_nth)
    have "\<not> j < i"
      using before j(2) cx by (auto simp: range_seqs_def)
    then have "j = i \<or> sr_End ?r < sr_Start (ht_holes h ! j)"
      using ok j(1) unfolding holes_ok_def ranges_ok_def sorted_wrt_iff_nth_less
      by (meson nat_neq_iff)
    then show ?thesis
      using j(2) ne by (auto simp: range_seqs_def)
  qed
  show ?thesis
  proof (cases "sr_Start ?r \<le> cursor")
    case True
    then have "cursor \<in> missing h"
      using rsub e by (auto simp: range_seqs_def)
    then show ?thesis using True eq by auto
  next
    case False
    then have "sr_Start ?r \<in> missing h \<inter> {cursor..}"
      using rsub ne by (auto simp: range_seqs_def)
    moreover have "cursor \<notin> missing h"
      using first [of cursor] False by auto
    moreover have "Min (missing h \<inter> {cursor..}) = sr_Start ?r"
      using calculation(1) first by (intro Min_eqI) auto
    ultimately show ?thesis using False eq by auto
  qed
qed auto

theorem ContinuousThrough_spec_witness:
  "HoleTracker_ContinuousThrough \<lparr>ht_holes = [\<lparr>sr_Start = 200, sr_End = 300\<rparr>]\<rparr> 100 =
    (if missing \<lparr>ht_holes = [\<lparr>sr_Start = 200, sr_End = 300\<rparr>]\<rparr> \<inter> {100..} = {} then - 1
     else if 100 \<in> missing \<lparr>ht_holes = [\<lparr>sr_Start = 200, sr_End = 300\<rparr>]\<rparr>
       then (if (100::u64) = 0 then 0 else 100 - 1)
     else Min (missing \<lparr>ht_holes = [\<lparr>sr_Start = 200, sr_End = 300\<rparr>]\<rparr> \<inter> {100..}) - 1)"
  by (rule ContinuousThrough_spec) (simp add: holes_ok_def ranges_ok_def)

end
