(* ===== verification/ChangeTracker.thy ===== *)
theory ChangeTracker
  imports Pgn
begin

text \<open>
  Package \<^verbatim>\<open>changetracker\<close>: compact diffs between packet payloads (\<^verbatim>\<open>diff.go\<close>), the tracker that
  emits snapshot, delta and idle events and the replayer that rebuilds the packets from them
  (\<^verbatim>\<open>tracker.go\<close>). The Go interface \<^verbatim>\<open>DiffMethod\<close> is the locale \<open>diff_method\<close>; the replay theorem is
  proved from its law and applies to every method that is shown to satisfy it.
\<close>

section \<open>Diff methods\<close>

text \<open>
  An interface value is the record of its methods. A result \<open>None\<close> is a run-time panic (an index
  out of range); inside it, a nil slice is \<open>None\<close>.
\<close>

record DiffMethod =
  dm_Diff :: "bytes \<Rightarrow> bytes \<Rightarrow> (bool \<times> bytes option) option"
  dm_Apply :: "bytes \<Rightarrow> bytes \<Rightarrow> bytes option"

definition mask_step :: "bytes \<Rightarrow> bytes \<Rightarrow> nat \<Rightarrow> bytes \<times> bytes \<Rightarrow> bytes \<times> bytes" where
  "mask_step prev cur i = (\<lambda>(msk, changed).
     if prev ! i \<noteq> cur ! i
     then (msk[i div 8 := msk ! (i div 8) OR push_bit (i mod 8) 1], changed @ [cur ! i])
     else (msk, changed))"

definition ByteMaskDiff_Diff :: "bytes \<Rightarrow> bytes \<Rightarrow> (bool \<times> bytes option) option" where
  "ByteMaskDiff_Diff prev cur =
     (if length prev \<noteq> length cur then Some (True, None)
      else
        let n = length cur;
            maskLen = (n + 7) div 8;
            (msk, changed) = fold (mask_step prev cur) [0..<n] (replicate maskLen 0, [])
        in if length changed = 0 then Some (False, None)
           else if n \<le> 8 then Some (True, Some (msk ! 0 # changed))
           else Some (True, Some (LE_PutUint16 (of_nat maskLen) @ msk @ changed)))"

text \<open>The loop of \<^verbatim>\<open>Apply\<close>: the output so far and the index into the changed bytes.\<close>

definition apply_step :: "(nat \<Rightarrow> u8 option) \<Rightarrow> bytes \<Rightarrow> nat \<Rightarrow> (bytes \<times> nat) option \<Rightarrow> (bytes \<times> nat) option" where
  "apply_step msk changed i st =
     (case st of
        None \<Rightarrow> None
      | Some (out, ci) \<Rightarrow>
          (case msk (i div 8) of
             None \<Rightarrow> None
           | Some m \<Rightarrow>
               if m AND push_bit (i mod 8) 1 \<noteq> 0
               then (if ci < length changed then Some (out[i := changed ! ci], ci + 1) else None)
               else Some (out, ci)))"

definition ByteMaskDiff_Apply :: "bytes \<Rightarrow> bytes \<Rightarrow> bytes option" where
  "ByteMaskDiff_Apply prev diff =
     (let n = length prev
      in if n \<le> 8 then
           (if length diff < 1 then None
            else map_option fst (fold (apply_step (\<lambda>_. Some (diff ! 0)) (drop 1 diff)) [0..<n] (Some (prev, 0))))
         else if length diff < 2 then None
         else
           let maskLen = unat (LE_Uint16 diff)
           in if length diff < 2 + maskLen then None
              else
                let msk = take maskLen (drop 2 diff)
                in map_option fst
                     (fold (apply_step (\<lambda>j. if j < length msk then Some (msk ! j) else None)
                              (drop (2 + maskLen) diff)) [0..<n] (Some (prev, 0))))"

definition ByteMaskDiff :: DiffMethod where
  "ByteMaskDiff = \<lparr>dm_Diff = ByteMaskDiff_Diff, dm_Apply = ByteMaskDiff_Apply\<rparr>"

record FieldToleranceDiff =
  ft_Inner :: "DiffMethod option"
  ft_PGN :: u32
  ft_Decode :: "decoder option"
  ft_Tolerances :: "(string \<times> f64) list"

definition ft_inner :: "FieldToleranceDiff \<Rightarrow> DiffMethod" where
  "ft_inner f = (case ft_Inner f of Some m \<Rightarrow> m | None \<Rightarrow> ByteMaskDiff)"

text \<open>
  The struct fields of a decoded value, through one pointer; \<open>None\<close> when it is not a struct.
\<close>

definition struct_fields :: "rval \<Rightarrow> sfield list option" where
  "struct_fields v =
     (case (case v of RPtr (Some w) \<Rightarrow> w | w \<Rightarrow> w) of RStruct fs \<Rightarrow> Some fs | _ \<Rightarrow> None)"

text \<open>
  The loop over the fields: \<open>None\<close> panics (the current value has fewer fields), \<open>Some True\<close> found a
  change beyond its tolerance. Later entries of the tolerance list override earlier ones.
\<close>

fun tolerance_loop :: "(string \<times> f64) list \<Rightarrow> sfield list \<Rightarrow> sfield list \<Rightarrow> bool option" where
  "tolerance_loop tols [] cs = Some False"
| "tolerance_loop tols (p # ps) [] = None"
| "tolerance_loop tols (p # ps) (c # cs) =
     (if \<not> fst (snd p) then tolerance_loop tols ps cs
      else case map_of (rev tols) (field_name p) of
             None \<Rightarrow> tolerance_loop tols ps cs
           | Some tol \<Rightarrow>
               (case (toFloat64 (snd (snd (snd p))), toFloat64 (snd (snd (snd c)))) of
                  (Some pv, Some cv) \<Rightarrow>
                    if f64_lt tol (f64_abs (f64_sub pv cv)) then Some True else tolerance_loop tols ps cs
                | _ \<Rightarrow>
                    if \<not> DeepEqual (snd (snd (snd p))) (snd (snd (snd c))) then Some True
                    else tolerance_loop tols ps cs))"

definition FieldToleranceDiff_Diff :: "FieldToleranceDiff \<Rightarrow> bytes \<Rightarrow> bytes \<Rightarrow> (bool \<times> bytes option) option" where
  "FieldToleranceDiff_Diff f prev cur =
     (let inner = ft_inner f
      in if prev = cur then Some (False, None)
         else case ft_Decode f of
           None \<Rightarrow> dm_Diff inner prev cur
         | Some decode \<Rightarrow>
             (case (decode prev, decode cur) of
                (Some pd, Some cd) \<Rightarrow>
                  (case (struct_fields pd, struct_fields cd) of
                     (Some pf, Some cf) \<Rightarrow>
                       (case tolerance_loop (ft_Tolerances f) pf cf of
                          None \<Rightarrow> None
                        | Some True \<Rightarrow> dm_Diff inner prev cur
                        | Some False \<Rightarrow> Some (False, None))
                   | _ \<Rightarrow> dm_Diff inner prev cur)
              | _ \<Rightarrow> dm_Diff inner prev cur))"

definition FieldToleranceDiff_Apply :: "FieldToleranceDiff \<Rightarrow> bytes \<Rightarrow> bytes \<Rightarrow> bytes option" where
  "FieldToleranceDiff_Apply f prev diff = dm_Apply (ft_inner f) prev diff"

definition FieldToleranceDiff_method :: "FieldToleranceDiff \<Rightarrow> DiffMethod" where
  "FieldToleranceDiff_method f =
     \<lparr>dm_Diff = FieldToleranceDiff_Diff f, dm_Apply = FieldToleranceDiff_Apply f\<rparr>"

section \<open>The contract of a diff method\<close>

text \<open>
  On payloads of equal length that are in the method's range, a significant diff is not nil and
  applying it to the old payload gives the new one.
\<close>

locale diff_method =
  fixes diff :: "bytes \<Rightarrow> bytes \<Rightarrow> (bool \<times> bytes option) option"
    and appl :: "bytes \<Rightarrow> bytes \<Rightarrow> bytes option"
    and in_range :: "bytes \<Rightarrow> bool"
  assumes diff_apply:
    "in_range cur \<Longrightarrow> length prev = length cur \<Longrightarrow> diff prev cur = Some (True, d) \<Longrightarrow>
       \<exists>x. d = Some x \<and> appl prev x = Some cur"
begin

lemma apply_of_diff:
  assumes "in_range cur" "length prev = length cur" "diff prev cur = Some (True, d)"
  obtains x where "d = Some x" "appl prev x = Some cur"
  using diff_apply [OF assms] by blast

end

section \<open>ByteMaskDiff satisfies it\<close>

definition changed_at :: "bytes \<Rightarrow> bytes \<Rightarrow> nat \<Rightarrow> bytes" where
  "changed_at prev cur k = map (\<lambda>i. cur ! i) (filter (\<lambda>i. prev ! i \<noteq> cur ! i) [0..<k])"

definition mask_ok :: "bytes \<Rightarrow> bytes \<Rightarrow> nat \<Rightarrow> bytes \<Rightarrow> bool" where
  "mask_ok prev cur k msk \<longleftrightarrow>
     (\<forall>i < length cur. bit (msk ! (i div 8)) (i mod 8) \<longleftrightarrow> i < k \<and> prev ! i \<noteq> cur ! i)"

lemma mask_step_ok:
  assumes "mask_ok prev cur k msk" "k < length cur" "length msk = (length cur + 7) div 8"
  shows "mask_ok prev cur (Suc k) (fst (mask_step prev cur k (msk, ch)))"
  unfolding mask_ok_def
proof (intro allI impI)
  fix i assume i: "i < length cur"
  have kd: "k div 8 < length msk" using assms by simp
  let ?m = "fst (mask_step prev cur k (msk, ch))"
  have upd: "bit (?m ! (i div 8)) (i mod 8) \<longleftrightarrow>
      bit (msk ! (i div 8)) (i mod 8) \<or> prev ! k \<noteq> cur ! k \<and> i div 8 = k div 8 \<and> i mod 8 = k mod 8"
    using kd by (auto simp: mask_step_def nth_list_update bit_or_iff bit_exp_iff)
  have "i div 8 = k div 8 \<and> i mod 8 = k mod 8 \<longleftrightarrow> i = k"
    by (metis div_mod_decomp)
  then show "bit (?m ! (i div 8)) (i mod 8) \<longleftrightarrow> i < Suc k \<and> prev ! i \<noteq> cur ! i"
    using assms(1) i upd by (auto simp: mask_ok_def less_Suc_eq)
qed

lemma mask_fold:
  assumes "k \<le> length cur"
  shows "mask_ok prev cur k (fst (fold (mask_step prev cur) [0..<k] (replicate ((length cur + 7) div 8) 0, []))) \<and>
    length (fst (fold (mask_step prev cur) [0..<k] (replicate ((length cur + 7) div 8) 0, []))) = (length cur + 7) div 8 \<and>
    snd (fold (mask_step prev cur) [0..<k] (replicate ((length cur + 7) div 8) 0, [])) = changed_at prev cur k"
  using assms
proof (induction k)
  case 0
  have "i div 8 < (length cur + 7) div 8" if "i < length cur" for i
    using that by linarith
  then show ?case by (simp add: mask_ok_def changed_at_def)
next
  case (Suc k)
  define st where "st = fold (mask_step prev cur) [0..<k] (replicate ((length cur + 7) div 8) 0, [])"
  have IH: "mask_ok prev cur k (fst st)" "length (fst st) = (length cur + 7) div 8"
    "snd st = changed_at prev cur k"
    using Suc by (auto simp: st_def)
  have "mask_ok prev cur (Suc k) (fst (mask_step prev cur k (fst st, snd st)))"
    using Suc.prems IH by (intro mask_step_ok) auto
  moreover have "length (fst (mask_step prev cur k st)) = length (fst st)"
    "snd (mask_step prev cur k st) = changed_at prev cur (Suc k)"
    using IH(3) by (auto simp: mask_step_def changed_at_def split_beta)
  ultimately show ?case
    using IH(2) by (simp add: st_def [symmetric])
qed

lemma apply_fold:
  assumes len: "length prev = length cur"
    and msk: "\<And>i. i < length cur \<Longrightarrow> \<exists>m. msk (i div 8) = Some m \<and> (bit m (i mod 8) \<longleftrightarrow> prev ! i \<noteq> cur ! i)"
    and k: "k \<le> length cur"
  shows "fold (apply_step msk (changed_at prev cur (length cur))) [0..<k] (Some (prev, 0))
    = Some (take k cur @ drop k prev, length (changed_at prev cur k))"
  using k
proof (induction k)
  case 0
  then show ?case by (simp add: changed_at_def)
next
  case (Suc k)
  let ?ch = "changed_at prev cur (length cur)"
  have split: "?ch = changed_at prev cur k @ map ((!) cur) (filter (\<lambda>i. prev ! i \<noteq> cur ! i) [k..<length cur])"
  proof -
    have "[0..<length cur] = [0..<k] @ [k..<length cur]"
      using Suc.prems upt_add_eq_append [of 0 k "length cur - k"] by simp
    then show ?thesis by (simp add: changed_at_def)
  qed
  obtain m where m: "msk (k div 8) = Some m" "bit m (k mod 8) \<longleftrightarrow> prev ! k \<noteq> cur ! k"
    using msk [of k] Suc.prems by auto
  have bit: "m AND push_bit (k mod 8) 1 \<noteq> 0 \<longleftrightarrow> prev ! k \<noteq> cur ! k"
    using m(2) by (simp add: bit_iff_and_push_bit_not_eq_0)
  have keep: "take (Suc k) cur @ drop (Suc k) prev = (take k cur @ drop k prev)[k := cur ! k]"
    using Suc.prems len by (simp add: take_Suc_conv_app_nth list_update_append Cons_nth_drop_Suc [symmetric])
  have IH: "fold (apply_step msk ?ch) [0..<k] (Some (prev, 0))
    = Some (take k cur @ drop k prev, length (changed_at prev cur k))"
    using Suc by simp
  have red: "fold (apply_step msk ?ch) [0..<Suc k] (Some (prev, 0))
      = apply_step msk ?ch k (Some (take k cur @ drop k prev, length (changed_at prev cur k)))"
    using IH by simp
  show ?case
  proof (cases "prev ! k = cur ! k")
    case True
    then have "take (Suc k) cur @ drop (Suc k) prev = take k cur @ drop k prev"
      using Suc.prems len by (simp add: take_Suc_conv_app_nth Cons_nth_drop_Suc [symmetric])
    moreover have "changed_at prev cur (Suc k) = changed_at prev cur k"
      using True by (simp add: changed_at_def)
    ultimately show ?thesis
      unfolding red using bit m True by (simp add: apply_step_def)
  next
    case False
    have "filter (\<lambda>i. prev ! i \<noteq> cur ! i) [k..<length cur]
        = k # filter (\<lambda>i. prev ! i \<noteq> cur ! i) [Suc k..<length cur]"
      using Suc.prems False by (simp add: upt_conv_Cons)
    then have "length (changed_at prev cur k) < length ?ch" "?ch ! length (changed_at prev cur k) = cur ! k"
      unfolding split by (simp_all add: nth_append)
    moreover have "length (changed_at prev cur (Suc k)) = Suc (length (changed_at prev cur k))"
      using False by (simp add: changed_at_def)
    ultimately show ?thesis
      unfolding red keep using bit m False by (simp add: apply_step_def)
  qed
qed

definition mask_range :: "bytes \<Rightarrow> bool" where
  "mask_range b \<longleftrightarrow> length b \<le> 524280"

lemma ByteMaskDiff_law:
  assumes r: "mask_range cur" and len: "length prev = length cur"
    and d: "ByteMaskDiff_Diff prev cur = Some (True, d)"
  shows "\<exists>x. d = Some x \<and> ByteMaskDiff_Apply prev x = Some cur"
proof -
  let ?n = "length cur" and ?ml = "(length cur + 7) div 8"
  define mc where "mc = fold (mask_step prev cur) [0..<?n] (replicate ?ml 0, [])"
  obtain msk where mc: "mc = (msk, changed_at prev cur ?n)" "mask_ok prev cur ?n msk" "length msk = ?ml"
    using mask_fold [of ?n cur prev] unfolding mc_def [symmetric] by (cases mc) auto
  have id: "take ?n cur @ drop ?n prev = cur" using len by simp
  have lt: "i div 8 < ?ml" if "i < ?n" for i using that by linarith
  note D = d [unfolded ByteMaskDiff_Diff_def Let_def mc_def [symmetric] mc(1) prod.case]
  show ?thesis
  proof (cases "?n \<le> 8")
    case True
    then have x: "d = Some (msk ! 0 # changed_at prev cur ?n)"
      using D len by (simp split: if_splits)
    have "fold (apply_step (\<lambda>_. Some (msk ! 0)) (changed_at prev cur ?n)) [0..<?n] (Some (prev, 0))
        = Some (take ?n cur @ drop ?n prev, length (changed_at prev cur ?n))"
    proof (rule apply_fold [OF len])
      fix i assume i: "i < ?n"
      then have "i div 8 = 0" using True by simp
      then show "\<exists>m. Some (msk ! 0) = Some m \<and> (bit m (i mod 8) \<longleftrightarrow> prev ! i \<noteq> cur ! i)"
        using mc(2) i unfolding mask_ok_def by (metis option.inject)
    qed simp
    then show ?thesis
      using x True len id by (simp add: ByteMaskDiff_Apply_def Let_def)
  next
    case False
    then have x: "d = Some (LE_PutUint16 (of_nat ?ml) @ msk @ changed_at prev cur ?n)"
      using D len by (simp split: if_splits)
    have u: "unat (of_nat ?ml :: u16) = ?ml"
      using r by (simp add: unat_of_nat mask_range_def)
    have "fold (apply_step (\<lambda>j. if j < length msk then Some (msk ! j) else None) (changed_at prev cur ?n))
        [0..<?n] (Some (prev, 0)) = Some (take ?n cur @ drop ?n prev, length (changed_at prev cur ?n))"
    proof (rule apply_fold [OF len])
      fix i assume i: "i < ?n"
      then show "\<exists>m. (if i div 8 < length msk then Some (msk ! (i div 8)) else None) = Some m \<and>
          (bit m (i mod 8) \<longleftrightarrow> prev ! i \<noteq> cur ! i)"
        using mc(2,3) lt [OF i] unfolding mask_ok_def by simp
    qed simp
    then show ?thesis
      using x False len id mc(3) by (simp add: ByteMaskDiff_Apply_def Let_def LE_Uint16_Put u)
  qed
qed

interpretation bytemask: diff_method ByteMaskDiff_Diff ByteMaskDiff_Apply mask_range
  by unfold_locales (rule ByteMaskDiff_law)

text \<open>A tolerance filter keeps the law of the method it wraps: it only suppresses diffs.\<close>

lemma FieldToleranceDiff_cases:
  "FieldToleranceDiff_Diff f prev cur = Some (True, d) \<Longrightarrow> dm_Diff (ft_inner f) prev cur = Some (True, d)"
  by (auto simp: FieldToleranceDiff_Diff_def Let_def split: if_splits option.splits bool.splits)

lemma FieldToleranceDiff_law:
  assumes "diff_method (dm_Diff (ft_inner f)) (dm_Apply (ft_inner f)) ok"
  shows "diff_method (FieldToleranceDiff_Diff f) (FieldToleranceDiff_Apply f) ok"
  using diff_method.diff_apply [OF assms]
  by (intro diff_method.intro) (auto simp: FieldToleranceDiff_Apply_def dest!: FieldToleranceDiff_cases)

section \<open>The tracker\<close>

datatype ChangeEventType = Snapshot | Delta | Idle | OtherEventType u8

text \<open>A nil slice of an event or of the replayer is the empty list: no reader tells the two apart.\<close>

record ChangeEvent =
  ce_Type :: ChangeEventType
  ce_Timestamp :: gotime
  ce_Source :: u8
  ce_PGN :: u32
  ce_SubKey :: u64
  ce_Seq :: u64
  ce_Data :: bytes

record trackerKey =
  tk_Source :: u8
  tk_PGN :: u32
  tk_SubKey :: u64

record trackedPair =
  tp_lastData :: bytes
  tp_lastSeen :: gotime
  tp_idleEmitted :: bool

record CTConfig =
  cfg_DefaultMethod :: "DiffMethod option"
  cfg_Methods :: "u32 \<Rightarrow> DiffMethod option"
  cfg_SubKeys :: "u32 \<Rightarrow> (bytes \<Rightarrow> u64) option"
  cfg_DefaultIdleTimeout :: duration
  cfg_IdleMultiplier :: int
  cfg_IdleTimeouts :: "u32 \<Rightarrow> duration option"

record ChangeTracker =
  ct_cfg :: CTConfig
  ct_pairs :: "(trackerKey, trackedPair) gomap"

definition NewChangeTracker :: "registry \<Rightarrow> CTConfig \<Rightarrow> ChangeTracker" where
  "NewChangeTracker reg cfg =
     (let cfg1 = (if cfg_DefaultIdleTimeout cfg = 0 then cfg\<lparr>cfg_DefaultIdleTimeout := 5 * 10 ^ 9\<rparr> else cfg);
          cfg2 = (if cfg_IdleMultiplier cfg1 = 0 then cfg1\<lparr>cfg_IdleMultiplier := 3\<rparr> else cfg1);
          methods = (\<lambda>pgnID.
            case cfg_Methods cfg2 pgnID of
              Some m \<Rightarrow> Some m
            | None \<Rightarrow>
                (case reg pgnID of
                   None \<Rightarrow> None
                 | Some info \<Rightarrow>
                     if length (pi_Tolerances info) = 0 \<or> pi_Decode info = None then None
                     else Some (FieldToleranceDiff_method
                       \<lparr>ft_Inner = None, ft_PGN = pgnID, ft_Decode = pi_Decode info,
                        ft_Tolerances = pi_Tolerances info\<rparr>)))
      in \<lparr>ct_cfg = cfg2\<lparr>cfg_Methods := methods\<rparr>, ct_pairs = []\<rparr>)"

definition ct_methodFor :: "ChangeTracker \<Rightarrow> u32 \<Rightarrow> DiffMethod" where
  "ct_methodFor ct pgnID =
     (case cfg_Methods (ct_cfg ct) pgnID of
        Some m \<Rightarrow> m
      | None \<Rightarrow> (case cfg_DefaultMethod (ct_cfg ct) of Some m \<Rightarrow> m | None \<Rightarrow> ByteMaskDiff))"

definition ct_idleTimeout :: "registry \<Rightarrow> ChangeTracker \<Rightarrow> u32 \<Rightarrow> duration" where
  "ct_idleTimeout reg ct pgnID =
     (case cfg_IdleTimeouts (ct_cfg ct) pgnID of
        Some t \<Rightarrow> t
      | None \<Rightarrow>
          (case reg pgnID of
             Some info \<Rightarrow>
               if pi_Interval info > 0 then i64_wrap (pi_Interval info * cfg_IdleMultiplier (ct_cfg ct))
               else cfg_DefaultIdleTimeout (ct_cfg ct)
           | None \<Rightarrow> cfg_DefaultIdleTimeout (ct_cfg ct)))"

definition ChangeTracker_Process ::
  "ChangeTracker \<Rightarrow> gotime \<Rightarrow> u8 \<Rightarrow> u32 \<Rightarrow> bytes \<Rightarrow> u64 \<Rightarrow> (ChangeTracker \<times> ChangeEvent option) option" where
  "ChangeTracker_Process ct ts source pgnID data seq =
     (let subKey = (case cfg_SubKeys (ct_cfg ct) pgnID of Some fn \<Rightarrow> fn data | None \<Rightarrow> 0);
          key = \<lparr>tk_Source = source, tk_PGN = pgnID, tk_SubKey = subKey\<rparr>;
          event = (\<lambda>typ d. \<lparr>ce_Type = typ, ce_Timestamp = ts, ce_Source = source, ce_PGN = pgnID,
                           ce_SubKey = subKey, ce_Seq = seq, ce_Data = d\<rparr>);
          store = (\<lambda>pair. ct\<lparr>ct_pairs := gm_put key pair (ct_pairs ct)\<rparr>)
      in case gm_get (ct_pairs ct) key of
           None \<Rightarrow>
             Some (store \<lparr>tp_lastData = data, tp_lastSeen = ts, tp_idleEmitted = False\<rparr>,
                   Some (event Snapshot data))
         | Some pair0 \<Rightarrow>
             let pair = pair0\<lparr>tp_lastSeen := ts, tp_idleEmitted := False\<rparr>
             in if length (tp_lastData pair) \<noteq> length data then
                  Some (store (pair\<lparr>tp_lastData := data\<rparr>), Some (event Snapshot data))
                else
                  (case dm_Diff (ct_methodFor ct pgnID) (tp_lastData pair) data of
                     None \<Rightarrow> None
                   | Some (False, _) \<Rightarrow> Some (store pair, None)
                   | Some (True, diff) \<Rightarrow>
                       Some (store (pair\<lparr>tp_lastData := data\<rparr>),
                             Some (event Delta (case diff of Some d \<Rightarrow> d | None \<Rightarrow> [])))))"

definition idle_due :: "registry \<Rightarrow> ChangeTracker \<Rightarrow> gotime \<Rightarrow> trackerKey \<Rightarrow> trackedPair \<Rightarrow> bool" where
  "idle_due reg ct now key pair \<longleftrightarrow>
     \<not> tp_idleEmitted pair \<and> time_Sub now (tp_lastSeen pair) \<ge> ct_idleTimeout reg ct (tk_PGN key)"

definition ChangeTracker_Tick :: "registry \<Rightarrow> ChangeTracker \<Rightarrow> gotime \<Rightarrow> ChangeTracker \<times> ChangeEvent list" where
  "ChangeTracker_Tick reg ct now =
     (ct\<lparr>ct_pairs := map (\<lambda>(key, pair).
          (key, if idle_due reg ct now key pair then pair\<lparr>tp_idleEmitted := True\<rparr> else pair)) (ct_pairs ct)\<rparr>,
      map (\<lambda>(key, pair). \<lparr>ce_Type = Idle, ce_Timestamp = now, ce_Source = tk_Source key,
             ce_PGN = tk_PGN key, ce_SubKey = tk_SubKey key, ce_Seq = 0, ce_Data = []\<rparr>)
        (filter (\<lambda>(key, pair). idle_due reg ct now key pair) (ct_pairs ct)))"

definition ChangeTracker_Reset :: "ChangeTracker \<Rightarrow> ChangeTracker" where
  "ChangeTracker_Reset ct = ct\<lparr>ct_pairs := []\<rparr>"

definition ChangeTracker_Remove :: "ChangeTracker \<Rightarrow> u8 \<Rightarrow> u32 \<Rightarrow> u64 \<Rightarrow> ChangeTracker" where
  "ChangeTracker_Remove ct source pgnID subKey =
     ct\<lparr>ct_pairs := gm_del \<lparr>tk_Source = source, tk_PGN = pgnID, tk_SubKey = subKey\<rparr> (ct_pairs ct)\<rparr>"

definition ChangeTracker_TrackedPairs :: "ChangeTracker \<Rightarrow> nat" where
  "ChangeTracker_TrackedPairs ct = length (ct_pairs ct)"

section \<open>The replayer\<close>

record ChangeReplayer =
  cr_methods :: "u32 \<Rightarrow> DiffMethod option"
  cr_subKeys :: "u32 \<Rightarrow> (bytes \<Rightarrow> u64) option"
  cr_state :: "(trackerKey, bytes) gomap"

datatype replay_error = DeltaWithoutSnapshot | UnknownEventType u8

definition NewChangeReplayer ::
  "(u32 \<Rightarrow> DiffMethod option) \<Rightarrow> (u32 \<Rightarrow> (bytes \<Rightarrow> u64) option) \<Rightarrow> ChangeReplayer" where
  "NewChangeReplayer methods subKeys = \<lparr>cr_methods = methods, cr_subKeys = subKeys, cr_state = []\<rparr>"

definition cr_methodFor :: "ChangeReplayer \<Rightarrow> u32 \<Rightarrow> DiffMethod" where
  "cr_methodFor r pgnID = (case cr_methods r pgnID of Some m \<Rightarrow> m | None \<Rightarrow> ByteMaskDiff)"

definition event_key :: "ChangeEvent \<Rightarrow> trackerKey" where
  "event_key e = \<lparr>tk_Source = ce_Source e, tk_PGN = ce_PGN e, tk_SubKey = ce_SubKey e\<rparr>"

definition ChangeReplayer_Apply ::
  "ChangeReplayer \<Rightarrow> ChangeEvent \<Rightarrow> (ChangeReplayer \<times> (replay_error + bytes)) option" where
  "ChangeReplayer_Apply r event =
     (let key = event_key event
      in case ce_Type event of
           Snapshot \<Rightarrow>
             Some (r\<lparr>cr_state := gm_put key (ce_Data event) (cr_state r)\<rparr>, Inr (ce_Data event))
         | Delta \<Rightarrow>
             (case gm_get (cr_state r) key of
                None \<Rightarrow> Some (r, Inl DeltaWithoutSnapshot)
              | Some prev \<Rightarrow>
                  (case dm_Apply (cr_methodFor r (ce_PGN event)) prev (ce_Data event) of
                     None \<Rightarrow> None
                   | Some full \<Rightarrow>
                       Some (r\<lparr>cr_state := gm_put key full (cr_state r)\<rparr>, Inr full)))
         | Idle \<Rightarrow> Some (r, Inr [])
         | OtherEventType t \<Rightarrow> Some (r, Inl (UnknownEventType t)))"

definition ChangeReplayer_State :: "ChangeReplayer \<Rightarrow> u8 \<Rightarrow> u32 \<Rightarrow> u64 \<Rightarrow> bytes" where
  "ChangeReplayer_State r source pgnID subKey =
     (case gm_get (cr_state r) \<lparr>tk_Source = source, tk_PGN = pgnID, tk_SubKey = subKey\<rparr> of
        Some data \<Rightarrow> data
      | None \<Rightarrow> [])"

section \<open>Runs\<close>

datatype ct_input = CTFrame gotime u8 u32 bytes u64 | CTTick gotime

text \<open>A run of the tracker: the events it emits, each with the frame payload that caused it.\<close>

fun ct_run :: "registry \<Rightarrow> ChangeTracker \<Rightarrow> ct_input list \<Rightarrow> (ChangeTracker \<times> (ChangeEvent \<times> bytes) list) option" where
  "ct_run reg ct [] = Some (ct, [])"
| "ct_run reg ct (CTFrame ts src pgn data seq # ins) =
     (case ChangeTracker_Process ct ts src pgn data seq of
        None \<Rightarrow> None
      | Some (ct', ev) \<Rightarrow>
          map_option (\<lambda>(ct'', evs). (ct'', (case ev of None \<Rightarrow> [] | Some e \<Rightarrow> [(e, data)]) @ evs))
            (ct_run reg ct' ins))"
| "ct_run reg ct (CTTick now # ins) =
     (let (ct', evs) = ChangeTracker_Tick reg ct now
      in map_option (\<lambda>(ct'', evs'). (ct'', map (\<lambda>e. (e, [])) evs @ evs')) (ct_run reg ct' ins))"

text \<open>Replaying a list of events; \<open>None\<close> if one of them is refused.\<close>

fun replay_all :: "ChangeReplayer \<Rightarrow> ChangeEvent list \<Rightarrow> (ChangeReplayer \<times> bytes list) option" where
  "replay_all r [] = Some (r, [])"
| "replay_all r (e # es) =
     (case ChangeReplayer_Apply r e of
        Some (r', Inr out) \<Rightarrow> map_option (\<lambda>(r'', outs). (r'', out # outs)) (replay_all r' es)
      | _ \<Rightarrow> None)"

lemma replay_all_append:
  assumes "replay_all r es = Some (r', outs)" "replay_all r' fs = Some (r'', outs')"
  shows "replay_all r (es @ fs) = Some (r'', outs @ outs')"
  using assms
  by (induction es arbitrary: r outs) (auto split: option.splits sum.splits prod.splits)

section \<open>Replaying reconstructs the tracked state\<close>

definition in_sync :: "ChangeTracker \<Rightarrow> ChangeReplayer \<Rightarrow> bool" where
  "in_sync ct r \<longleftrightarrow> gm_get (cr_state r) = map_option tp_lastData \<circ> gm_get (ct_pairs ct)"

definition methods_agree :: "ChangeTracker \<Rightarrow> ChangeReplayer \<Rightarrow> (bytes \<Rightarrow> bool) \<Rightarrow> bool" where
  "methods_agree ct r ok \<longleftrightarrow>
     (\<forall>pgn. diff_method (dm_Diff (ct_methodFor ct pgn)) (dm_Apply (cr_methodFor r pgn)) ok)"

lemma Process_cfg: "ChangeTracker_Process ct ts src pgn data seq = Some (ct', ev) \<Longrightarrow> ct_cfg ct' = ct_cfg ct"
  by (auto simp: ChangeTracker_Process_def Let_def split: option.splits if_splits bool.splits)

lemma Apply_methods: "ChangeReplayer_Apply r e = Some (r', out) \<Longrightarrow> cr_methods r' = cr_methods r"
  by (auto simp: ChangeReplayer_Apply_def Let_def split: option.splits ChangeEventType.splits)

lemma methodFor_cong:
  "ct_cfg ct' = ct_cfg ct \<Longrightarrow> ct_methodFor ct' = ct_methodFor ct"
  "cr_methods r' = cr_methods r \<Longrightarrow> cr_methodFor r' = cr_methodFor r"
  by (auto simp: fun_eq_iff ct_methodFor_def cr_methodFor_def split: option.splits)

lemma methods_agree_cong:
  "ct_cfg ct' = ct_cfg ct \<Longrightarrow> cr_methods r' = cr_methods r \<Longrightarrow> methods_agree ct r ok \<Longrightarrow> methods_agree ct' r' ok"
  by (simp add: methods_agree_def methodFor_cong(1) [of ct' ct] methodFor_cong(2) [of r' r])

lemma Process_replay:
  assumes p: "ChangeTracker_Process ct ts src pgn data seq = Some (ct', ev)"
    and s: "in_sync ct r" and m: "methods_agree ct r ok" and ok: "ok data"
  shows "case ev of
      None \<Rightarrow> in_sync ct' r
    | Some e \<Rightarrow> \<exists>r'. ChangeReplayer_Apply r e = Some (r', Inr data) \<and> in_sync ct' r'"
proof -
  have "diff_method (dm_Diff (ct_methodFor ct pgn)) (dm_Apply (cr_methodFor r pgn)) ok"
    using m by (simp add: methods_agree_def)
  note law = diff_method.diff_apply [OF this ok]
  have st: "gm_get (cr_state r) key = map_option tp_lastData (gm_get (ct_pairs ct) key)" for key
    using s by (simp add: in_sync_def)
  show ?thesis
    using p
    by (auto simp: ChangeTracker_Process_def Let_def ChangeReplayer_Apply_def event_key_def in_sync_def st
        fun_eq_iff
        split: option.splits if_splits bool.splits dest!: law)
qed

lemma Tick_replay:
  assumes "ChangeTracker_Tick reg ct now = (ct', evs)" "in_sync ct r"
  shows "ct_cfg ct' = ct_cfg ct" "in_sync ct' r" "replay_all r evs = Some (r, map (\<lambda>_. []) evs)"
proof -
  show "ct_cfg ct' = ct_cfg ct" "in_sync ct' r"
    using assms by (auto simp: ChangeTracker_Tick_def in_sync_def fun_eq_iff gm_get_map option.map_comp o_def
        intro!: option.map_cong0)
  have "\<forall>e \<in> set evs. ce_Type e = Idle"
    using assms by (auto simp: ChangeTracker_Tick_def)
  then show "replay_all r evs = Some (r, map (\<lambda>_. []) evs)"
    by (induction evs) (auto simp: ChangeReplayer_Apply_def)
qed

fun input_ok :: "ct_input \<Rightarrow> bool" where
  "input_ok (CTFrame ts src pgn data seq) \<longleftrightarrow> mask_range data"
| "input_ok (CTTick now) \<longleftrightarrow> True"

lemma run_replay:
  assumes "ct_run reg ct ins = Some (ct', evs)" "in_sync ct r" "methods_agree ct r mask_range"
    "\<forall>i \<in> set ins. input_ok i"
  shows "\<exists>r'. replay_all r (map fst evs) = Some (r', map snd evs) \<and> in_sync ct' r'"
  using assms
proof (induction ins arbitrary: ct r evs)
  case Nil
  then show ?case by auto
next
  case (Cons i ins)
  show ?case
  proof (cases i)
    case (CTFrame ts src pgn data seq)
    obtain ct1 ev evs' where p: "ChangeTracker_Process ct ts src pgn data seq = Some (ct1, ev)"
      and run: "ct_run reg ct1 ins = Some (ct', evs')"
      and evs: "evs = (case ev of None \<Rightarrow> [] | Some e \<Rightarrow> [(e, data)]) @ evs'"
      using Cons.prems(1) CTFrame by (auto split: option.splits)
    have ok: "mask_range data" using Cons.prems(4) CTFrame by simp
    obtain r1 where r1: "replay_all r (map fst (case ev of None \<Rightarrow> [] | Some e \<Rightarrow> [(e, data)]))
        = Some (r1, map snd (case ev of None \<Rightarrow> [] | Some e \<Rightarrow> [(e, data)]))"
      "in_sync ct1 r1" "cr_methods r1 = cr_methods r"
      using Process_replay [OF p Cons.prems(2,3) ok] Apply_methods [of r]
      by (cases ev) force+
    have "methods_agree ct1 r1 mask_range"
      using methods_agree_cong [OF Process_cfg [OF p] r1(3) Cons.prems(3)] .
    then obtain r' where "replay_all r1 (map fst evs') = Some (r', map snd evs')" "in_sync ct' r'"
      using Cons.IH [OF run r1(2)] Cons.prems(4) by auto
    then show ?thesis
      using replay_all_append [OF r1(1)] evs by (metis map_append)
  next
    case (CTTick now)
    obtain ct1 es evs' where t: "ChangeTracker_Tick reg ct now = (ct1, es)"
      and run: "ct_run reg ct1 ins = Some (ct', evs')" and evs: "evs = map (\<lambda>e. (e, [])) es @ evs'"
      using Cons.prems(1) CTTick by (auto split: prod.splits)
    note T = Tick_replay [OF t Cons.prems(2)]
    obtain r' where r': "replay_all r (map fst evs') = Some (r', map snd evs')" "in_sync ct' r'"
      using Cons.IH [OF run T(2) methods_agree_cong [OF T(1) refl Cons.prems(3)]] Cons.prems(4) by auto
    have "map fst evs = es @ map fst evs'" "map snd evs = map (\<lambda>_. []) es @ map snd evs'"
      using evs by (simp_all add: o_def)
    then show ?thesis
      using replay_all_append [OF T(3) r'(1)] r'(2) by metis
  qed
qed

lemma new_methods_agree:
  assumes "cfg_DefaultMethod cfg = None"
    "\<And>pgn m. cfg_Methods cfg pgn = Some m \<Longrightarrow> diff_method (dm_Diff m) (dm_Apply m) mask_range"
  shows "methods_agree (NewChangeTracker reg cfg) (NewChangeReplayer (cfg_Methods cfg) sk) mask_range"
proof -
  have "diff_method (FieldToleranceDiff_Diff f) ByteMaskDiff_Apply mask_range" if "ft_Inner f = None" for f
    using FieldToleranceDiff_law [of f mask_range] bytemask.diff_method_axioms that
    by (simp add: ft_inner_def ByteMaskDiff_def FieldToleranceDiff_Apply_def [abs_def])
  then show ?thesis
    using assms bytemask.diff_method_axioms
    by (auto simp: methods_agree_def NewChangeTracker_def NewChangeReplayer_def ct_methodFor_def cr_methodFor_def
        FieldToleranceDiff_method_def ByteMaskDiff_def Let_def split: option.splits if_splits)
qed

section \<open>One idle event per silence\<close>

definition frame_key :: "CTConfig \<Rightarrow> u8 \<Rightarrow> u32 \<Rightarrow> bytes \<Rightarrow> trackerKey" where
  "frame_key cfg src pgn data = \<lparr>tk_Source = src, tk_PGN = pgn,
     tk_SubKey = (case cfg_SubKeys cfg pgn of Some fn \<Rightarrow> fn data | None \<Rightarrow> 0)\<rparr>"

fun not_of_key :: "CTConfig \<Rightarrow> trackerKey \<Rightarrow> ct_input \<Rightarrow> bool" where
  "not_of_key cfg k (CTFrame ts src pgn data seq) \<longleftrightarrow> frame_key cfg src pgn data \<noteq> k"
| "not_of_key cfg k (CTTick now) \<longleftrightarrow> True"

definition idle_marked :: "ChangeTracker \<Rightarrow> trackerKey \<Rightarrow> bool" where
  "idle_marked ct k \<longleftrightarrow> (\<exists>p. gm_get (ct_pairs ct) k = Some p \<and> tp_idleEmitted p) \<and> gm_wf (ct_pairs ct)"

lemma Process_other_key:
  assumes "ChangeTracker_Process ct ts src pgn data seq = Some (ct', ev)"
    and "frame_key (ct_cfg ct) src pgn data \<noteq> k"
  shows "idle_marked ct k \<Longrightarrow> idle_marked ct' k" "ev = Some e \<Longrightarrow> event_key e \<noteq> k"
  using assms
  by (auto simp: ChangeTracker_Process_def Let_def frame_key_def idle_marked_def event_key_def
      split: option.splits if_splits bool.splits)

lemma trackerKey_eta [simp]:
  "\<lparr>tk_Source = tk_Source k, tk_PGN = tk_PGN k, tk_SubKey = tk_SubKey k\<rparr> = (k :: trackerKey)"
  by simp

lemma Tick_marks:
  assumes t: "ChangeTracker_Tick reg ct now = (ct', evs)" and wf: "gm_wf (ct_pairs ct)"
  shows "idle_marked ct k \<Longrightarrow> idle_marked ct' k \<and> k \<notin> event_key ` set evs"
    and "k \<in> event_key ` set evs \<Longrightarrow> idle_marked ct' k"
proof -
  have get: "gm_get (ct_pairs ct') k =
      map_option (\<lambda>p. if idle_due reg ct now k p then p\<lparr>tp_idleEmitted := True\<rparr> else p) (gm_get (ct_pairs ct) k)"
    using t by (auto simp: ChangeTracker_Tick_def gm_get_map)
  have wf': "gm_wf (ct_pairs ct')"
    using t wf by (auto simp: ChangeTracker_Tick_def gm_wf_def o_def split_beta)
  have ev: "k \<in> event_key ` set evs \<longleftrightarrow> (\<exists>p. gm_get (ct_pairs ct) k = Some p \<and> idle_due reg ct now k p)"
    using t by (force simp: ChangeTracker_Tick_def gm_get_iff [OF wf] event_key_def image_iff)
  show "idle_marked ct k \<Longrightarrow> idle_marked ct' k \<and> k \<notin> event_key ` set evs"
    using wf' unfolding ev by (auto simp: idle_marked_def get idle_due_def)
  show "k \<in> event_key ` set evs \<Longrightarrow> idle_marked ct' k"
    using wf' unfolding ev by (auto simp: idle_marked_def get)
qed

lemma run_keeps_mark:
  assumes "ct_run reg ct ins = Some (ct', evs)" "idle_marked ct k"
    "\<forall>i \<in> set ins. not_of_key (ct_cfg ct) k i"
  shows "k \<notin> event_key ` fst ` set evs"
  using assms
proof (induction ins arbitrary: ct evs)
  case (Cons i ins)
  show ?case
  proof (cases i)
    case (CTFrame ts src pgn data seq)
    then obtain ct1 ev evs' where p: "ChangeTracker_Process ct ts src pgn data seq = Some (ct1, ev)"
      and run: "ct_run reg ct1 ins = Some (ct', evs')"
      and evs: "evs = (case ev of None \<Rightarrow> [] | Some e \<Rightarrow> [(e, data)]) @ evs'"
      using Cons.prems(1) by (auto split: option.splits)
    have ne: "frame_key (ct_cfg ct) src pgn data \<noteq> k" using Cons.prems(3) CTFrame by simp
    note P = Process_other_key [OF p ne]
    have "k \<notin> event_key ` fst ` set evs'"
      using Cons.IH [OF run P(1) [OF Cons.prems(2)]] Process_cfg [OF p] Cons.prems(3) by simp
    then show ?thesis using evs P(2) by (auto split: option.splits)
  next
    case (CTTick now)
    then obtain ct1 es evs' where t: "ChangeTracker_Tick reg ct now = (ct1, es)"
      and run: "ct_run reg ct1 ins = Some (ct', evs')" and evs: "evs = map (\<lambda>e. (e, [])) es @ evs'"
      using Cons.prems(1) by (auto split: prod.splits)
    have "gm_wf (ct_pairs ct)" using Cons.prems(2) by (simp add: idle_marked_def)
    note T = Tick_marks(1) [OF t this Cons.prems(2)]
    have "ct_cfg ct1 = ct_cfg ct" using t by (auto simp: ChangeTracker_Tick_def)
    then have "k \<notin> event_key ` fst ` set evs'"
      using Cons.IH [OF run] T Cons.prems(3) by simp
    then show ?thesis using evs T by (auto simp: image_iff)
  qed
qed simp

section \<open>Properties\<close>

text \<open>
  C31: Replaying the events of a change tracker gives back, event by event, the very payload of the
  frame that caused it (nothing for an idle event), no delta is ever refused, and afterwards the
  replayer holds the tracker's baseline of every (source, PGN, subkey). The tracker is one with the
  default diff method, with tolerance filters wired from the PGN registry and with any per-PGN
  methods that satisfy the contract of a diff method; payloads are at most 524280 bytes.
\<close>

theorem replay_reconstructs:
  assumes "cfg_DefaultMethod cfg = None"
    and "\<And>pgn m. cfg_Methods cfg pgn = Some m \<Longrightarrow> diff_method (dm_Diff m) (dm_Apply m) mask_range"
    and "\<forall>i \<in> set ins. input_ok i"
    and "ct_run reg (NewChangeTracker reg cfg) ins = Some (ct, evs)"
  shows "\<exists>r. replay_all (NewChangeReplayer (cfg_Methods cfg) sk) (map fst evs) = Some (r, map snd evs)
    \<and> in_sync ct r"
proof (rule run_replay [OF assms(4) _ new_methods_agree [OF assms(1,2)] assms(3)])
  show "in_sync (NewChangeTracker reg cfg) (NewChangeReplayer (cfg_Methods cfg) sk)"
    by (simp add: in_sync_def NewChangeTracker_def NewChangeReplayer_def Let_def fun_eq_iff)
qed

definition sample_cfg :: CTConfig where
  "sample_cfg = \<lparr>cfg_DefaultMethod = None, cfg_Methods = [127250 \<mapsto> ByteMaskDiff], cfg_SubKeys = (\<lambda>_. None),
     cfg_DefaultIdleTimeout = 0, cfg_IdleMultiplier = 0, cfg_IdleTimeouts = (\<lambda>_. None)\<rparr>"

definition sample_inputs :: "ct_input list" where
  "sample_inputs = [CTFrame 0 1 127250 [1, 2, 3] 1, CTFrame 10 1 127250 [1, 9, 3] 2, CTTick (7 * 10 ^ 9),
     CTFrame (8 * 10 ^ 9) 1 127250 [1, 9, 4] 3]"

lemma ct_sample_run:
  "map_option (\<lambda>(ct, evs). map snd evs) (ct_run (\<lambda>_. None) (NewChangeTracker (\<lambda>_. None) sample_cfg) sample_inputs)
     = Some [[1, 2, 3], [1, 9, 3], [], [1, 9, 4]]"
  by code_simp

theorem replay_reconstructs_witness:
  "\<exists>evs r. map_option snd (ct_run (\<lambda>_. None) (NewChangeTracker (\<lambda>_. None) sample_cfg) sample_inputs) = Some evs
     \<and> replay_all (NewChangeReplayer (cfg_Methods sample_cfg) (\<lambda>_. None)) (map fst evs)
       = Some (r, [[1, 2, 3], [1, 9, 3], [], [1, 9, 4]])"
proof -
  obtain ct evs where run: "ct_run (\<lambda>_. None) (NewChangeTracker (\<lambda>_. None) sample_cfg) sample_inputs = Some (ct, evs)"
    "map snd evs = [[1, 2, 3], [1, 9, 3], [], [1, 9, 4]]"
    using ct_sample_run by auto
  have m: "diff_method (dm_Diff m) (dm_Apply m) mask_range" if "cfg_Methods sample_cfg pgn = Some m" for pgn m
    using that bytemask.diff_method_axioms by (auto simp: sample_cfg_def ByteMaskDiff_def split: if_splits)
  have "\<exists>r. replay_all (NewChangeReplayer (cfg_Methods sample_cfg) (\<lambda>_. None)) (map fst evs) = Some (r, map snd evs)
      \<and> in_sync ct r"
    by (rule replay_reconstructs [OF _ m _ run(1)])
       (auto simp: sample_cfg_def sample_inputs_def mask_range_def)
  then show ?thesis using run by auto
qed

text \<open>
  C32: A silent key is reported once: after a tick has emitted an idle event for a (source, PGN,
  subkey), no later tick emits another event for it until a frame of that key arrives, whatever
  other frames are processed in between.
\<close>

theorem idle_reported_once:
  assumes "gm_wf (ct_pairs ct)" "ChangeTracker_Tick reg ct now = (ct1, evs1)"
    and "e \<in> set evs1" "ct_run reg ct1 ins = Some (ct2, evs2)"
    and "\<forall>i \<in> set ins. not_of_key (ct_cfg ct1) (event_key e) i"
  shows "event_key e \<notin> event_key ` fst ` set evs2"
  using run_keeps_mark [OF assms(4) Tick_marks(2) [OF assms(2,1)] assms(5)] assms(3) by blast

definition sample_ct :: ChangeTracker where
  "sample_ct = (case ct_run (\<lambda>_. None) (NewChangeTracker (\<lambda>_. None) sample_cfg)
     [CTFrame 0 1 127250 [1, 2, 3] 1, CTFrame 0 2 127250 [7] 2] of
     Some (ct, _) \<Rightarrow> ct | None \<Rightarrow> NewChangeTracker (\<lambda>_. None) sample_cfg)"

definition sample_idle :: ChangeEvent where
  "sample_idle = \<lparr>ce_Type = Idle, ce_Timestamp = 6 * 10 ^ 9, ce_Source = 1, ce_PGN = 127250,
     ce_SubKey = 0, ce_Seq = 0, ce_Data = []\<rparr>"

definition sample_rest :: "ct_input list" where
  "sample_rest = [CTFrame (7 * 10 ^ 9) 2 127250 [8] 3, CTTick (20 * 10 ^ 9)]"

theorem idle_reported_once_witness:
  "\<exists>evs2. map_option snd (ct_run (\<lambda>_. None) (fst (ChangeTracker_Tick (\<lambda>_. None) sample_ct (6 * 10 ^ 9))) sample_rest)
       = Some evs2
     \<and> length evs2 = 2 \<and> event_key sample_idle \<notin> event_key ` fst ` set evs2"
proof -
  let ?T = "ChangeTracker_Tick (\<lambda>_. None) sample_ct (6 * 10 ^ 9)"
  have ok: "gm_wf (ct_pairs sample_ct)" "sample_idle \<in> set (snd ?T)"
    "list_all (not_of_key (ct_cfg (fst ?T)) (event_key sample_idle)) sample_rest"
    "map_option (length \<circ> snd) (ct_run (\<lambda>_. None) (fst ?T) sample_rest) = Some 2"
    by code_simp+
  obtain ct2 evs2 where run: "ct_run (\<lambda>_. None) (fst ?T) sample_rest = Some (ct2, evs2)" "length evs2 = 2"
    using ok(4) by auto
  have "event_key sample_idle \<notin> event_key ` fst ` set evs2"
    using idle_reported_once [OF ok(1) prod.collapse [symmetric] ok(2) run(1)] ok(3)
    by (simp add: list_all_iff)
  then show ?thesis using run by auto
qed

end
