(* ===== verification/RequestRules.thy ===== *)
theory RequestRules
  imports GoStrings "HOL-Library.Sublist"
begin

text \<open>
  The declarative request engine (\<^verbatim>\<open>requestrules/requestrules.go\<close>): rules, device matching, the
  decision to request a datum, and the events a driver feeds in. \<^verbatim>\<open>e.clock()\<close> is the argument
  \<open>now\<close> of each event; a result \<open>None\<close> is an index out of range (a negative template offset). The
  field \<open>e_sent\<close> is a history variable: it records every request with its time and target, and no
  operation reads it. The theorems show the pacing the package promises over arbitrary runs, that
  the broker's PGN prefilter loses nothing, and what coming online requests.
\<close>

section \<open>Rules\<close>

record DeviceView =
  dv_Bus :: string
  dv_Source :: u8
  dv_NAMEHex :: string
  dv_Manufacturer :: string
  dv_ManufacturerCode :: u16
  dv_DeviceClass :: u8
  dv_DeviceFunction :: u8
  dv_DeviceInstance :: u8
  dv_ModelID :: string
  dv_ProductCode :: u16

record Match =
  m_Manufacturer :: string
  m_ManufacturerCode :: u16
  m_ModelID :: string
  m_DeviceClass :: "u8 option"
  m_DeviceFunction :: "u8 option"
  m_Name :: string
  m_Source :: "u8 option"
  m_Bus :: string

definition globMatch :: "string \<Rightarrow> string \<Rightarrow> bool" where
  "globMatch pattern s =
     (case CutSuffix pattern ''*'' of
        Some p \<Rightarrow> HasPrefix (ToLower s) (ToLower p)
      | None \<Rightarrow> EqualFold pattern s)"

definition Match_matches :: "Match \<Rightarrow> DeviceView \<Rightarrow> bool" where
  "Match_matches m d =
     (if m_Manufacturer m \<noteq> [] \<and> \<not> EqualFold (m_Manufacturer m) (dv_Manufacturer d) then False
      else if m_ManufacturerCode m \<noteq> 0 \<and> m_ManufacturerCode m \<noteq> dv_ManufacturerCode d then False
      else if m_ModelID m \<noteq> [] \<and> \<not> globMatch (m_ModelID m) (dv_ModelID d) then False
      else if m_DeviceClass m \<noteq> None \<and> m_DeviceClass m \<noteq> Some (dv_DeviceClass d) then False
      else if m_DeviceFunction m \<noteq> None \<and> m_DeviceFunction m \<noteq> Some (dv_DeviceFunction d) then False
      else if m_Name m \<noteq> [] \<and> \<not> EqualFold (m_Name m) (dv_NAMEHex d) then False
      else if m_Source m \<noteq> None \<and> m_Source m \<noteq> Some (dv_Source d) then False
      else if m_Bus m \<noteq> [] \<and> m_Bus m \<noteq> dv_Bus d then False
      else True)"

datatype Via = ViaISORequest | ViaFrame | OtherVia int

record Want =
  w_PGN :: u32
  w_SubKey :: u32
  w_HasSubKey :: bool

definition Want_key :: "Want \<Rightarrow> u64" where
  "Want_key w = push_bit 32 (ucast (w_PGN w)) OR ucast (w_SubKey w)"

record Rule =
  r_Name :: string
  r_Match :: Match
  r_Wants :: "Want list"
  r_Via :: Via
  r_ToDevice :: bool
  r_Dst :: u8
  r_FramePGN :: u32
  r_FramePriority :: u8
  r_FrameTemplate :: bytes
  r_SubKeyWriteOff :: int
  r_SubKeyWriteLen :: int
  r_SubKeyReadOff :: int
  r_SubKeyReadLen :: int
  r_MinInterval :: duration
  r_MaxAge :: duration
  r_OnOnline :: bool
  r_InvalidateOn :: "u32 list"

datatype rule_error = RuleNoName | RuleNoWants string | RuleMinInterval string | RuleNoFramePGN string

definition Rule_validate :: "Rule \<Rightarrow> rule_error option" where
  "Rule_validate r =
     (if r_Name r = [] then Some RuleNoName
      else if length (r_Wants r) = 0 then Some (RuleNoWants (r_Name r))
      else if r_MinInterval r \<le> 0 then Some (RuleMinInterval (r_Name r))
      else if r_Via r = ViaFrame \<and> r_FramePGN r = 0 then Some (RuleNoFramePGN (r_Name r))
      else None)"

record Request =
  rq_Bus :: string
  rq_Dst :: u8
  rq_Via :: Via
  rq_PGN :: u32
  rq_Data :: bytes
  rq_Priority :: u8
  rq_Rule :: string
  rq_Want :: Want

section \<open>The engine\<close>

record devKey =
  dk_bus :: string
  dk_src :: u8

record trackKey =
  k_rule :: nat
  k_dev :: devKey
  k_want :: u64

record trackState =
  ts_lastRequested :: gotime
  ts_lastReceived :: gotime
  ts_haveData :: bool

record Engine =
  e_globalMin :: duration
  e_lastGlobal :: gotime
  e_rules :: "Rule list"
  e_byInvalidate :: "(u32, nat list) gomap"
  e_devices :: "(devKey, DeviceView) gomap"
  e_track :: "(trackKey, trackState) gomap"
  e_sent :: "(gotime \<times> trackKey \<times> Request) list"

definition NewEngine :: "duration \<Rightarrow> Engine" where
  "NewEngine globalMin = \<lparr>e_globalMin = globalMin, e_lastGlobal = zeroTime, e_rules = [],
     e_byInvalidate = [], e_devices = [], e_track = [], e_sent = []\<rparr>"

definition AddRule :: "Engine \<Rightarrow> Rule \<Rightarrow> rule_error + Engine" where
  "AddRule e r =
     (case Rule_validate r of
        Some err \<Rightarrow> Inl err
      | None \<Rightarrow>
          (let idx = length (e_rules e)
           in Inr (e\<lparr>e_rules := e_rules e @ [r],
                     e_byInvalidate := fold (\<lambda>p m.
                       gm_put p ((case gm_get m p of Some is \<Rightarrow> is | None \<Rightarrow> []) @ [idx]) m)
                       (r_InvalidateOn r) (e_byInvalidate e)\<rparr>)))"

definition stateFor :: "Engine \<Rightarrow> nat \<Rightarrow> devKey \<Rightarrow> Want \<Rightarrow> Engine \<times> trackState" where
  "stateFor e idx dk w =
     (let k = \<lparr>k_rule = idx, k_dev = dk, k_want = Want_key w\<rparr>
      in case gm_get (e_track e) k of
           Some ts \<Rightarrow> (e, ts)
         | None \<Rightarrow>
             (let ts = \<lparr>ts_lastRequested = zeroTime, ts_lastReceived = zeroTime, ts_haveData = False\<rparr>
              in (e\<lparr>e_track := gm_put k ts (e_track e)\<rparr>, ts)))"

text \<open>The loop of \<^verbatim>\<open>writeLE\<close>, from index \<open>i\<close>, with \<open>n\<close> rounds left.\<close>

fun writeLE_loop :: "bytes \<Rightarrow> int \<Rightarrow> nat \<Rightarrow> nat \<Rightarrow> u32 \<Rightarrow> bytes option" where
  "writeLE_loop b off i 0 v = Some b"
| "writeLE_loop b off i (Suc n) v =
     (let j = i64_wrap (off + int i)
      in if \<not> j < int (length b) then Some b
         else if j < 0 then None
         else writeLE_loop (b[nat j := ucast (drop_bit (8 * i) v)]) off (Suc i) n v)"

definition writeLE :: "bytes \<Rightarrow> int \<Rightarrow> int \<Rightarrow> u32 \<Rightarrow> bytes option" where
  "writeLE b off len v = writeLE_loop b off 0 (nat len) v"

definition readLE :: "bytes \<Rightarrow> int \<Rightarrow> int \<Rightarrow> (u32 \<times> bool) option" where
  "readLE b off len =
     (if len \<le> 0 \<or> len > 4 \<or> off < 0 \<or> i64_wrap (off + len) > int (length b) then Some (0, False)
      else if off + len > int (length b) then None
      else
        let tail = drop (nat off) b
        in if len = 1 then Some (ucast (tail ! 0), True)
           else if len = 2 then Some (ucast (LE_Uint16 (take 2 tail)), True)
           else Some (LE_Uint32 (go_copy [0, 0, 0, 0] (take (nat len) tail)), True))"

definition wantMatchesFrame :: "Rule \<Rightarrow> Want \<Rightarrow> u32 \<Rightarrow> bytes \<Rightarrow> bool option" where
  "wantMatchesFrame r w pgn data =
     (case r_Via r of
        ViaISORequest \<Rightarrow> Some (w_PGN w = pgn)
      | ViaFrame \<Rightarrow>
          if pgn \<noteq> r_FramePGN r then Some False
          else if \<not> w_HasSubKey w \<or> r_SubKeyReadLen r = 0 then Some True
          else map_option (\<lambda>(got, ok). ok \<and> got = w_SubKey w)
                 (readLE data (r_SubKeyReadOff r) (r_SubKeyReadLen r))
      | OtherVia _ \<Rightarrow> Some False)"

definition build :: "Rule \<Rightarrow> DeviceView \<Rightarrow> Want \<Rightarrow> Request option" where
  "build r d w =
     (let dst = (if r_ToDevice r then dv_Source d else if r_Dst r = 0 then 0xFF else r_Dst r);
          req = \<lparr>rq_Bus = dv_Bus d, rq_Dst = dst, rq_Via = r_Via r, rq_PGN = 0, rq_Data = [],
                 rq_Priority = r_FramePriority r, rq_Rule = r_Name r, rq_Want = w\<rparr>
      in case r_Via r of
           ViaISORequest \<Rightarrow> Some (req\<lparr>rq_PGN := w_PGN w\<rparr>)
         | ViaFrame \<Rightarrow>
             map_option (\<lambda>payload. req\<lparr>rq_PGN := r_FramePGN r, rq_Data := payload\<rparr>)
               (if w_HasSubKey w \<and> r_SubKeyWriteLen r > 0
                then writeLE (r_FrameTemplate r) (r_SubKeyWriteOff r) (r_SubKeyWriteLen r) (w_SubKey w)
                else Some (r_FrameTemplate r))
         | OtherVia _ \<Rightarrow> Some req)"

definition Engine_consider ::
  "Engine \<Rightarrow> nat \<Rightarrow> Rule \<Rightarrow> DeviceView \<Rightarrow> Want \<Rightarrow> gotime \<Rightarrow> (Engine \<times> Request option) option" where
  "Engine_consider e idx r d w now =
     (let dk = \<lparr>dk_bus = dv_Bus d, dk_src = dv_Source d\<rparr>;
          k = \<lparr>k_rule = idx, k_dev = dk, k_want = Want_key w\<rparr>;
          (e1, ts) = stateFor e idx dk w
      in if \<not> IsZero (ts_lastRequested ts) \<and> time_Sub now (ts_lastRequested ts) < r_MinInterval r
         then Some (e1, None)
         else if ts_haveData ts \<and> (r_MaxAge r \<le> 0 \<or> time_Sub now (ts_lastReceived ts) < r_MaxAge r)
         then Some (e1, None)
         else if e_globalMin e1 > 0 \<and> \<not> IsZero (e_lastGlobal e1) \<and>
                 time_Sub now (e_lastGlobal e1) < e_globalMin e1
         then Some (e1, None)
         else case build r d w of
                None \<Rightarrow> None
              | Some req \<Rightarrow>
                  Some (e1\<lparr>e_track := gm_put k (ts\<lparr>ts_lastRequested := now\<rparr>) (e_track e1),
                           e_lastGlobal := now,
                           e_sent := e_sent e1 @ [(now, k, req)]\<rparr>,
                        Some req))"

text \<open>The bodies of the loops: the engine and the requests collected so far.\<close>

definition consider_into ::
  "nat \<Rightarrow> Rule \<Rightarrow> DeviceView \<Rightarrow> gotime \<Rightarrow> Want \<Rightarrow> Engine \<times> Request list \<Rightarrow> (Engine \<times> Request list) option" where
  "consider_into idx r d now w = (\<lambda>(e, out).
     case Engine_consider e idx r d w now of
       None \<Rightarrow> None
     | Some (e', None) \<Rightarrow> Some (e', out)
     | Some (e', Some req) \<Rightarrow> Some (e', out @ [req]))"

definition OnDeviceOnline :: "Engine \<Rightarrow> gotime \<Rightarrow> DeviceView \<Rightarrow> (Engine \<times> Request list) option" where
  "OnDeviceOnline e now d =
     (let e1 = e\<lparr>e_devices := gm_put \<lparr>dk_bus = dv_Bus d, dk_src = dv_Source d\<rparr> d (e_devices e)\<rparr>
      in fold_opt (\<lambda>(idx, r) st.
             if \<not> r_OnOnline r \<or> \<not> Match_matches (r_Match r) d then Some st
             else fold_opt (consider_into idx r d now) (r_Wants r) st)
           (List.enumerate 0 (e_rules e1)) (e1, []))"

definition InterestingPGNs :: "Engine \<Rightarrow> u32 set" where
  "InterestingPGNs e =
     fold (\<lambda>r s. fold insert (r_InvalidateOn r)
            (fold (\<lambda>w s. if r_Via r = ViaFrame then insert (r_FramePGN r) s else insert (w_PGN w) s)
               (r_Wants r) s))
       (e_rules e) {}"

definition OnDeviceOffline :: "Engine \<Rightarrow> string \<Rightarrow> u8 \<Rightarrow> Engine" where
  "OnDeviceOffline e bus src =
     (let dk = \<lparr>dk_bus = bus, dk_src = src\<rparr>
      in e\<lparr>e_devices := gm_del dk (e_devices e), e_track := gm_del_if (\<lambda>k _. k_dev k = dk) (e_track e)\<rparr>)"

definition mark_fresh ::
  "nat \<Rightarrow> Rule \<Rightarrow> devKey \<Rightarrow> u32 \<Rightarrow> bytes \<Rightarrow> gotime \<Rightarrow> Want \<Rightarrow> Engine \<Rightarrow> Engine option" where
  "mark_fresh idx r dk pgn data now w e =
     (case wantMatchesFrame r w pgn data of
        None \<Rightarrow> None
      | Some False \<Rightarrow> Some e
      | Some True \<Rightarrow>
          (let (e1, ts) = stateFor e idx dk w
           in Some (e1\<lparr>e_track := gm_put \<lparr>k_rule = idx, k_dev = dk, k_want = Want_key w\<rparr>
                          (ts\<lparr>ts_haveData := True, ts_lastReceived := now\<rparr>) (e_track e1)\<rparr>)))"

definition invalidate_into ::
  "nat \<Rightarrow> Rule \<Rightarrow> devKey \<Rightarrow> DeviceView \<Rightarrow> gotime \<Rightarrow> Want \<Rightarrow> Engine \<times> Request list \<Rightarrow> (Engine \<times> Request list) option" where
  "invalidate_into idx r dk d now w = (\<lambda>(e, out).
     let (e1, ts) = stateFor e idx dk w;
         e2 = e1\<lparr>e_track := gm_put \<lparr>k_rule = idx, k_dev = dk, k_want = Want_key w\<rparr>
                   (ts\<lparr>ts_haveData := False\<rparr>) (e_track e1)\<rparr>
     in consider_into idx r d now w (e2, out))"

definition OnFrame ::
  "Engine \<Rightarrow> gotime \<Rightarrow> string \<Rightarrow> u8 \<Rightarrow> u32 \<Rightarrow> bytes \<Rightarrow> (Engine \<times> Request list) option" where
  "OnFrame e now bus src pgn data =
     (let dk = \<lparr>dk_bus = bus, dk_src = src\<rparr>
      in case gm_get (e_devices e) dk of
           None \<Rightarrow> Some (e, [])
         | Some d \<Rightarrow>
             (case fold_opt (\<lambda>(idx, r) e.
                       if \<not> Match_matches (r_Match r) d then Some e
                       else fold_opt (mark_fresh idx r dk pgn data now) (r_Wants r) e)
                     (List.enumerate 0 (e_rules e)) e of
                None \<Rightarrow> None
              | Some e1 \<Rightarrow>
                  fold_opt (\<lambda>idx st.
                      if idx < length (e_rules e1) then
                        let r = e_rules e1 ! idx
                        in if \<not> Match_matches (r_Match r) d then Some st
                           else fold_opt (invalidate_into idx r dk d now) (r_Wants r) st
                      else None)
                    (case gm_get (e_byInvalidate e1) pgn of Some is \<Rightarrow> is | None \<Rightarrow> []) (e1, [])))"

definition Engine_Tick :: "Engine \<Rightarrow> gotime \<Rightarrow> (Engine \<times> Request list) option" where
  "Engine_Tick e now =
     fold_opt (\<lambda>(idx, r) st.
         if r_MaxAge r \<le> 0 \<and> \<not> r_OnOnline r then Some st
         else fold_opt (\<lambda>(dk, d) st.
                  if \<not> Match_matches (r_Match r) d then Some st
                  else fold_opt (consider_into idx r d now) (r_Wants r) st)
                (e_devices e) st)
       (List.enumerate 0 (e_rules e)) (e, [])"

section \<open>Pacing\<close>

text \<open>
  The pacing of one target between two states: the requests sent in between, preceded by the last
  request before, keep their distance, and the engine remembers the last of them. A zero time is
  Go's "never". The same relation serves the targets and the global floor.
\<close>

definition last_req :: "Engine \<Rightarrow> trackKey \<Rightarrow> gotime" where
  "last_req e k = (case gm_get (e_track e) k of Some ts \<Rightarrow> ts_lastRequested ts | None \<Rightarrow> zeroTime)"

definition apart :: "duration \<Rightarrow> gotime \<Rightarrow> gotime \<Rightarrow> bool" where
  "apart d t u \<longleftrightarrow> IsZero t \<or> time_Sub u t \<ge> d"

definition times_of :: "trackKey \<Rightarrow> (gotime \<times> trackKey \<times> Request) list \<Rightarrow> gotime list" where
  "times_of k l = map fst (filter (\<lambda>x. fst (snd x) = k) l)"

lemma times_of_simps [simp]:
  "times_of k [] = []" "times_of k (xs @ ys) = times_of k xs @ times_of k ys"
  "times_of k [(t, k', q)] = (if k' = k then [t] else [])"
  by (auto simp: times_of_def)

definition paced_target :: "trackKey \<Rightarrow> Engine \<Rightarrow> Engine \<Rightarrow> bool" where
  "paced_target k e e' \<longleftrightarrow> e_rules e' = e_rules e \<and> (\<exists>new. e_sent e' = e_sent e @ new \<and>
     (times_of k new \<noteq> [] \<longrightarrow> k_rule k < length (e_rules e)) \<and>
     paced_by (apart (r_MinInterval (e_rules e ! k_rule k))) (last_req e k) (times_of k new) (last_req e' k))"

definition paced_global :: "Engine \<Rightarrow> Engine \<Rightarrow> bool" where
  "paced_global e e' \<longleftrightarrow> e_globalMin e' = e_globalMin e \<and> (\<exists>new. e_sent e' = e_sent e @ new \<and>
     paced_by (\<lambda>t u. e_globalMin e > 0 \<longrightarrow> apart (e_globalMin e) t u)
       (e_lastGlobal e) (map fst new) (e_lastGlobal e'))"

lemma paced_target_refl: "paced_target k e e"
  by (auto simp: paced_target_def)

lemma paced_target_trans:
  assumes "paced_target k e f" "paced_target k f g"
  shows "paced_target k e g"
proof -
  let ?R = "apart (r_MinInterval (e_rules e ! k_rule k))"
  obtain a b where ab: "e_sent f = e_sent e @ a" "e_sent g = e_sent f @ b"
      "times_of k a \<noteq> [] \<longrightarrow> k_rule k < length (e_rules e)"
      "times_of k b \<noteq> [] \<longrightarrow> k_rule k < length (e_rules e)"
      "paced_by ?R (last_req e k) (times_of k a) (last_req f k)"
      "paced_by ?R (last_req f k) (times_of k b) (last_req g k)"
    and r: "e_rules g = e_rules e"
    using assms unfolding paced_target_def by metis
  show ?thesis
    unfolding paced_target_def
    using ab(1-4) r paced_by_append [OF ab(5,6)] by (intro conjI exI [of _ "a @ b"]) auto
qed

lemma paced_global_refl: "paced_global e e"
  by (auto simp: paced_global_def)

lemma paced_global_trans:
  assumes "paced_global e f" "paced_global f g"
  shows "paced_global e g"
proof -
  let ?R = "\<lambda>t u. e_globalMin e > 0 \<longrightarrow> apart (e_globalMin e) t u"
  obtain a b where ab: "e_sent f = e_sent e @ a" "e_sent g = e_sent f @ b"
      "paced_by ?R (e_lastGlobal e) (map fst a) (e_lastGlobal f)"
      "paced_by ?R (e_lastGlobal f) (map fst b) (e_lastGlobal g)"
    and m: "e_globalMin g = e_globalMin e"
    using assms unfolding paced_global_def by metis
  show ?thesis
    unfolding paced_global_def
    using ab(1,2) m paced_by_append [OF ab(3,4)] by (intro conjI exI [of _ "a @ b"]) auto
qed

text \<open>What every operation on the tracking state keeps: nothing is sent and no time is changed.\<close>

definition quiet :: "Engine \<Rightarrow> Engine \<Rightarrow> bool" where
  "quiet e e' \<longleftrightarrow> e_rules e' = e_rules e \<and> e_globalMin e' = e_globalMin e \<and> e_lastGlobal e' = e_lastGlobal e
     \<and> e_sent e' = e_sent e \<and> last_req e' = last_req e \<and> e_byInvalidate e' = e_byInvalidate e
     \<and> e_devices e' = e_devices e"

lemma quiet_paced: "quiet e e' \<Longrightarrow> paced_target k e e'" "quiet e e' \<Longrightarrow> paced_global e e'"
  by (auto simp: quiet_def paced_target_def paced_global_def)

lemma quiet_refl: "quiet e e"
  by (simp add: quiet_def)

lemma quiet_trans: "quiet e f \<Longrightarrow> quiet f g \<Longrightarrow> quiet e g"
  by (simp add: quiet_def)

lemma last_req_put [simp]:
  "last_req (e\<lparr>e_track := gm_put k ts (e_track e)\<rparr>) = (last_req e)(k := ts_lastRequested ts)"
  by (auto simp: last_req_def fun_eq_iff)

lemma stateFor_quiet:
  assumes "stateFor e idx dk w = (e1, ts)"
  shows "quiet e e1" "ts_lastRequested ts = last_req e \<lparr>k_rule = idx, k_dev = dk, k_want = Want_key w\<rparr>"
proof -
  let ?k = "\<lparr>k_rule = idx, k_dev = dk, k_want = Want_key w\<rparr>"
  show "quiet e e1"
  proof (cases "gm_get (e_track e) ?k")
    case None
    then have "last_req e ?k = zeroTime" by (simp add: last_req_def)
    then show ?thesis using assms None by (auto simp: stateFor_def quiet_def Let_def)
  qed (use assms in \<open>auto simp: stateFor_def quiet_def Let_def\<close>)
  show "ts_lastRequested ts = last_req e ?k"
    using assms by (auto simp: stateFor_def Let_def last_req_def split: option.splits)
qed

lemma stateFor_put_quiet:
  assumes s: "stateFor e idx dk w = (e1, ts)" and ts: "ts_lastRequested ts' = ts_lastRequested ts"
  shows "quiet e (e1\<lparr>e_track := gm_put \<lparr>k_rule = idx, k_dev = dk, k_want = Want_key w\<rparr> ts' (e_track e1)\<rparr>)"
proof (rule quiet_trans [OF stateFor_quiet(1) [OF s]])
  have "last_req e1 = last_req e" using stateFor_quiet(1) [OF s] by (simp add: quiet_def)
  then have "ts_lastRequested ts' = last_req e1 \<lparr>k_rule = idx, k_dev = dk, k_want = Want_key w\<rparr>"
    using stateFor_quiet(2) [OF s] ts by simp
  then show "quiet e1 (e1\<lparr>e_track := gm_put \<lparr>k_rule = idx, k_dev = dk, k_want = Want_key w\<rparr> ts' (e_track e1)\<rparr>)"
    by (simp add: quiet_def)
qed

text \<open>The two outcomes of a decision: nothing happens, or the request is allowed and recorded.\<close>

definition sends :: "Engine \<Rightarrow> trackKey \<Rightarrow> Rule \<Rightarrow> gotime \<Rightarrow> Request \<Rightarrow> Engine \<Rightarrow> bool" where
  "sends e k r now req e' \<longleftrightarrow>
     e_rules e' = e_rules e \<and> e_globalMin e' = e_globalMin e \<and> e_lastGlobal e' = now
     \<and> e_sent e' = e_sent e @ [(now, k, req)] \<and> last_req e' = (last_req e)(k := now)
     \<and> e_byInvalidate e' = e_byInvalidate e \<and> e_devices e' = e_devices e
     \<and> apart (r_MinInterval r) (last_req e k) now
     \<and> (e_globalMin e > 0 \<longrightarrow> apart (e_globalMin e) (e_lastGlobal e) now)"

definition target :: "nat \<Rightarrow> DeviceView \<Rightarrow> Want \<Rightarrow> trackKey" where
  "target idx d w = \<lparr>k_rule = idx, k_dev = \<lparr>dk_bus = dv_Bus d, dk_src = dv_Source d\<rparr>, k_want = Want_key w\<rparr>"

lemma consider_cases:
  assumes c: "Engine_consider e idx r d w now = Some (e', q)"
  shows "case q of None \<Rightarrow> quiet e e' | Some req \<Rightarrow> sends e (target idx d w) r now req e' \<and> build r d w = Some req"
proof -
  let ?dk = "\<lparr>dk_bus = dv_Bus d, dk_src = dv_Source d\<rparr>"
  obtain e1 ts where s: "stateFor e idx ?dk w = (e1, ts)" by force
  note S = stateFor_quiet [OF s]
  note Q = S(1) [unfolded quiet_def]
  note C = c [unfolded Engine_consider_def Let_def s prod.case]
  have lr: "last_req (f\<lparr>e_track := t, e_lastGlobal := x, e_sent := y\<rparr>) = last_req (f\<lparr>e_track := t\<rparr>)" for f t x y
    by (simp add: last_req_def fun_eq_iff)
  show ?thesis
    using C Q S by (auto simp: sends_def target_def apart_def lr split: if_splits option.splits)
qed

lemma sends_paced:
  assumes "sends e k r now req e'"
  shows "k_rule k < length (e_rules e) \<Longrightarrow> r = e_rules e ! k_rule k \<Longrightarrow> paced_target k' e e'"
    and "paced_global e e'"
  using assms unfolding sends_def paced_target_def paced_global_def
  by (auto intro!: exI [of _ "[(now, k, req)]"])

text \<open>
  One relation for every loop of the engine: from a state with the rules \<open>rs\<close>, the target \<open>k\<close> and
  the global floor keep their pace and the requests returned are the requests recorded.
\<close>

definition advances :: "Rule list \<Rightarrow> trackKey \<Rightarrow> Engine \<times> Request list \<Rightarrow> Engine \<times> Request list \<Rightarrow> bool" where
  "advances rs k st st' \<longleftrightarrow> (e_rules (fst st) = rs \<longrightarrow>
     paced_target k (fst st) (fst st') \<and> paced_global (fst st) (fst st') \<and>
     (\<exists>new. e_sent (fst st') = e_sent (fst st) @ new \<and> snd st' = snd st @ map (\<lambda>x. snd (snd x)) new) \<and>
     e_byInvalidate (fst st') = e_byInvalidate (fst st))"

lemma advances_refl: "advances rs k st st"
  by (simp add: advances_def paced_target_refl paced_global_refl)

lemma advances_trans:
  assumes "advances rs k s t" "advances rs k t u"
  shows "advances rs k s u"
  unfolding advances_def
proof (intro impI)
  assume rs: "e_rules (fst s) = rs"
  then have rt: "e_rules (fst t) = rs"
    using assms(1) by (auto simp: advances_def paced_target_def)
  note A = assms(1) [unfolded advances_def, rule_format, OF rs]
    and B = assms(2) [unfolded advances_def, rule_format, OF rt]
  obtain a b where "e_sent (fst t) = e_sent (fst s) @ a" "snd t = snd s @ map (\<lambda>x. snd (snd x)) a"
    "e_sent (fst u) = e_sent (fst t) @ b" "snd u = snd t @ map (\<lambda>x. snd (snd x)) b"
    using A B by blast
  then have "\<exists>new. e_sent (fst u) = e_sent (fst s) @ new \<and> snd u = snd s @ map (\<lambda>x. snd (snd x)) new"
    by (intro exI [of _ "a @ b"]) simp
  then show "paced_target k (fst s) (fst u) \<and> paced_global (fst s) (fst u) \<and>
      (\<exists>new. e_sent (fst u) = e_sent (fst s) @ new \<and> snd u = snd s @ map (\<lambda>x. snd (snd x)) new) \<and>
      e_byInvalidate (fst u) = e_byInvalidate (fst s)"
    using A B by (simp add: paced_target_trans [of k "fst s" "fst t" "fst u"]
        paced_global_trans [of "fst s" "fst t" "fst u"])
qed

lemma advances_fold:
  assumes "fold_opt f xs s = Some s'"
    and "\<And>x s s'. x \<in> set xs \<Longrightarrow> f x s = Some s' \<Longrightarrow> advances rs k s s'"
  shows "advances rs k s s'"
  using assms(1) by (rule fold_opt_rel) (blast intro: advances_refl advances_trans assms(2))+

lemma quiet_advances: "quiet e e' \<Longrightarrow> advances rs k (e, out) (e', out)"
  using quiet_paced [of e e'] by (simp add: advances_def quiet_def)

lemma consider_into_advances:
  assumes "consider_into idx r d now w st = Some st'" "idx < length rs" "r = rs ! idx"
  shows "advances rs k st st'"
proof -
  obtain e out where st: "st = (e, out)" by force
  obtain e' q where c: "Engine_consider e idx r d w now = Some (e', q)"
    and st': "st' = (e', out @ (case q of None \<Rightarrow> [] | Some req \<Rightarrow> [req]))"
    using assms(1) st by (auto simp: consider_into_def split: option.splits)
  show ?thesis
  proof (cases q)
    case None
    then show ?thesis using consider_cases [OF c] st st' quiet_advances by simp
  next
    case (Some req)
    then have s: "sends e (target idx d w) r now req e'"
      using consider_cases [OF c] by simp
    have "paced_target k e e'" if "e_rules e = rs"
      using sends_paced(1) [OF s] that assms(2,3) by (simp add: target_def)
    then show ?thesis
      using sends_paced(2) [OF s] s Some st st' by (simp add: advances_def sends_def)
  qed
qed

lemma wants_advances:
  "fold_opt (consider_into idx r d now) ws s = Some s' \<Longrightarrow> idx < length rs \<Longrightarrow> r = rs ! idx \<Longrightarrow> advances rs k s s'"
  by (erule advances_fold) (rule consider_into_advances)

lemma enumerate_in: "(idx, r) \<in> set (List.enumerate 0 rs) \<Longrightarrow> idx < length rs \<and> r = rs ! idx"
  by (simp add: in_set_enumerate_eq)

lemma OnDeviceOnline_advances:
  assumes "OnDeviceOnline e now d = Some st" "e_rules e = rs"
  shows "advances rs k (e, []) st"
proof (rule advances_trans)
  let ?e1 = "e\<lparr>e_devices := gm_put \<lparr>dk_bus = dv_Bus d, dk_src = dv_Source d\<rparr> d (e_devices e)\<rparr>"
  have "last_req ?e1 = last_req e" by (simp add: last_req_def fun_eq_iff)
  then show "advances rs k (e, []) (?e1, [])"
    by (simp add: advances_def paced_target_def paced_global_def)
  show "advances rs k (?e1, []) st"
    using assms(1) unfolding OnDeviceOnline_def Let_def
  proof (rule advances_fold)
    fix x s s'
    assume x: "x \<in> set (List.enumerate 0 (e_rules ?e1))"
      and s: "(case x of (idx, r) \<Rightarrow> \<lambda>st. if \<not> r_OnOnline r \<or> \<not> Match_matches (r_Match r) d then Some st
                else fold_opt (consider_into idx r d now) (r_Wants r) st) s = Some s'"
    show "advances rs k s s'"
      using s x assms(2)
      by (auto simp: advances_refl split: prod.splits if_splits dest: enumerate_in intro: wants_advances)
  qed
qed

lemma Tick_advances:
  assumes "Engine_Tick e now = Some st" "e_rules e = rs"
  shows "advances rs k (e, []) st"
  using assms(1) unfolding Engine_Tick_def
proof (rule advances_fold)
  fix x s s'
  assume x: "x \<in> set (List.enumerate 0 (e_rules e))"
    and s: "(case x of (idx, r) \<Rightarrow> \<lambda>st. if r_MaxAge r \<le> 0 \<and> \<not> r_OnOnline r then Some st
         else fold_opt (\<lambda>(dk, d) st. if \<not> Match_matches (r_Match r) d then Some st
                  else fold_opt (consider_into idx r d now) (r_Wants r) st) (e_devices e) st) s = Some s'"
  obtain idx r where xr: "x = (idx, r)" by force
  then have ok: "idx < length rs" "r = rs ! idx"
    using x assms(2) by (auto dest: enumerate_in)
  have inner: "advances rs k s s'"
    if "fold_opt (\<lambda>(dk, d) st. if \<not> Match_matches (r_Match r) d then Some st
                  else fold_opt (consider_into idx r d now) (r_Wants r) st) (e_devices e) s = Some s'"
    using that
  proof (rule advances_fold)
    fix y t t'
    assume "(case y of (dk, d) \<Rightarrow> \<lambda>st. if \<not> Match_matches (r_Match r) d then Some st
                  else fold_opt (consider_into idx r d now) (r_Wants r) st) t = Some t'"
    then show "advances rs k t t'"
      using ok by (auto simp: advances_refl split: prod.splits if_splits intro: wants_advances)
  qed
  then show "advances rs k s s'"
    using s xr by (auto simp: advances_refl split: if_splits)
qed

lemma mark_fresh_quiet: "mark_fresh idx r dk pgn data now w e = Some e' \<Longrightarrow> quiet e e'"
  by (auto simp: mark_fresh_def Let_def quiet_refl split: option.splits bool.splits prod.splits
      intro: stateFor_put_quiet)

lemma quiet_fold:
  assumes "fold_opt f xs e = Some e'" "\<And>x e e'. x \<in> set xs \<Longrightarrow> f x e = Some e' \<Longrightarrow> quiet e e'"
  shows "quiet e e'"
  using assms(1) by (rule fold_opt_rel) (blast intro: quiet_refl quiet_trans assms(2))+

lemma fresh_loop_quiet:
  assumes "fold_opt (\<lambda>(idx, r) e. if \<not> Match_matches (r_Match r) d then Some e
      else fold_opt (mark_fresh idx r dk pgn data now) (r_Wants r) e) xs e = Some e'"
  shows "quiet e e'"
  using assms by (rule quiet_fold)
    (auto simp: quiet_refl split: prod.splits if_splits intro: quiet_fold mark_fresh_quiet)

lemma invalidate_advances:
  assumes "invalidate_into idx r dk d now w st = Some st'" "idx < length rs" "r = rs ! idx"
  shows "advances rs k st st'"
proof -
  obtain e out where st: "st = (e, out)" by force
  obtain e1 ts where s: "stateFor e idx dk w = (e1, ts)" by force
  let ?e2 = "e1\<lparr>e_track := gm_put \<lparr>k_rule = idx, k_dev = dk, k_want = Want_key w\<rparr>
                   (ts\<lparr>ts_haveData := False\<rparr>) (e_track e1)\<rparr>"
  have "quiet e ?e2" by (rule stateFor_put_quiet [OF s]) simp
  moreover have "consider_into idx r d now w (?e2, out) = Some st'"
    using assms(1) by (simp add: invalidate_into_def st s)
  ultimately show ?thesis
    using advances_trans quiet_advances consider_into_advances assms(2,3) unfolding st by blast
qed

lemma OnFrame_advances:
  assumes "OnFrame e now bus src pgn data = Some st" "e_rules e = rs"
  shows "advances rs k (e, []) st"
proof (cases "gm_get (e_devices e) \<lparr>dk_bus = bus, dk_src = src\<rparr>")
  case None
  then show ?thesis using assms(1) by (simp add: OnFrame_def advances_refl)
next
  case (Some d)
  let ?dk = "\<lparr>dk_bus = bus, dk_src = src\<rparr>"
  obtain e1 where fresh: "quiet e e1"
    and loop: "fold_opt (\<lambda>idx st. if idx < length (e_rules e1) then
                        let r = e_rules e1 ! idx
                        in if \<not> Match_matches (r_Match r) d then Some st
                           else fold_opt (invalidate_into idx r ?dk d now) (r_Wants r) st
                      else None)
                    (case gm_get (e_byInvalidate e1) pgn of Some is \<Rightarrow> is | None \<Rightarrow> []) (e1, []) = Some st"
    using assms(1) Some by (auto simp: OnFrame_def Let_def split: option.splits dest: fresh_loop_quiet)
  have rs: "e_rules e1 = rs" using fresh assms(2) by (simp add: quiet_def)
  have "advances rs k (e1, []) st"
    using loop
    by (rule advances_fold)
       (auto simp: rs advances_refl Let_def split: if_splits intro: advances_fold invalidate_advances)
  then show ?thesis using advances_trans quiet_advances [OF fresh] by blast
qed

section \<open>Runs\<close>

datatype rr_event =
  Online DeviceView | Offline string u8 | FrameIn string u8 u32 bytes | ClockTick

fun rr_step :: "gotime \<times> rr_event \<Rightarrow> Engine \<times> Request list \<Rightarrow> (Engine \<times> Request list) option" where
  "rr_step (now, Online d) (e, out) = map_option (\<lambda>(e', q). (e', out @ q)) (OnDeviceOnline e now d)"
| "rr_step (now, Offline bus src) (e, out) = Some (OnDeviceOffline e bus src, out)"
| "rr_step (now, FrameIn bus src pgn data) (e, out) =
     map_option (\<lambda>(e', q). (e', out @ q)) (OnFrame e now bus src pgn data)"
| "rr_step (now, ClockTick) (e, out) = map_option (\<lambda>(e', q). (e', out @ q)) (Engine_Tick e now)"

text \<open>A run of the engine: the requests it returned, in order.\<close>

definition rr_run :: "Engine \<Rightarrow> (gotime \<times> rr_event) list \<Rightarrow> (Engine \<times> Request list) option" where
  "rr_run e evs = fold_opt rr_step evs (e, [])"

definition goes_offline :: "devKey \<Rightarrow> gotime \<times> rr_event \<Rightarrow> bool" where
  "goes_offline dk x = (case snd x of Offline bus src \<Rightarrow> dk = \<lparr>dk_bus = bus, dk_src = src\<rparr> | _ \<Rightarrow> False)"

lemma advances_shift: "advances rs k (e, []) (e', q) \<Longrightarrow> advances rs k (e, out) (e', out @ q)"
  by (simp add: advances_def)

lemma Offline_other:
  assumes "k_dev k \<noteq> \<lparr>dk_bus = bus, dk_src = src\<rparr>"
  shows "advances rs k (e, out) (OnDeviceOffline e bus src, out)"
proof -
  have "last_req (OnDeviceOffline e bus src) k = last_req e k"
    using assms by (simp add: last_req_def OnDeviceOffline_def Let_def gm_get_del_if_key)
  then show ?thesis
    by (simp add: advances_def paced_target_def paced_global_def OnDeviceOffline_def Let_def)
qed

lemma rr_step_advances:
  assumes "rr_step x st = Some st'" "\<not> goes_offline (k_dev k) x"
  shows "advances rs k st st'"
proof (cases "e_rules (fst st) = rs")
  case rs: True
  obtain now ev e out where x: "x = (now, ev)" "st = (e, out)" by (cases x, cases st) auto
  show ?thesis
  proof (cases ev)
    case (Online d)
    then show ?thesis using assms(1) rs x by (auto intro!: advances_shift OnDeviceOnline_advances)
  next
    case (Offline bus src)
    then show ?thesis using assms x Offline_other [of k bus src] by (auto simp: goes_offline_def)
  next
    case (FrameIn bus src pgn data)
    then show ?thesis using assms(1) rs x by (auto intro!: advances_shift OnFrame_advances)
  next
    case ClockTick
    then show ?thesis using assms(1) rs x by (auto intro!: advances_shift Tick_advances)
  qed
qed (simp add: advances_def)

lemma rr_run_advances:
  assumes "rr_run e evs = Some st" "\<forall>x \<in> set evs. \<not> goes_offline (k_dev k) x"
  shows "advances rs k (e, []) st"
  using assms unfolding rr_run_def by (auto intro: advances_fold rr_step_advances)

lemma rr_step_global:
  assumes "rr_step x st = Some st'"
  shows "paced_global (fst st) (fst st')"
proof (cases "\<exists>bus src. snd x = Offline bus src")
  case True
  then obtain now bus src e out where "x = (now, Offline bus src)" "st = (e, out)" by (cases x, cases st) auto
  then show ?thesis
    using assms by (auto simp: OnDeviceOffline_def Let_def paced_global_def)
next
  case False
  then have "\<not> goes_offline dk x" for dk by (simp add: goes_offline_def split: rr_event.splits)
  then show ?thesis using rr_step_advances [OF assms, of undefined "e_rules (fst st)"] by (simp add: advances_def)
qed

lemma rr_run_global:
  assumes "rr_run e evs = Some st"
  shows "paced_global e (fst st)"
proof -
  have "paced_global (fst (e, [] :: Request list)) (fst st)"
    using assms unfolding rr_run_def
    by (rule fold_opt_rel [where R = "\<lambda>s t. paced_global (fst s) (fst t)"])
       (blast intro: paced_global_refl paced_global_trans rr_step_global)+
  then show ?thesis by simp
qed

section \<open>The prefilter\<close>

definition rules_ok :: "Engine \<Rightarrow> bool" where
  "rules_ok e \<longleftrightarrow> (\<forall>p is. gm_get (e_byInvalidate e) p = Some is \<longrightarrow>
     (\<forall>idx \<in> set is. idx < length (e_rules e) \<and> p \<in> set (r_InvalidateOn (e_rules e ! idx))))
     \<and> (\<forall>r \<in> set (e_rules e). Rule_validate r = None)"

lemma fold_insert: "fold (\<lambda>x. insert (f x)) xs A = f ` set xs \<union> A"
  by (induction xs arbitrary: A) auto

lemma InterestingPGNs_iff:
  "p \<in> InterestingPGNs e \<longleftrightarrow> (\<exists>r \<in> set (e_rules e). p \<in> set (r_InvalidateOn r) \<or>
     (\<exists>w \<in> set (r_Wants r). p = (if r_Via r = ViaFrame then r_FramePGN r else w_PGN w)))"
proof -
  have step: "fold insert (r_InvalidateOn r)
      (fold (\<lambda>w s. if r_Via r = ViaFrame then insert (r_FramePGN r) s else insert (w_PGN w) s) (r_Wants r) s)
    = s \<union> {p. p \<in> set (r_InvalidateOn r) \<or>
        (\<exists>w \<in> set (r_Wants r). p = (if r_Via r = ViaFrame then r_FramePGN r else w_PGN w))}" for r s
    using fold_insert [of "\<lambda>x. x" "r_InvalidateOn r"]
    by (cases "r_Via r = ViaFrame") (auto simp: fold_insert)
  have "fold (\<lambda>r s. s \<union> F r) rs A = A \<union> (\<Union>r \<in> set rs. F r)" for rs :: "Rule list" and F and A :: "u32 set"
    by (induction rs arbitrary: A) auto
  then show ?thesis
    unfolding InterestingPGNs_def step by simp
qed

lemma AddRule_index:
  "idx \<in> set (case gm_get (fold (\<lambda>p m. gm_put p ((case gm_get m p of Some is \<Rightarrow> is | None \<Rightarrow> []) @ [i]) m) ps m) p of
     Some is \<Rightarrow> is | None \<Rightarrow> []) \<longleftrightarrow>
   idx \<in> set (case gm_get m p of Some is \<Rightarrow> is | None \<Rightarrow> []) \<or> idx = i \<and> p \<in> set ps"
  by (induction ps arbitrary: m) auto

lemma rules_ok_AddRule:
  assumes "AddRule e r = Inr e'" "rules_ok e"
  shows "rules_ok e'"
proof -
  have v: "Rule_validate r = None" and e': "e_rules e' = e_rules e @ [r]"
    "e_byInvalidate e' = fold (\<lambda>p m. gm_put p ((case gm_get m p of Some is \<Rightarrow> is | None \<Rightarrow> []) @ [length (e_rules e)]) m)
       (r_InvalidateOn r) (e_byInvalidate e)"
    using assms(1) by (auto simp: AddRule_def Let_def split: option.splits)
  have "idx < length (e_rules e') \<and> p \<in> set (r_InvalidateOn (e_rules e' ! idx))"
    if "gm_get (e_byInvalidate e') p = Some is" "idx \<in> set is" for p "is" idx
  proof -
    have "idx \<in> set (case gm_get (e_byInvalidate e) p of Some is \<Rightarrow> is | None \<Rightarrow> []) \<or>
        idx = length (e_rules e) \<and> p \<in> set (r_InvalidateOn r)"
      using AddRule_index [of idx "length (e_rules e)" "r_InvalidateOn r" "e_byInvalidate e" p] that
      unfolding e'(2) [symmetric] by simp
    then show ?thesis
      using assms(2) e'(1) by (cases "gm_get (e_byInvalidate e) p") (auto simp: rules_ok_def nth_append)
  qed
  then show ?thesis
    using v e'(1) assms(2) by (auto simp: rules_ok_def)
qed

lemma rules_ok_new: "rules_ok (NewEngine g)"
  by (simp add: rules_ok_def NewEngine_def)

lemma rr_step_rules:
  assumes "rr_step x st = Some st'"
  shows "e_rules (fst st') = e_rules (fst st) \<and> e_byInvalidate (fst st') = e_byInvalidate (fst st)"
proof (cases "\<exists>bus src. snd x = Offline bus src")
  case True
  then obtain now bus src e out where "x = (now, Offline bus src)" "st = (e, out)" by (cases x, cases st) auto
  then show ?thesis using assms by (auto simp: OnDeviceOffline_def Let_def)
next
  case False
  then have "\<not> goes_offline dk x" for dk by (simp add: goes_offline_def split: rr_event.splits)
  then show ?thesis
    using rr_step_advances [OF assms, of undefined "e_rules (fst st)"] by (simp add: advances_def paced_target_def)
qed

lemma rules_ok_run:
  assumes "rr_run e evs = Some st" "rules_ok e"
  shows "rules_ok (fst st)"
proof -
  have "e_rules (fst st) = e_rules (fst (e, [] :: Request list)) \<and>
      e_byInvalidate (fst st) = e_byInvalidate (fst (e, [] :: Request list))"
    using assms(1) unfolding rr_run_def
    by (rule fold_opt_rel [where R = "\<lambda>s t. e_rules (fst t) = e_rules (fst s) \<and>
          e_byInvalidate (fst t) = e_byInvalidate (fst s)"])
       (auto dest: rr_step_rules)
  then show ?thesis using assms(2) by (simp add: rules_ok_def)
qed

lemma uninteresting_frame:
  assumes "rules_ok e" "pgn \<notin> InterestingPGNs e"
  shows "OnFrame e now bus src pgn data = Some (e, [])"
proof -
  have inv: "(case gm_get (e_byInvalidate e) pgn of Some is \<Rightarrow> is | None \<Rightarrow> []) = []"
  proof (rule ccontr)
    assume "(case gm_get (e_byInvalidate e) pgn of Some is \<Rightarrow> is | None \<Rightarrow> []) \<noteq> []"
    then obtain idx rest where "gm_get (e_byInvalidate e) pgn = Some (idx # rest)"
      by (cases "gm_get (e_byInvalidate e) pgn") (auto simp: neq_Nil_conv)
    then have "e_rules e ! idx \<in> set (e_rules e)" "pgn \<in> set (r_InvalidateOn (e_rules e ! idx))"
      using assms(1) by (auto simp: rules_ok_def)
    then show False using assms(2) InterestingPGNs_iff by blast
  qed
  have nomatch: "mark_fresh idx r dk pgn data now w e = Some e"
    if "r \<in> set (e_rules e)" "w \<in> set (r_Wants r)" for idx r dk w
  proof -
    have "pgn \<noteq> (if r_Via r = ViaFrame then r_FramePGN r else w_PGN w)"
      using assms(2) that InterestingPGNs_iff by blast
    then have "wantMatchesFrame r w pgn data = Some False"
      by (auto simp: wantMatchesFrame_def split: Via.splits)
    then show ?thesis by (simp add: mark_fresh_def)
  qed
  have "fold_opt (\<lambda>(idx, r) e. if \<not> Match_matches (r_Match r) d then Some e
      else fold_opt (mark_fresh idx r dk pgn data now) (r_Wants r) e) (List.enumerate 0 (e_rules e)) e = Some e" for d dk
    by (rule fold_opt_id) (auto simp: fold_opt_id nomatch dest: enumerate_in)
  then show ?thesis
    by (simp add: OnFrame_def Let_def inv split: option.splits)
qed

section \<open>Coming online\<close>

definition have_data :: "Engine \<Rightarrow> trackKey \<Rightarrow> bool" where
  "have_data e k = (case gm_get (e_track e) k of Some ts \<Rightarrow> ts_haveData ts | None \<Rightarrow> False)"

lemma consider_have_data:
  "Engine_consider e idx r d w now = Some (e', q) \<Longrightarrow> have_data e' = have_data e"
  by (auto simp: Engine_consider_def Let_def stateFor_def have_data_def fun_eq_iff split: option.splits if_splits)

lemma consider_fresh_sends:
  assumes "Engine_consider e idx r d w now = Some (e', q)" "e_globalMin e \<le> 0"
    and "IsZero (last_req e (target idx d w))" "\<not> have_data e (target idx d w)"
  shows "q \<noteq> None"
  using assms
  by (auto simp: Engine_consider_def Let_def stateFor_def have_data_def last_req_def target_def
      split: option.splits if_splits; metis)

text \<open>
  Before its want is considered a target is untouched, afterwards it has been sent once, at \<open>now\<close>;
  \<open>base\<close> is what had been sent before.
\<close>

definition untouched :: "trackKey \<Rightarrow> gotime list \<Rightarrow> Engine \<times> Request list \<Rightarrow> bool" where
  "untouched k base st \<longleftrightarrow> e_globalMin (fst st) \<le> 0 \<and> IsZero (last_req (fst st) k) \<and> \<not> have_data (fst st) k
     \<and> times_of k (e_sent (fst st)) = base"

definition sent_once :: "trackKey \<Rightarrow> gotime list \<Rightarrow> gotime \<Rightarrow> Engine \<times> Request list \<Rightarrow> bool" where
  "sent_once k base now st \<longleftrightarrow> last_req (fst st) k = now \<and> times_of k (e_sent (fst st)) = base @ [now]"

lemma consider_into_once:
  assumes c: "consider_into idx r d now w st = Some st'" and now: "\<not> IsZero now" and mi: "r_MinInterval r > 0"
  shows "untouched k base st \<Longrightarrow> untouched k base st' \<or> sent_once k base now st'"
    and "untouched k base st \<Longrightarrow> target idx d w = k \<Longrightarrow> sent_once k base now st'"
    and "sent_once k base now st \<Longrightarrow> sent_once k base now st'"
proof -
  obtain e out where st: "st = (e, out)" by force
  obtain e' q where c': "Engine_consider e idx r d w now = Some (e', q)" and st': "fst st' = e'"
    using c st by (auto simp: consider_into_def split: option.splits)
  note C = consider_cases [OF c'] consider_have_data [OF c'] consider_fresh_sends [OF c']
  show "untouched k base st \<Longrightarrow> untouched k base st' \<or> sent_once k base now st'"
    using C(1,2) st st' by (cases q) (auto simp: untouched_def sent_once_def quiet_def sends_def)
  show "untouched k base st \<Longrightarrow> target idx d w = k \<Longrightarrow> sent_once k base now st'"
    using C st st' by (cases q) (auto simp: untouched_def sent_once_def sends_def)
  have "\<not> apart (r_MinInterval r) now now"
    using now mi by (simp add: apart_def time_Sub_def minDuration_def maxDuration_def)
  then show "sent_once k base now st \<Longrightarrow> sent_once k base now st'"
    using C(1) st st' by (cases q) (auto simp: sent_once_def quiet_def sends_def)
qed

lemma wants_once:
  assumes f: "fold_opt (consider_into idx r d now) ws st = Some st'" and now: "\<not> IsZero now"
    and mi: "r_MinInterval r > 0"
  shows "untouched k base st \<Longrightarrow> untouched k base st' \<or> sent_once k base now st'"
    and "untouched k base st \<Longrightarrow> w \<in> set ws \<Longrightarrow> target idx d w = k \<Longrightarrow> sent_once k base now st'"
    and "sent_once k base now st \<Longrightarrow> sent_once k base now st'"
proof -
  note C = consider_into_once [OF _ now mi]
  show s: "sent_once k base now st \<Longrightarrow> sent_once k base now st'"
    using f by (rule fold_opt_rel [where R = "\<lambda>s t. sent_once k base now s \<longrightarrow> sent_once k base now t", rule_format])
      (auto dest: C(3))
  show "untouched k base st \<Longrightarrow> untouched k base st' \<or> sent_once k base now st'"
    using f by (rule fold_opt_rel [where R = "\<lambda>s t. untouched k base s \<or> sent_once k base now s \<longrightarrow>
            untouched k base t \<or> sent_once k base now t", rule_format])
      (auto dest: C(1,3))
  show "sent_once k base now st'" if "untouched k base st" "w \<in> set ws" "target idx d w = k"
    by (rule fold_opt_reach [where I = "\<lambda>s. untouched k base s \<or> sent_once k base now s", OF f that(2)])
       (use that in \<open>auto dest: C(1,2,3)\<close>)
qed

lemma validate_MinInterval: "Rule_validate r = None \<Longrightarrow> r_MinInterval r > 0"
  by (simp add: Rule_validate_def split: if_splits)

lemma online_once:
  assumes on: "OnDeviceOnline e now d = Some st'" and now: "\<not> IsZero now" and ok: "rules_ok e"
    and r: "idx < length (e_rules e)" "r = e_rules e ! idx" "r_OnOnline r" "Match_matches (r_Match r) d"
      "w \<in> set (r_Wants r)"
    and u: "untouched (target idx d w) base (e, [])"
  shows "sent_once (target idx d w) base now st'"
proof -
  let ?k = "target idx d w"
  let ?e1 = "e\<lparr>e_devices := gm_put \<lparr>dk_bus = dv_Bus d, dk_src = dv_Source d\<rparr> d (e_devices e)\<rparr>"
  have u1: "untouched ?k base (?e1, [])"
    using u by (simp add: untouched_def last_req_def have_data_def)
  have mi: "r_MinInterval r' > 0" if "(i, r') \<in> set (List.enumerate 0 (e_rules ?e1))" for i r'
    using ok enumerate_in [OF that] by (auto simp: rules_ok_def intro: validate_MinInterval)
  have x: "(idx, r) \<in> set (List.enumerate 0 (e_rules ?e1))"
    using r by (simp add: in_set_enumerate_eq)
  let ?F = "\<lambda>(i, r') st. if \<not> r_OnOnline r' \<or> \<not> Match_matches (r_Match r') d then Some st
      else fold_opt (consider_into i r' d now) (r_Wants r') st"
  have step: "(untouched ?k base s \<longrightarrow> untouched ?k base s' \<or> sent_once ?k base now s') \<and>
      (sent_once ?k base now s \<longrightarrow> sent_once ?k base now s')"
    if "y \<in> set (List.enumerate 0 (e_rules ?e1))" "?F y s = Some s'" for y s s'
  proof (cases y)
    case (Pair i r')
    then show ?thesis
      using wants_once(1,3) [OF _ now mi [of i r'], where st = s and st' = s' and ws = "r_Wants r'"] that
      by (cases "\<not> r_OnOnline r' \<or> \<not> Match_matches (r_Match r') d") auto
  qed
  have hit: "sent_once ?k base now s'" if "?F (idx, r) s = Some s'" "untouched ?k base s \<or> sent_once ?k base now s" for s s'
    using wants_once(2,3) [OF _ now mi [OF x], where st = s and st' = s' and ws = "r_Wants r"] that r by auto
  show ?thesis
    by (rule fold_opt_reach [where I = "\<lambda>s. untouched ?k base s \<or> sent_once ?k base now s",
          OF on [unfolded OnDeviceOnline_def Let_def] x disjI1 [OF u1]])
       (use step hit in blast)+
qed

fun add_rules :: "Engine \<Rightarrow> Rule list \<Rightarrow> rule_error + Engine" where
  "add_rules e [] = Inr e"
| "add_rules e (r # rs) = (case AddRule e r of Inl err \<Rightarrow> Inl err | Inr e' \<Rightarrow> add_rules e' rs)"

lemma rules_ok_add_rules: "add_rules e rs = Inr e' \<Longrightarrow> rules_ok e \<Longrightarrow> rules_ok e'"
  by (induction rs arbitrary: e) (auto split: sum.splits intro: rules_ok_AddRule)

section \<open>Properties\<close>

text \<open>
  C33: Requests are paced per target: in any run in which the device does not go offline, the
  requests returned are those recorded, and two successive requests for the same (rule, device,
  datum) are at least the rule's MinInterval apart, counted also from the last request before the
  run. A recorded zero time is Go's "never requested".
\<close>

theorem requests_respect_MinInterval:
  assumes "rr_run e evs = Some (e', out)" "\<forall>x \<in> set evs. \<not> goes_offline (k_dev k) x"
  shows "\<exists>new. e_sent e' = e_sent e @ new \<and> out = map (\<lambda>x. snd (snd x)) new \<and>
    successively (apart (r_MinInterval (e_rules e ! k_rule k))) (last_req e k # times_of k new)"
proof -
  have "advances (e_rules e) k (e, []) (e', out)" by (rule rr_run_advances [OF assms])
  then obtain new new' where "e_sent e' = e_sent e @ new" "out = map (\<lambda>x. snd (snd x)) new"
    "e_sent e' = e_sent e @ new'"
    "paced_by (apart (r_MinInterval (e_rules e ! k_rule k))) (last_req e k) (times_of k new') (last_req e' k)"
    unfolding advances_def paced_target_def by auto
  then show ?thesis by (auto simp: paced_by_def)
qed

text \<open>
  Requests are paced globally: with a global floor, any two successive requests of a run, for
  whatever targets and whether or not devices go offline, are at least the floor apart.
\<close>

theorem requests_respect_global_floor:
  assumes "rr_run e evs = Some (e', out)" "e_globalMin e > 0"
  shows "\<exists>new. e_sent e' = e_sent e @ new \<and>
    successively (apart (e_globalMin e)) (e_lastGlobal e # map fst new)"
  using rr_run_global [OF assms(1)] assms(2) by (auto simp: paced_global_def paced_by_def)

text \<open>
  The broker's prefilter is sound: for an engine built by adding rules and then run on any
  events, a frame whose PGN is not in InterestingPGNs changes nothing and requests nothing, so
  skipping OnFrame for it is equivalent to calling it.
\<close>

theorem prefilter_sound:
  assumes "add_rules (NewEngine g) rs = Inr e0" "rr_run e0 evs = Some (e, out)"
    and "pgn \<notin> InterestingPGNs e"
  shows "OnFrame e now bus src pgn data = Some (e, [])"
  using rules_ok_run [OF assms(2) rules_ok_add_rules [OF assms(1) rules_ok_new]] assms(3)
  by (simp add: uninteresting_frame)


section \<open>Witnesses\<close>

definition sample_rule :: Rule where
  "sample_rule = \<lparr>r_Name = ''r'',
     r_Match = \<lparr>m_Manufacturer = [], m_ManufacturerCode = 358, m_ModelID = ''M*'', m_DeviceClass = None,
       m_DeviceFunction = None, m_Name = [], m_Source = None, m_Bus = []\<rparr>,
     r_Wants = [\<lparr>w_PGN = 61184, w_SubKey = 5, w_HasSubKey = True\<rparr>, \<lparr>w_PGN = 61184, w_SubKey = 7, w_HasSubKey = True\<rparr>],
     r_Via = ViaFrame, r_ToDevice = True, r_Dst = 0, r_FramePGN = 61184, r_FramePriority = 6,
     r_FrameTemplate = [0x66, 0x99, 0, 0], r_SubKeyWriteOff = 2, r_SubKeyWriteLen = 2,
     r_SubKeyReadOff = 2, r_SubKeyReadLen = 2, r_MinInterval = 5, r_MaxAge = 0, r_OnOnline = True,
     r_InvalidateOn = [127508]\<rparr>"

definition sample_device :: DeviceView where
  "sample_device = \<lparr>dv_Bus = ''c'', dv_Source = 35, dv_NAMEHex = [], dv_Manufacturer = [],
     dv_ManufacturerCode = 358, dv_DeviceClass = 35, dv_DeviceFunction = 170, dv_DeviceInstance = 0,
     dv_ModelID = ''mppt'', dv_ProductCode = 0\<rparr>"

definition sample_engine :: "duration \<Rightarrow> Engine" where
  "sample_engine g = (case add_rules (NewEngine g) [sample_rule] of Inr e \<Rightarrow> e | Inl _ \<Rightarrow> NewEngine g)"

definition sample_events :: "(gotime \<times> rr_event) list" where
  "sample_events = [(1, Online sample_device), (2, ClockTick),
     (3, FrameIn ''c'' 35 61184 [0x66, 0x99, 5, 0, 1, 2]), (7, ClockTick)]"

lemma sample_engine_ok: "add_rules (NewEngine g) [sample_rule] = Inr (sample_engine g)"
  by (simp add: sample_engine_def AddRule_def Rule_validate_def sample_rule_def)

lemma rr_sample_run:
  "map_option (\<lambda>(e, out). map rq_Data out) (rr_run (sample_engine 0) sample_events)
     = Some [[0x66, 0x99, 5, 0], [0x66, 0x99, 7, 0], [0x66, 0x99, 7, 0]]"
  by code_simp

lemma rr_sample_run_floor:
  "map_option (\<lambda>(e, out). map rq_Data out) (rr_run (sample_engine 2) sample_events)
     = Some [[0x66, 0x99, 5, 0], [0x66, 0x99, 7, 0]]"
  by code_simp

theorem requests_respect_MinInterval_witness:
  "\<exists>e' out new k. rr_run (sample_engine 0) sample_events = Some (e', out) \<and> length out = 3
     \<and> e_sent e' = e_sent (sample_engine 0) @ new \<and> out = map (\<lambda>x. snd (snd x)) new
     \<and> k = target 0 sample_device \<lparr>w_PGN = 61184, w_SubKey = 7, w_HasSubKey = True\<rparr>
     \<and> successively (apart (r_MinInterval (e_rules (sample_engine 0) ! k_rule k))) (last_req (sample_engine 0) k # times_of k new)"
proof -
  let ?k = "target 0 sample_device \<lparr>w_PGN = 61184, w_SubKey = 7, w_HasSubKey = True\<rparr>"
  obtain e' out where run: "rr_run (sample_engine 0) sample_events = Some (e', out)" "length out = 3"
    using rr_sample_run by (auto simp: map_eq_Cons_conv)
  have "\<forall>x \<in> set sample_events. \<not> goes_offline (k_dev ?k) x"
    by (simp add: sample_events_def goes_offline_def)
  from requests_respect_MinInterval [OF run(1) this] run show ?thesis by blast
qed

theorem requests_respect_global_floor_witness:
  "\<exists>e' out new. rr_run (sample_engine 2) sample_events = Some (e', out) \<and> length out = 2
     \<and> e_sent e' = e_sent (sample_engine 2) @ new
     \<and> successively (apart (e_globalMin (sample_engine 2))) (e_lastGlobal (sample_engine 2) # map fst new)"
proof -
  obtain e' out where run: "rr_run (sample_engine 2) sample_events = Some (e', out)" "length out = 2"
    using rr_sample_run_floor by (auto simp: map_eq_Cons_conv)
  have "e_globalMin (sample_engine 2) > 0" by code_simp
  from requests_respect_global_floor [OF run(1) this] run show ?thesis by blast
qed

theorem prefilter_sound_witness:
  "OnFrame (sample_engine 0) 9 ''c'' 35 130306 [1, 2, 3] = Some (sample_engine 0, [])"
proof (rule prefilter_sound [OF sample_engine_ok, of _ "[]" _ "[]"])
  show "rr_run (sample_engine 0) [] = Some (sample_engine 0, [])" by (simp add: rr_run_def)
  show "130306 \<notin> InterestingPGNs (sample_engine 0)" by code_simp
qed


end
