(* ===== verification/Devices.thy ===== *)
theory Devices
  imports FastPacket
begin

text \<open>
  The device registry (\<^verbatim>\<open>devices.go\<close>): devices discovered by address claims (PGN 60928) and product
  information (PGN 126996), keyed by bus and source address, with per-source packet statistics.
  The registry's map is an association list; a loop over it visits the list in order. The theorems
  show that every history keeps the registry well formed (in particular, a non-zero NAME has one
  holder per bus) and that the frames synthesized for a remote broker rebuild the same registry.
\<close>

section \<open>Fixed-width strings\<close>

definition encodeFixedString :: "nat \<Rightarrow> string \<Rightarrow> bytes" where
  "encodeFixedString width s =
     (let n = min width (length s)
      in take n (bytes_of_string s) @ replicate (width - n) 0xFF)"

definition decodeFixedString :: "bytes \<Rightarrow> string" where
  "decodeFixedString data = string_of_bytes (takeWhile (\<lambda>b. b \<noteq> 0 \<and> b \<noteq> 0xFF) data)"

section \<open>The registry\<close>

record Device =
  d_Bus :: string
  d_Source :: u8
  d_NAME :: u64
  d_NAMEHex :: string
  d_Manufacturer :: string
  d_ManufacturerCode :: u16
  d_DeviceClass :: u8
  d_DeviceFunction :: u8
  d_DeviceInstance :: u8
  d_UniqueNumber :: u32
  d_ModelID :: string
  d_SoftwareVersion :: string
  d_ModelVersion :: string
  d_ModelSerial :: string
  d_ProductCode :: u16
  d_FirstSeen :: gotime
  d_LastSeen :: gotime
  d_PacketCount :: u64
  d_ByteCount :: u64

record deviceKey =
  dvk_Bus :: string
  dvk_Source :: u8

type_synonym DeviceRegistry = "(deviceKey, Device) gomap"

definition NewDeviceRegistry :: DeviceRegistry where
  "NewDeviceRegistry = []"

definition blank_device :: "string \<Rightarrow> u8 \<Rightarrow> Device" where
  "blank_device bus source = \<lparr>d_Bus = bus, d_Source = source, d_NAME = 0, d_NAMEHex = [], d_Manufacturer = [],
     d_ManufacturerCode = 0, d_DeviceClass = 0, d_DeviceFunction = 0, d_DeviceInstance = 0, d_UniqueNumber = 0,
     d_ModelID = [], d_SoftwareVersion = [], d_ModelVersion = [], d_ModelSerial = [], d_ProductCode = 0,
     d_FirstSeen = zeroTime, d_LastSeen = zeroTime, d_PacketCount = 0, d_ByteCount = 0\<rparr>"

definition RecordPacket :: "DeviceRegistry \<Rightarrow> string \<Rightarrow> u8 \<Rightarrow> gotime \<Rightarrow> nat \<Rightarrow> DeviceRegistry \<times> bool" where
  "RecordPacket r bus source ts dataLen =
     (if source \<ge> 254 then (r, False)
      else
        let key = \<lparr>dvk_Bus = bus, dvk_Source = source\<rparr>
        in case gm_get r key of
             Some dev \<Rightarrow>
               (gm_put key (dev\<lparr>d_LastSeen := ts, d_PacketCount := d_PacketCount dev + 1,
                                d_ByteCount := d_ByteCount dev + of_nat dataLen\<rparr>) r, False)
           | None \<Rightarrow>
               (gm_put key ((blank_device bus source)\<lparr>d_FirstSeen := ts, d_LastSeen := ts,
                   d_PacketCount := 1, d_ByteCount := of_nat dataLen\<rparr>) r, True))"

definition decodeNAME :: "u64 \<Rightarrow> string \<Rightarrow> u8 \<Rightarrow> Device" where
  "decodeNAME name bus source =
     (let fields = DecodeNAME name
      in (blank_device bus source)\<lparr>d_NAME := name, d_NAMEHex := nf_NAMEHex fields,
           d_Manufacturer := nf_Manufacturer fields, d_ManufacturerCode := nf_ManufacturerCode fields,
           d_DeviceClass := nf_DeviceClass fields, d_DeviceFunction := nf_DeviceFunction fields,
           d_DeviceInstance := nf_DeviceInstance fields, d_UniqueNumber := nf_UniqueNumber fields\<rparr>)"

text \<open>The result is the device, if it is new or changed, and the evicted source address, if any.\<close>

definition HandleAddressClaim ::
  "DeviceRegistry \<Rightarrow> string \<Rightarrow> u8 \<Rightarrow> bytes \<Rightarrow> DeviceRegistry \<times> Device option \<times> u8 option" where
  "HandleAddressClaim r bus source data =
     (if length data < 8 then (r, None, None)
      else
        let name = LE_Uint64 (take 8 data);
            key = \<lparr>dvk_Bus = bus, dvk_Source = source\<rparr>;
            existing = gm_get r key
        in if (case existing of Some d \<Rightarrow> d_NAME d = name | None \<Rightarrow> False) then (r, None, None)
           else
             let holder = find (\<lambda>(k, d). dvk_Bus k = bus \<and> dvk_Source k \<noteq> source \<and> d_NAME d = name) r;
                 r1 = (case holder of Some (k, _) \<Rightarrow> gm_del k r | None \<Rightarrow> r);
                 dev0 = decodeNAME name bus source;
                 dev = (case existing of
                          Some e \<Rightarrow> dev0\<lparr>d_FirstSeen := d_FirstSeen e, d_LastSeen := d_LastSeen e,
                                        d_PacketCount := d_PacketCount e, d_ByteCount := d_ByteCount e\<rparr>
                        | None \<Rightarrow> dev0)
             in (gm_put key dev r1, Some dev, map_option (\<lambda>(k, _). dvk_Source k) holder))"

definition HandleProductInfo ::
  "DeviceRegistry \<Rightarrow> string \<Rightarrow> u8 \<Rightarrow> bytes \<Rightarrow> DeviceRegistry \<times> Device option" where
  "HandleProductInfo r bus source data =
     (if length data < 134 then (r, None)
      else
        let productCode = LE_Uint16 (take 2 (drop 2 data));
            modelID = decodeFixedString (take 32 (drop 4 data));
            softwareVersion = decodeFixedString (take 40 (drop 36 data));
            modelVersion = decodeFixedString (take 24 (drop 76 data));
            modelSerial = decodeFixedString (take 32 (drop 100 data));
            key = \<lparr>dvk_Bus = bus, dvk_Source = source\<rparr>
        in case gm_get r key of
             None \<Rightarrow> (r, None)
           | Some dev \<Rightarrow>
               if d_ProductCode dev = productCode \<and> d_ModelID dev = modelID \<and>
                  d_SoftwareVersion dev = softwareVersion \<and> d_ModelVersion dev = modelVersion \<and>
                  d_ModelSerial dev = modelSerial
               then (r, None)
               else
                 let dev' = dev\<lparr>d_ProductCode := productCode, d_ModelID := modelID,
                        d_SoftwareVersion := softwareVersion, d_ModelVersion := modelVersion,
                        d_ModelSerial := modelSerial\<rparr>
                 in (gm_put key dev' r, Some dev'))"

definition ExpireIdle :: "DeviceRegistry \<Rightarrow> gotime \<Rightarrow> DeviceRegistry \<times> deviceKey list" where
  "ExpireIdle r cutoff =
     (gm_del_if (\<lambda>_ dev. d_LastSeen dev < cutoff) r, map fst (filter (\<lambda>(_, dev). d_LastSeen dev < cutoff) r))"

definition SourcesMissingProductInfo :: "DeviceRegistry \<Rightarrow> deviceKey list" where
  "SourcesMissingProductInfo r =
     map fst (filter (\<lambda>(_, dev). d_NAME dev \<noteq> 0 \<and> d_ModelID dev = [] \<and> d_ProductCode dev = 0) r)"

definition DeviceRegistry_Get :: "DeviceRegistry \<Rightarrow> string \<Rightarrow> u8 \<Rightarrow> Device option" where
  "DeviceRegistry_Get r bus source = gm_get r \<lparr>dvk_Bus = bus, dvk_Source = source\<rparr>"

definition DeviceRegistry_Snapshot :: "DeviceRegistry \<Rightarrow> Device list" where
  "DeviceRegistry_Snapshot r = map snd r"

definition synth_header :: "u32 \<Rightarrow> u8 \<Rightarrow> CANHeader" where
  "synth_header pgn src = \<lparr>h_Priority = 6, h_PGN = pgn, h_Source = src, h_Destination = 255\<rparr>"

definition claim_frame :: "gotime \<Rightarrow> Device \<Rightarrow> RxFrame" where
  "claim_frame ts dev = \<lparr>rx_Timestamp = ts, rx_Header = synth_header 60928 (d_Source dev),
     rx_Data = LE_PutUint64 (d_NAME dev), rx_Bus = d_Bus dev, rx_Seq = 0\<rparr>"

definition product_data :: "Device \<Rightarrow> bytes" where
  "product_data dev = [0, 0] @ LE_PutUint16 (d_ProductCode dev) @ encodeFixedString 32 (d_ModelID dev)
     @ encodeFixedString 40 (d_SoftwareVersion dev) @ encodeFixedString 24 (d_ModelVersion dev)
     @ encodeFixedString 32 (d_ModelSerial dev) @ [0, 0]"

definition product_frame :: "gotime \<Rightarrow> Device \<Rightarrow> RxFrame" where
  "product_frame ts dev = \<lparr>rx_Timestamp = ts, rx_Header = synth_header 126996 (d_Source dev),
     rx_Data = product_data dev, rx_Bus = d_Bus dev, rx_Seq = 0\<rparr>"

definition device_frames :: "gotime \<Rightarrow> Device \<Rightarrow> RxFrame list" where
  "device_frames ts dev =
     (if d_NAME dev = 0 then []
      else claim_frame ts dev #
        (if d_ProductCode dev = 0 \<and> d_ModelID dev = [] then [] else [product_frame ts dev]))"

definition SynthesizeFrames :: "DeviceRegistry \<Rightarrow> gotime \<Rightarrow> RxFrame list" where
  "SynthesizeFrames r ts = concat (map (\<lambda>(_, dev). device_frames ts dev) r)"

section \<open>Histories\<close>

datatype dev_op =
  OpPacket string u8 gotime nat
| OpClaim string u8 bytes
| OpProduct string u8 bytes
| OpExpire gotime

fun dev_step :: "dev_op \<Rightarrow> DeviceRegistry \<Rightarrow> DeviceRegistry" where
  "dev_step (OpPacket bus src ts n) r = fst (RecordPacket r bus src ts n)"
| "dev_step (OpClaim bus src data) r = fst (HandleAddressClaim r bus src data)"
| "dev_step (OpProduct bus src data) r = fst (HandleProductInfo r bus src data)"
| "dev_step (OpExpire cutoff) r = fst (ExpireIdle r cutoff)"

definition dev_run :: "dev_op list \<Rightarrow> DeviceRegistry" where
  "dev_run ops = fold dev_step ops NewDeviceRegistry"

text \<open>What a received frame does to the registry (the start of \<^verbatim>\<open>Broker.handleFrame\<close>).\<close>

definition registry_frame :: "RxFrame \<Rightarrow> DeviceRegistry \<Rightarrow> DeviceRegistry" where
  "registry_frame f r =
     (let r1 = fst (RecordPacket r (rx_Bus f) (h_Source (rx_Header f)) (rx_Timestamp f) (length (rx_Data f)))
      in if h_PGN (rx_Header f) = 60928
         then fst (HandleAddressClaim r1 (rx_Bus f) (h_Source (rx_Header f)) (rx_Data f))
         else if h_PGN (rx_Header f) = 126996
         then fst (HandleProductInfo r1 (rx_Bus f) (h_Source (rx_Header f)) (rx_Data f))
         else r1)"

section \<open>Well-formed registries\<close>

definition fixed_ok :: "nat \<Rightarrow> string \<Rightarrow> bool" where
  "fixed_ok width s \<longleftrightarrow> length s \<le> width \<and> (\<forall>b \<in> set (bytes_of_string s). b \<noteq> 0 \<and> b \<noteq> 0xFF)"

text \<open>The identity of a device: its NAME and what is decoded from it.\<close>

definition identity_ok :: "Device \<Rightarrow> bool" where
  "identity_ok d \<longleftrightarrow> d_NAME d \<noteq> 0 \<longrightarrow>
     d_NAMEHex d = nf_NAMEHex (DecodeNAME (d_NAME d)) \<and> d_Manufacturer d = nf_Manufacturer (DecodeNAME (d_NAME d)) \<and>
     d_ManufacturerCode d = nf_ManufacturerCode (DecodeNAME (d_NAME d)) \<and>
     d_DeviceClass d = nf_DeviceClass (DecodeNAME (d_NAME d)) \<and>
     d_DeviceFunction d = nf_DeviceFunction (DecodeNAME (d_NAME d)) \<and>
     d_DeviceInstance d = nf_DeviceInstance (DecodeNAME (d_NAME d)) \<and>
     d_UniqueNumber d = nf_UniqueNumber (DecodeNAME (d_NAME d))"

definition device_ok :: "deviceKey \<Rightarrow> Device \<Rightarrow> bool" where
  "device_ok k d \<longleftrightarrow> d_Bus d = dvk_Bus k \<and> d_Source d = dvk_Source k \<and> identity_ok d
     \<and> fixed_ok 32 (d_ModelID d) \<and> fixed_ok 40 (d_SoftwareVersion d)
     \<and> fixed_ok 24 (d_ModelVersion d) \<and> fixed_ok 32 (d_ModelSerial d)"

definition unique_names :: "DeviceRegistry \<Rightarrow> bool" where
  "unique_names r \<longleftrightarrow> (\<forall>k d k' d'. gm_get r k = Some d \<and> gm_get r k' = Some d' \<and> dvk_Bus k = dvk_Bus k'
     \<and> d_NAME d = d_NAME d' \<and> d_NAME d \<noteq> 0 \<longrightarrow> k = k')"

definition registry_ok :: "DeviceRegistry \<Rightarrow> bool" where
  "registry_ok r \<longleftrightarrow> gm_wf r \<and> (\<forall>k d. gm_get r k = Some d \<longrightarrow> device_ok k d) \<and> unique_names r"

lemma fixed_ok_Nil [simp]: "fixed_ok n []"
  by (simp add: fixed_ok_def bytes_of_string_def)

lemma decode_fixed_ok: "length data \<le> n \<Longrightarrow> fixed_ok n (decodeFixedString data)"
  using length_takeWhile_le [of "\<lambda>b. b \<noteq> 0 \<and> b \<noteq> 0xFF" data]
  by (auto simp: fixed_ok_def decodeFixedString_def dest!: set_takeWhileD)

lemma decode_encode_fixed:
  assumes "fixed_ok n s"
  shows "decodeFixedString (encodeFixedString n s) = s"
proof -
  have all: "\<forall>b \<in> set (bytes_of_string s). b \<noteq> 0 \<and> b \<noteq> 0xFF" and len: "length s \<le> n"
    using assms by (auto simp: fixed_ok_def)
  have "encodeFixedString n s = bytes_of_string s @ replicate (n - length s) 0xFF"
    using len by (simp add: encodeFixedString_def Let_def min_def)
  then have "takeWhile (\<lambda>b. b \<noteq> 0 \<and> b \<noteq> 0xFF) (encodeFixedString n s) = bytes_of_string s"
    using all by (simp add: takeWhile_append2 takeWhile_replicate)
  then show ?thesis by (simp add: decodeFixedString_def)
qed

lemma length_encodeFixedString [simp]: "length (encodeFixedString n s) = n"
  by (simp add: encodeFixedString_def Let_def)

lemma registry_ok_new: "registry_ok NewDeviceRegistry"
  by (simp add: registry_ok_def NewDeviceRegistry_def unique_names_def)

lemma registry_ok_put_fresh:
  assumes "registry_ok r" "device_ok k d"
    and "\<And>k' d'. gm_get r k' = Some d' \<Longrightarrow> dvk_Bus k' = dvk_Bus k \<Longrightarrow> k' \<noteq> k \<Longrightarrow> d_NAME d' = d_NAME d \<Longrightarrow> d_NAME d = 0"
  shows "registry_ok (gm_put k d r)"
  using assms unfolding registry_ok_def unique_names_def
  by (auto split: if_splits) metis+

text \<open>Replacing a device by one with the same key and NAME keeps the registry well formed.\<close>

lemma registry_ok_put_same:
  assumes "registry_ok r" "gm_get r k = Some d" "device_ok k d'" "d_NAME d' = d_NAME d"
  shows "registry_ok (gm_put k d' r)"
proof (rule registry_ok_put_fresh [OF assms(1,3)])
  fix k' e assume "gm_get r k' = Some e" "dvk_Bus k' = dvk_Bus k" "k' \<noteq> k" "d_NAME e = d_NAME d'"
  then show "d_NAME d' = 0"
    using assms(1,2,4) unfolding registry_ok_def unique_names_def by metis
qed

lemma registry_ok_subset:
  assumes "registry_ok r" "gm_wf r'" "\<And>k d. gm_get r' k = Some d \<Longrightarrow> gm_get r k = Some d"
  shows "registry_ok r'"
  using assms unfolding registry_ok_def unique_names_def by blast

lemma find_holder:
  assumes "gm_wf r"
  shows "(case find (\<lambda>(k, d). P k d) r of
      Some (k, d) \<Rightarrow> gm_get r k = Some d \<and> P k d
    | None \<Rightarrow> \<forall>k d. gm_get r k = Some d \<longrightarrow> \<not> P k d)"
proof (cases "find (\<lambda>(k, d). P k d) r")
  case None
  then have "\<forall>x \<in> set r. \<not> P (fst x) (snd x)"
    by (auto simp: find_None_iff)
  then show ?thesis using None by (auto dest!: gm_get_in)
next
  case (Some x)
  then obtain i where "i < length r" "x = r ! i" "P (fst x) (snd x)"
    unfolding find_Some_iff by (auto simp: case_prod_beta)
  then have "x \<in> set r" "P (fst x) (snd x)" by auto
  then show ?thesis using Some gm_get_iff [OF assms] by (auto split: prod.splits)
qed

lemma registry_ok_RecordPacket:
  assumes "registry_ok r"
  shows "registry_ok (fst (RecordPacket r bus src ts n))"
proof (cases "gm_get r \<lparr>dvk_Bus = bus, dvk_Source = src\<rparr>")
  case None
  have "registry_ok (gm_put \<lparr>dvk_Bus = bus, dvk_Source = src\<rparr> ((blank_device bus src)\<lparr>d_FirstSeen := ts, d_LastSeen := ts,
      d_PacketCount := 1, d_ByteCount := of_nat n\<rparr>) r)"
    by (rule registry_ok_put_fresh [OF assms]) (auto simp: device_ok_def blank_device_def identity_ok_def)
  then show ?thesis using None assms by (simp add: RecordPacket_def)
next
  case (Some dev)
  then have "device_ok \<lparr>dvk_Bus = bus, dvk_Source = src\<rparr> dev" using assms by (simp add: registry_ok_def)
  then have "registry_ok (gm_put \<lparr>dvk_Bus = bus, dvk_Source = src\<rparr> (dev\<lparr>d_LastSeen := ts,
      d_PacketCount := d_PacketCount dev + 1, d_ByteCount := d_ByteCount dev + of_nat n\<rparr>) r)"
    by (intro registry_ok_put_same [OF assms Some]) (simp_all add: device_ok_def identity_ok_def)
  then show ?thesis using Some assms by (simp add: RecordPacket_def)
qed

lemma decodeNAME_ok: "device_ok \<lparr>dvk_Bus = bus, dvk_Source = src\<rparr> (decodeNAME name bus src)"
  by (simp add: device_ok_def decodeNAME_def blank_device_def identity_ok_def Let_def)

lemma registry_ok_HandleAddressClaim:
  assumes ok: "registry_ok r"
  shows "registry_ok (fst (HandleAddressClaim r bus src data))"
proof (cases "length data < 8 \<or>
    (case gm_get r \<lparr>dvk_Bus = bus, dvk_Source = src\<rparr> of Some d \<Rightarrow> d_NAME d = LE_Uint64 (take 8 data) | None \<Rightarrow> False)")
  case True
  then show ?thesis using ok by (auto simp: HandleAddressClaim_def Let_def)
next
  case False
  let ?key = "\<lparr>dvk_Bus = bus, dvk_Source = src\<rparr>" and ?name = "LE_Uint64 (take 8 data)"
  let ?P = "\<lambda>k d. dvk_Bus k = bus \<and> dvk_Source k \<noteq> src \<and> d_NAME d = ?name"
  define holder where "holder = find (\<lambda>(k, d). ?P k d) r"
  define r1 where "r1 = (case holder of Some (k, _) \<Rightarrow> gm_del k r | None \<Rightarrow> r)"
  define dev where "dev = (case gm_get r ?key of
      Some e \<Rightarrow> (decodeNAME ?name bus src)\<lparr>d_FirstSeen := d_FirstSeen e, d_LastSeen := d_LastSeen e,
         d_PacketCount := d_PacketCount e, d_ByteCount := d_ByteCount e\<rparr>
    | None \<Rightarrow> decodeNAME ?name bus src)"
  have res: "fst (HandleAddressClaim r bus src data) = gm_put ?key dev r1"
    using False by (auto simp: HandleAddressClaim_def Let_def dev_def r1_def holder_def)
  have ok1: "registry_ok r1"
    using ok by (rule registry_ok_subset) (use ok in \<open>auto simp: r1_def registry_ok_def split: option.splits prod.splits if_splits\<close>)
  have dev: "device_ok ?key dev" "d_NAME dev = ?name"
    using decodeNAME_ok [of bus src ?name]
    by (auto simp: dev_def device_ok_def identity_ok_def decodeNAME_def Let_def split: option.splits)
  show ?thesis
    unfolding res
  proof (rule registry_ok_put_fresh [OF ok1 dev(1)])
    fix k' d' assume k': "gm_get r1 k' = Some d'" "dvk_Bus k' = dvk_Bus ?key" "k' \<noteq> ?key" "d_NAME d' = d_NAME dev"
    then have P: "?P k' d'" using dev(2) by (cases k') auto
    have r: "gm_get r k' = Some d'"
      using k'(1) by (auto simp: r1_def split: option.splits prod.splits if_splits)
    have wf: "gm_wf r" using ok by (simp add: registry_ok_def)
    obtain k d where h: "holder = Some (k, d)" "gm_get r k = Some d" "?P k d"
      using find_holder [OF wf, of ?P] r P unfolding holder_def [symmetric]
      by (cases holder) (auto split: prod.splits)
    have "k \<noteq> k'" using k'(1) h(1) by (auto simp: r1_def)
    then show "d_NAME dev = 0"
      using ok r h(2,3) P dev(2) unfolding registry_ok_def unique_names_def by metis
  qed
qed

lemma registry_ok_HandleProductInfo:
  assumes ok: "registry_ok r"
  shows "registry_ok (fst (HandleProductInfo r bus src data))"
proof (cases "gm_get r \<lparr>dvk_Bus = bus, dvk_Source = src\<rparr>")
  case None
  then show ?thesis using ok by (simp add: HandleProductInfo_def Let_def)
next
  case (Some dev)
  then have "device_ok \<lparr>dvk_Bus = bus, dvk_Source = src\<rparr> dev" using ok by (simp add: registry_ok_def)
  then show ?thesis
    using Some ok
    by (auto simp: HandleProductInfo_def Let_def device_ok_def identity_ok_def
        intro!: registry_ok_put_same decode_fixed_ok)
qed

lemma registry_ok_ExpireIdle: "registry_ok r \<Longrightarrow> registry_ok (fst (ExpireIdle r cutoff))"
  by (rule registry_ok_subset [of r])
     (auto simp: registry_ok_def ExpireIdle_def gm_get_del_if split: option.splits if_splits)

lemma registry_ok_step: "registry_ok r \<Longrightarrow> registry_ok (dev_step op r)"
  by (cases op) (simp_all add: registry_ok_RecordPacket registry_ok_HandleAddressClaim
      registry_ok_HandleProductInfo registry_ok_ExpireIdle)

lemma registry_ok_fold: "registry_ok r \<Longrightarrow> registry_ok (fold dev_step ops r)"
  by (induction ops arbitrary: r) (auto intro: registry_ok_step)

lemma registry_ok_frame: "registry_ok r \<Longrightarrow> registry_ok (registry_frame f r)"
  by (simp add: registry_frame_def Let_def registry_ok_RecordPacket registry_ok_HandleAddressClaim
      registry_ok_HandleProductInfo)

section \<open>Rebuilding a registry from synthesized frames\<close>

text \<open>What the frames carry: everything but the statistics, and no product information if there is none.\<close>

definition no_stats :: "Device \<Rightarrow> Device" where
  "no_stats d = d\<lparr>d_FirstSeen := zeroTime, d_LastSeen := zeroTime, d_PacketCount := 0, d_ByteCount := 0\<rparr>"

definition published :: "Device \<Rightarrow> Device" where
  "published d =
     (if d_ProductCode d = 0 \<and> d_ModelID d = []
      then d\<lparr>d_SoftwareVersion := [], d_ModelVersion := [], d_ModelSerial := []\<rparr> else d)"

definition dev_key :: "Device \<Rightarrow> deviceKey" where
  "dev_key d = \<lparr>dvk_Bus = d_Bus d, dvk_Source = d_Source d\<rparr>"

lemma product_fields:
  assumes "device_ok k d"
  shows "length (product_data d) = 134" "LE_Uint16 (take 2 (drop 2 (product_data d))) = d_ProductCode d"
    "decodeFixedString (take 32 (drop 4 (product_data d))) = d_ModelID d"
    "decodeFixedString (take 40 (drop 36 (product_data d))) = d_SoftwareVersion d"
    "decodeFixedString (take 24 (drop 76 (product_data d))) = d_ModelVersion d"
    "decodeFixedString (take 32 (drop 100 (product_data d))) = d_ModelSerial d"
  using assms LE_Uint16_Put [of "d_ProductCode d" "[]"]
  by (simp_all add: product_data_def device_ok_def decode_encode_fixed)

text \<open>The claim frame of a device that is not there yet, and whose NAME nobody on the bus holds.\<close>

lemma claim_frame_new:
  assumes ok: "device_ok (dev_key d) d" and name: "d_NAME d \<noteq> 0"
    and new: "gm_get q (dev_key d) = None"
    and free: "\<forall>k e. (k, e) \<in> set q \<longrightarrow> dvk_Bus k = d_Bus d \<longrightarrow> d_NAME e \<noteq> d_NAME d"
  shows "\<exists>d'. registry_frame (claim_frame ts d) q = q @ [(dev_key d, d')] \<and>
    no_stats d' = no_stats (d\<lparr>d_ProductCode := 0, d_ModelID := [], d_SoftwareVersion := [], d_ModelVersion := [], d_ModelSerial := []\<rparr>)"
proof -
  have data: "LE_Uint64 (LE_PutUint64 (d_NAME d)) = d_NAME d" using LE_Uint64_Put [of "d_NAME d" "[]"] by simp
  have nk: "dev_key d \<notin> fst ` set q" using new by (simp add: gm_get_def map_of_eq_None_iff)
  have put: "gm_put (dev_key d) e q = q @ [(dev_key d, e)]" for e
    unfolding gm_put_def using nk by (induction q) auto
  have put2: "gm_put (dev_key d) e (q @ [(dev_key d, e')]) = q @ [(dev_key d, e)]" for e e'
    unfolding gm_put_def using nk by (induction q) auto
  have get: "gm_get (q @ [(dev_key d, e)]) (dev_key d) = Some e" for e
    using new by (simp add: gm_get_def map_add_def)
  have find: "find (\<lambda>(k, e). dvk_Bus k = d_Bus d \<and> dvk_Source k \<noteq> d_Source d \<and> d_NAME e = d_NAME d) q' = None"
    if "q' = q \<or> (\<exists>e. q' = q @ [(dev_key d, e)])" for q'
    using that free by (auto simp: find_None_iff dev_key_def)
  have key: "\<lparr>dvk_Bus = d_Bus d, dvk_Source = d_Source d\<rparr> = dev_key d" by (simp add: dev_key_def)
  have id: "no_stats ((decodeNAME (d_NAME d) (d_Bus d) (d_Source d))\<lparr>d_FirstSeen := a, d_LastSeen := b, d_PacketCount := c, d_ByteCount := e\<rparr>)
     = no_stats (d\<lparr>d_ProductCode := 0, d_ModelID := [], d_SoftwareVersion := [], d_ModelVersion := [], d_ModelSerial := []\<rparr>)" for a b c e
    using ok name by (cases d) (simp add: no_stats_def decodeNAME_def blank_device_def device_ok_def identity_ok_def Let_def)
  have id0: "no_stats (decodeNAME (d_NAME d) (d_Bus d) (d_Source d))
     = no_stats (d\<lparr>d_ProductCode := 0, d_ModelID := [], d_SoftwareVersion := [], d_ModelVersion := [], d_ModelSerial := []\<rparr>)"
    using id [where a = zeroTime and b = zeroTime and c = 0 and e = 0] by (simp add: no_stats_def)
  show ?thesis
  proof (cases "d_Source d \<ge> 254")
    case True
    then have "registry_frame (claim_frame ts d) q = q @ [(dev_key d, decodeNAME (d_NAME d) (d_Bus d) (d_Source d))]"
      using new by (simp add: registry_frame_def claim_frame_def synth_header_def RecordPacket_def HandleAddressClaim_def
          Let_def data key put find)
    then show ?thesis using id0 by blast
  next
    case False
    define b where "b = (blank_device (d_Bus d) (d_Source d))\<lparr>d_FirstSeen := ts, d_LastSeen := ts,
        d_PacketCount := 1, d_ByteCount := of_nat (length (LE_PutUint64 (d_NAME d)))\<rparr>"
    have b: "d_NAME (blank_device (d_Bus d) (d_Source d)) = 0" by (simp add: blank_device_def)
    have "registry_frame (claim_frame ts d) q = q @ [(dev_key d, (decodeNAME (d_NAME d) (d_Bus d) (d_Source d))
        \<lparr>d_FirstSeen := d_FirstSeen b, d_LastSeen := d_LastSeen b, d_PacketCount := d_PacketCount b, d_ByteCount := d_ByteCount b\<rparr>)]"
      using False new name b
      by (simp add: registry_frame_def claim_frame_def synth_header_def RecordPacket_def HandleAddressClaim_def Let_def
          data key put put2 get find b_def)
    then show ?thesis using id by blast
  qed
qed

text \<open>Adding the product fields of \<open>d\<close> to a device that otherwise agrees with it.\<close>

definition with_product :: "Device \<Rightarrow> Device \<Rightarrow> Device" where
  "with_product e d = e\<lparr>d_ProductCode := d_ProductCode d, d_ModelID := d_ModelID d,
     d_SoftwareVersion := d_SoftwareVersion d, d_ModelVersion := d_ModelVersion d, d_ModelSerial := d_ModelSerial d\<rparr>"

lemma no_stats_with_product:
  "no_stats e = no_stats (d\<lparr>d_ProductCode := 0, d_ModelID := [], d_SoftwareVersion := [], d_ModelVersion := [], d_ModelSerial := []\<rparr>)
    \<Longrightarrow> no_stats (with_product e d) = no_stats d"
  by (cases d; cases e) (simp add: no_stats_def with_product_def)

lemma with_product_same:
  "d_ProductCode e = d_ProductCode d \<Longrightarrow> d_ModelID e = d_ModelID d \<Longrightarrow> d_SoftwareVersion e = d_SoftwareVersion d
    \<Longrightarrow> d_ModelVersion e = d_ModelVersion d \<Longrightarrow> d_ModelSerial e = d_ModelSerial d \<Longrightarrow> with_product e d = e"
  by (cases d; cases e) (simp add: with_product_def)

lemma product_frame_last:
  assumes ok: "device_ok (dev_key d) d" and new: "gm_get q (dev_key d) = None"
    and e: "no_stats e = no_stats (d\<lparr>d_ProductCode := 0, d_ModelID := [], d_SoftwareVersion := [], d_ModelVersion := [], d_ModelSerial := []\<rparr>)"
  shows "\<exists>d'. registry_frame (product_frame ts d) (q @ [(dev_key d, e)]) = q @ [(dev_key d, d')] \<and> no_stats d' = no_stats d"
proof -
  have nk: "dev_key d \<notin> fst ` set q" using new by (simp add: gm_get_def map_of_eq_None_iff)
  have put: "gm_put (dev_key d) e (q @ [(dev_key d, e')]) = q @ [(dev_key d, e)]" for e e'
    unfolding gm_put_def using nk by (induction q) auto
  have get: "gm_get (q @ [(dev_key d, e)]) (dev_key d) = Some e" for e
    using new by (simp add: gm_get_def map_add_def)
  have key: "\<lparr>dvk_Bus = d_Bus d, dvk_Source = d_Source d\<rparr> = dev_key d" by (simp add: dev_key_def)
  let ?e = "if d_Source d \<ge> 254 then e else e\<lparr>d_LastSeen := ts, d_PacketCount := d_PacketCount e + 1,
      d_ByteCount := d_ByteCount e + of_nat (length (product_data d))\<rparr>"
  have rec: "fst (RecordPacket (q @ [(dev_key d, e)]) (d_Bus d) (d_Source d) ts (length (product_data d))) = q @ [(dev_key d, ?e)]"
    by (simp add: RecordPacket_def Let_def key get put)
  have prod: "fst (HandleProductInfo (q @ [(dev_key d, e')]) (d_Bus d) (d_Source d) (product_data d))
      = q @ [(dev_key d, with_product e' d)]" for e'
    using with_product_same [of e' d]
    by (auto simp: HandleProductInfo_def Let_def key get put product_fields [OF ok] with_product_def)
  have "no_stats ?e = no_stats e" by (simp add: no_stats_def)
  then show ?thesis
    using e no_stats_with_product [of ?e d] rec prod
    by (auto simp: registry_frame_def product_frame_def synth_header_def Let_def)
qed

lemma device_frames_new:
  assumes ok: "device_ok (dev_key d) d" and new: "gm_get q (dev_key d) = None"
    and free: "\<forall>k e. (k, e) \<in> set q \<longrightarrow> dvk_Bus k = d_Bus d \<longrightarrow> d_NAME d \<noteq> 0 \<longrightarrow> d_NAME e \<noteq> d_NAME d"
  shows "\<exists>d'. fold registry_frame (device_frames ts d) q = (if d_NAME d = 0 then q else q @ [(dev_key d, d')]) \<and>
    no_stats d' = no_stats (published d)"
proof (cases "d_NAME d = 0")
  case True
  then show ?thesis by (auto simp: device_frames_def)
next
  case False
  let ?cl = "d\<lparr>d_ProductCode := 0, d_ModelID := [], d_SoftwareVersion := [], d_ModelVersion := [], d_ModelSerial := []\<rparr>"
  obtain e where e: "registry_frame (claim_frame ts d) q = q @ [(dev_key d, e)]" "no_stats e = no_stats ?cl"
    using claim_frame_new [OF ok False new] free False by blast
  show ?thesis
  proof (cases "d_ProductCode d = 0 \<and> d_ModelID d = []")
    case True
    then have "no_stats ?cl = no_stats (published d)" by (simp add: published_def no_stats_def)
    then show ?thesis using True False e by (auto simp: device_frames_def)
  next
    case noprod: False
    then show ?thesis
      using product_frame_last [OF ok new e(2), of ts] False e(1) by (auto simp: device_frames_def published_def)
  qed
qed

text \<open>A registry and its copy, device by device in order.\<close>

definition mirrors :: "DeviceRegistry \<Rightarrow> DeviceRegistry \<Rightarrow> bool" where
  "mirrors q r \<longleftrightarrow> map (\<lambda>(k, d). (k, no_stats d)) q =
     map (\<lambda>(k, d). (k, no_stats (published d))) (filter (\<lambda>(k, d). d_NAME d \<noteq> 0) r)"

lemma mirrors_members:
  assumes "mirrors q r" "(k, e) \<in> set q"
  shows "\<exists>d. (k, d) \<in> set r \<and> d_NAME d \<noteq> 0 \<and> d_NAME e = d_NAME d"
proof -
  have "(k, no_stats e) \<in> set (map (\<lambda>(k, d). (k, no_stats (published d))) (filter (\<lambda>(k, d). d_NAME d \<noteq> 0) r))"
    using assms unfolding mirrors_def by (metis (mono_tags, lifting) case_prod_conv image_eqI list.set_map)
  then obtain d where "(k, d) \<in> set r" "d_NAME d \<noteq> 0" "no_stats e = no_stats (published d)" by auto
  moreover have "d_NAME e = d_NAME d"
    using calculation(3) by (auto simp: no_stats_def published_def dest: arg_cong [where f = d_NAME] split: if_splits)
  ultimately show ?thesis by blast
qed

lemma synthesize_mirrors: "registry_ok r \<Longrightarrow> mirrors (fold registry_frame (SynthesizeFrames r ts) []) r"
proof (induction r rule: rev_induct)
  case Nil
  then show ?case by (simp add: mirrors_def SynthesizeFrames_def)
next
  case (snoc x r)
  obtain k d where x: "x = (k, d)" by force
  have wf: "gm_wf r" "gm_wf (r @ [x])" "k \<notin> fst ` set r"
    using snoc.prems by (auto simp: registry_ok_def gm_wf_def x)
  have get: "gm_get (r @ [x]) k' = Some d' \<longleftrightarrow> (k', d') \<in> set r \<or> k' = k \<and> d' = d" for k' d'
    using gm_get_iff [OF wf(2), of k' d'] by (auto simp: x)
  have ok: "registry_ok r"
    by (rule registry_ok_subset [OF snoc.prems wf(1)]) (auto simp: get dest: gm_get_in)
  have dk: "device_ok k d" "dev_key d = k"
    using snoc.prems get [of k d] by (auto simp: registry_ok_def device_ok_def dev_key_def)
  define q where "q = fold registry_frame (SynthesizeFrames r ts) []"
  have m: "mirrors q r" using snoc.IH [OF ok] by (simp add: q_def)
  have new: "gm_get q k = None"
  proof (rule ccontr)
    assume "gm_get q k \<noteq> None"
    then obtain e where "(k, e) \<in> set q" by (auto dest: gm_get_in)
    then show False using mirrors_members [OF m] wf(3) by force
  qed
  have free: "d_NAME e \<noteq> d_NAME d" 
    if mem: "(k', e) \<in> set q" and bus: "dvk_Bus k' = d_Bus d" and nz: "d_NAME d \<noteq> 0" for k' e
  proof
    assume eq: "d_NAME e = d_NAME d"
    obtain d' where d': "(k', d') \<in> set r" "d_NAME e = d_NAME d'"
      using mirrors_members [OF m mem] by blast
    have "dvk_Bus k' = dvk_Bus k" using dk(1) bus by (simp add: device_ok_def)
    then have "k' = k"
      using snoc.prems d' eq nz get unfolding registry_ok_def unique_names_def by metis
    then show False using d'(1) wf(3) by force
  qed
  obtain d' where "fold registry_frame (device_frames ts d) q = (if d_NAME d = 0 then q else q @ [(k, d')])"
    "no_stats d' = no_stats (published d)"
    using device_frames_new [of d q ts] dk new free by auto
  then show ?case
    using m by (auto simp: SynthesizeFrames_def mirrors_def q_def x)
qed

lemma synthesized_rebuild:
  assumes ok: "registry_ok r"
  shows "map_option no_stats (DeviceRegistry_Get (fold registry_frame (SynthesizeFrames r ts) NewDeviceRegistry) bus src)
   = (case DeviceRegistry_Get r bus src of
        Some d \<Rightarrow> if d_NAME d = 0 then None else Some (no_stats (published d))
      | None \<Rightarrow> None)"
proof -
  define q where "q = fold registry_frame (SynthesizeFrames r ts) NewDeviceRegistry"
  have "gm_get (map (\<lambda>(k, d). (k, no_stats d)) q) k
      = gm_get (map (\<lambda>(k, d). (k, no_stats (published d))) (gm_del_if (\<lambda>k d. d_NAME d = 0) r)) k" for k
    using synthesize_mirrors [OF ok, of ts] by (simp add: mirrors_def q_def NewDeviceRegistry_def gm_del_if_def)
  then have "map_option no_stats (gm_get q k)
      = map_option (\<lambda>d. no_stats (published d)) (gm_get (gm_del_if (\<lambda>k d. d_NAME d = 0) r) k)" for k
    unfolding gm_get_map .
  moreover have "gm_wf r" using ok by (simp add: registry_ok_def)
  ultimately show ?thesis
    unfolding q_def [symmetric] DeviceRegistry_Get_def
    by (simp add: gm_get_del_if split: option.splits)
qed

section \<open>Properties\<close>

text \<open>
  C37: Whatever packets, address claims, product information and expiries a registry has seen, it is
  well formed: every entry carries the bus and source of its key, the identity fields are those of
  its NAME, product strings fit their fields, and a non-zero NAME has at most one holder per bus.
\<close>

theorem registry_always_ok: "registry_ok (dev_run ops)"
  unfolding dev_run_def by (rule registry_ok_fold [OF registry_ok_new])

text \<open>
  The frames a broker synthesizes from its registry rebuild that registry in a fresh broker:
  after handling them, the remote registry has exactly the devices with a NAME, with the same
  identity and product information (statistics start afresh).
\<close>

theorem synthesized_frames_rebuild_registry:
  "map_option no_stats (DeviceRegistry_Get (fold registry_frame (SynthesizeFrames (dev_run ops) ts) NewDeviceRegistry) bus src)
   = (case DeviceRegistry_Get (dev_run ops) bus src of
        Some d \<Rightarrow> if d_NAME d = 0 then None else Some (no_stats (published d))
      | None \<Rightarrow> None)"
  unfolding dev_run_def by (rule synthesized_rebuild [OF registry_ok_fold [OF registry_ok_new]])

end
