(* ===== verification/SendPolicy.thy ===== *)
theory SendPolicy
  imports Devices
begin

text \<open>
  The send policy (\<^verbatim>\<open>sendpolicy/sendpolicy.go\<close>) and its evaluation by the HTTP server
  (\<^verbatim>\<open>checkSendPolicy\<close> in \<^verbatim>\<open>server.go\<close>): which frames a client may transmit. The theorems show that
  evaluation is first match wins with a default deny, that parsed rules are well formed, and that
  parsing inverts the documented rule syntax.
\<close>

section \<open>Rules\<close>

record PGNMatcher =
  pm_Singles :: "u32 list"
  pm_Ranges :: "(u32 \<times> u32) list"

record SendRule =
  sr_Allow :: bool
  sr_PGNs :: "PGNMatcher option"
  sr_Names :: "u64 list"

record SendPolicy =
  sp_Enabled :: bool
  sp_Rules :: "SendRule list"

definition PGNMatcher_Contains :: "PGNMatcher \<Rightarrow> u32 \<Rightarrow> bool" where
  "PGNMatcher_Contains m pgn =
     (if list_ex (\<lambda>s. s = pgn) (pm_Singles m) then True
      else if list_ex (\<lambda>(lo, hi). pgn \<ge> lo \<and> pgn \<le> hi) (pm_Ranges m) then True
      else False)"

definition SendRule_Matches :: "SendRule \<Rightarrow> u32 \<Rightarrow> u64 \<Rightarrow> bool \<Rightarrow> bool" where
  "SendRule_Matches r pgn dstNAME nameKnown =
     (if (case sr_PGNs r of Some m \<Rightarrow> \<not> PGNMatcher_Contains m pgn | None \<Rightarrow> False) then False
      else if length (sr_Names r) > 0 then
        (if \<not> nameKnown then False
         else if dstNAME \<notin> set (sr_Names r) then False
         else True)
      else True)"

section \<open>Parsing\<close>

datatype pgn_error = InvalidPGN string num_error | InvalidRange nat nat | EmptyPGNSpec

datatype rule_parse_error =
  EmptyRule
| InvalidToken string
| InvalidPGNSpec string pgn_error
| InvalidName string num_error
| EmptyNameList
| UnknownKey string

fun parsePGNSpec_loop :: "string list \<Rightarrow> PGNMatcher \<Rightarrow> pgn_error + PGNMatcher" where
  "parsePGNSpec_loop [] m = Inr m"
| "parsePGNSpec_loop (p # ps) m =
     (let part = TrimSpace p
      in if part = [] then parsePGNSpec_loop ps m
         else case Cut (CHR ''-'') part of
           Some (lo, hi) \<Rightarrow>
             (case ParseUint (TrimSpace lo) 10 32 of
                Inl err \<Rightarrow> Inl (InvalidPGN lo err)
              | Inr loVal \<Rightarrow>
                  (case ParseUint (TrimSpace hi) 10 32 of
                     Inl err \<Rightarrow> Inl (InvalidPGN hi err)
                   | Inr hiVal \<Rightarrow>
                       if loVal > hiVal then Inl (InvalidRange loVal hiVal)
                       else parsePGNSpec_loop ps (m\<lparr>pm_Ranges := pm_Ranges m @ [(of_nat loVal, of_nat hiVal)]\<rparr>)))
         | None \<Rightarrow>
             (case ParseUint part 10 32 of
                Inl err \<Rightarrow> Inl (InvalidPGN part err)
              | Inr v \<Rightarrow> parsePGNSpec_loop ps (m\<lparr>pm_Singles := pm_Singles m @ [of_nat v]\<rparr>)))"

definition parsePGNSpec :: "string \<Rightarrow> pgn_error + PGNMatcher" where
  "parsePGNSpec s =
     (case parsePGNSpec_loop (Split (CHR '','') s) \<lparr>pm_Singles = [], pm_Ranges = []\<rparr> of
        Inl err \<Rightarrow> Inl err
      | Inr m \<Rightarrow> if length (pm_Singles m) = 0 \<and> length (pm_Ranges m) = 0 then Inl EmptyPGNSpec else Inr m)"

fun parseNameList_loop :: "string list \<Rightarrow> u64 list \<Rightarrow> rule_parse_error + u64 list" where
  "parseNameList_loop [] names = Inr names"
| "parseNameList_loop (p # ps) names =
     (let part = TrimSpace p
      in if part = [] then parseNameList_loop ps names
         else case ParseUint part 16 64 of
                Inl err \<Rightarrow> Inl (InvalidName part err)
              | Inr v \<Rightarrow> parseNameList_loop ps (names @ [of_nat v]))"

definition parseNameList :: "string \<Rightarrow> rule_parse_error + u64 list" where
  "parseNameList s =
     (case parseNameList_loop (Split (CHR '','') s) [] of
        Inl err \<Rightarrow> Inl err
      | Inr names \<Rightarrow> if length names = 0 then Inl EmptyNameList else Inr names)"

fun parse_tokens :: "string list \<Rightarrow> SendRule \<Rightarrow> rule_parse_error + SendRule" where
  "parse_tokens [] rule = Inr rule"
| "parse_tokens (token # ts) rule =
     (case Cut (CHR '':'') token of
        None \<Rightarrow> Inl (InvalidToken token)
      | Some (key, val) \<Rightarrow>
          if key = ''pgn'' then
            (case parsePGNSpec val of
               Inl err \<Rightarrow> Inl (InvalidPGNSpec val err)
             | Inr m \<Rightarrow> parse_tokens ts (rule\<lparr>sr_PGNs := Some m\<rparr>))
          else if key = ''name'' then
            (case parseNameList val of
               Inl err \<Rightarrow> Inl err
             | Inr names \<Rightarrow> parse_tokens ts (rule\<lparr>sr_Names := names\<rparr>))
          else Inl (UnknownKey key))"

definition ParseSendRule :: "string \<Rightarrow> rule_parse_error + SendRule" where
  "ParseSendRule s0 =
     (let s = TrimSpace s0
      in if s = [] then Inl EmptyRule
         else
           let deny = (hd s = CHR ''!'');
               s' = (if deny then TrimSpace (tl s) else s)
           in parse_tokens (Fields s') \<lparr>sr_Allow = \<not> deny, sr_PGNs = None, sr_Names = []\<rparr>)"

fun ParseSendRules_loop :: "nat \<Rightarrow> string list \<Rightarrow> SendRule list \<Rightarrow> (nat \<times> rule_parse_error) + SendRule list" where
  "ParseSendRules_loop i [] result = Inr result"
| "ParseSendRules_loop i (s # ss) result =
     (case ParseSendRule s of
        Inl err \<Rightarrow> Inl (i + 1, err)
      | Inr r \<Rightarrow> ParseSendRules_loop (i + 1) ss (result @ [r]))"

definition ParseSendRules :: "string list \<Rightarrow> (nat \<times> rule_parse_error) + SendRule list" where
  "ParseSendRules rules = ParseSendRules_loop 0 rules []"

section \<open>Evaluation\<close>

datatype send_refusal = ReadOnlyMode | SendDisabled | DeniedByRule u32 u8 | NoRuleMatched u32 u8

fun eval_rules :: "SendRule list \<Rightarrow> u32 \<Rightarrow> u8 \<Rightarrow> u64 \<Rightarrow> bool \<Rightarrow> send_refusal option" where
  "eval_rules [] pgn dst dstNAME nameKnown = Some (NoRuleMatched pgn dst)"
| "eval_rules (rule # rules) pgn dst dstNAME nameKnown =
     (if SendRule_Matches rule pgn dstNAME nameKnown
      then (if sr_Allow rule then None else Some (DeniedByRule pgn dst))
      else eval_rules rules pgn dst dstNAME nameKnown)"

text \<open>\<open>None\<close> when the frame may be sent, otherwise the error written to the client.\<close>

definition checkSendPolicy ::
  "bool \<Rightarrow> SendPolicy \<Rightarrow> DeviceRegistry \<Rightarrow> string \<Rightarrow> u32 \<Rightarrow> u8 \<Rightarrow> send_refusal option" where
  "checkSendPolicy readOnly policy devices bus pgn dst =
     (if readOnly then Some ReadOnlyMode
      else if \<not> sp_Enabled policy then Some SendDisabled
      else if length (sp_Rules policy) = 0 then None
      else
        let (dstNAME, nameKnown) =
              (if dst \<noteq> 0xFF then
                 (case DeviceRegistry_Get devices bus dst of
                    Some dev \<Rightarrow> (d_NAME dev, True)
                  | None \<Rightarrow> (0, False))
               else (0, False))
        in eval_rules (sp_Rules policy) pgn dst dstNAME nameKnown)"

section \<open>Lemmas\<close>

definition rule_applies :: "SendRule \<Rightarrow> DeviceRegistry \<Rightarrow> string \<Rightarrow> u32 \<Rightarrow> u8 \<Rightarrow> bool" where
  "rule_applies r devices bus pgn dst \<longleftrightarrow>
     (\<forall>m. sr_PGNs r = Some m \<longrightarrow> pgn \<in> set (pm_Singles m) \<or> (\<exists>(lo, hi) \<in> set (pm_Ranges m). lo \<le> pgn \<and> pgn \<le> hi))
     \<and> (sr_Names r = [] \<or> dst \<noteq> 0xFF \<and>
          (\<exists>dev. DeviceRegistry_Get devices bus dst = Some dev \<and> d_NAME dev \<in> set (sr_Names r)))"

lemma Matches_applies:
  "SendRule_Matches r pgn
     (case (if dst \<noteq> 0xFF then (case DeviceRegistry_Get devices bus dst of Some dev \<Rightarrow> (d_NAME dev, True) | None \<Rightarrow> (0, False))
        else (0, False)) of (n, k) \<Rightarrow> n)
     (case (if dst \<noteq> 0xFF then (case DeviceRegistry_Get devices bus dst of Some dev \<Rightarrow> (d_NAME dev, True) | None \<Rightarrow> (0, False))
        else (0, False)) of (n, k) \<Rightarrow> k)
   \<longleftrightarrow> rule_applies r devices bus pgn dst"
  by (auto simp: SendRule_Matches_def rule_applies_def PGNMatcher_Contains_def list_ex_iff
      split: option.splits)

lemma eval_rules_None:
  "eval_rules rules pgn dst n k = None \<longleftrightarrow>
     (\<exists>i < length rules. SendRule_Matches (rules ! i) pgn n k \<and> sr_Allow (rules ! i) \<and>
        (\<forall>j < i. \<not> SendRule_Matches (rules ! j) pgn n k))"
proof (induction rules)
  case (Cons r rules)
  show ?case
  proof (cases "SendRule_Matches r pgn n k")
    case True
    then show ?thesis
      by (auto intro!: exI [of _ 0]) (metis not_gr_zero nth_Cons_0)
  next
    case False
    then have "(\<exists>i < length (r # rules). SendRule_Matches ((r # rules) ! i) pgn n k \<and> sr_Allow ((r # rules) ! i) \<and>
        (\<forall>j < i. \<not> SendRule_Matches ((r # rules) ! j) pgn n k)) \<longleftrightarrow>
      (\<exists>i < length rules. SendRule_Matches (rules ! i) pgn n k \<and> sr_Allow (rules ! i) \<and>
        (\<forall>j < i. \<not> SendRule_Matches (rules ! j) pgn n k))"
      by (simp add: Ex_less_Suc2 All_less_Suc2)
    then show ?thesis using Cons False by simp
  qed
qed simp

definition ordered :: "(u32 \<times> u32) list \<Rightarrow> bool" where
  "ordered rs \<longleftrightarrow> (\<forall>(lo, hi) \<in> set rs. lo \<le> hi)"

definition matcher_ok :: "PGNMatcher \<Rightarrow> bool" where
  "matcher_ok m \<longleftrightarrow> (pm_Singles m \<noteq> [] \<or> pm_Ranges m \<noteq> []) \<and> ordered (pm_Ranges m)"

definition rule_ok :: "SendRule \<Rightarrow> bool" where
  "rule_ok r \<longleftrightarrow> (\<forall>m. sr_PGNs r = Some m \<longrightarrow> matcher_ok m)"

lemma of_nat_le_u32: "n < 2 ^ 32 \<Longrightarrow> k \<le> n \<Longrightarrow> (of_nat k :: u32) \<le> of_nat n"
  by (simp add: word_le_nat_alt unat_of_nat)

lemma parsePGNSpec_loop_ranges:
  "parsePGNSpec_loop ps m = Inr m' \<Longrightarrow> ordered (pm_Ranges m) \<Longrightarrow> ordered (pm_Ranges m')"
proof (induction ps arbitrary: m)
  case (Cons p ps)
  show ?case
  proof (cases "TrimSpace p = [] \<or> Cut (CHR ''-'') (TrimSpace p) = None")
    case True
    then show ?thesis
      using Cons.prems by (auto simp: Let_def split: sum.splits if_splits intro: Cons.IH)
  next
    case False
    then obtain lo hi where c: "TrimSpace p \<noteq> []" "Cut (CHR ''-'') (TrimSpace p) = Some (lo, hi)" by auto
    obtain a b where ab: "ParseUint (TrimSpace lo) 10 32 = Inr a" "ParseUint (TrimSpace hi) 10 32 = Inr b" "a \<le> b"
      "parsePGNSpec_loop ps (m\<lparr>pm_Ranges := pm_Ranges m @ [(of_nat a, of_nat b)]\<rparr>) = Inr m'"
      using Cons.prems(1) c by (simp add: Let_def split: sum.splits if_splits)
    have "ordered (pm_Ranges (m\<lparr>pm_Ranges := pm_Ranges m @ [(of_nat a, of_nat b)]\<rparr>))"
      using Cons.prems(2) of_nat_le_u32 [OF ParseUint_bound [OF ab(2)] ab(3)] by (simp add: ordered_def)
    then show ?thesis by (rule Cons.IH [OF ab(4)])
  qed
qed simp

lemma parsePGNSpec_ok: "parsePGNSpec s = Inr m \<Longrightarrow> matcher_ok m"
  using parsePGNSpec_loop_ranges [of "Split (CHR '','') s" "\<lparr>pm_Singles = [], pm_Ranges = []\<rparr>" m]
  by (auto simp: parsePGNSpec_def matcher_ok_def ordered_def split: sum.splits if_splits)

lemma parse_tokens_ok: "parse_tokens ts r = Inr r' \<Longrightarrow> rule_ok r \<Longrightarrow> rule_ok r'"
proof (induction ts arbitrary: r)
  case (Cons t ts)
  then show ?case
    using parsePGNSpec_ok by (fastforce simp: rule_ok_def split: option.splits if_splits sum.splits)
qed simp

lemma ParseSendRule_ok: "ParseSendRule s = Inr r \<Longrightarrow> rule_ok r"
  by (auto simp: ParseSendRule_def Let_def rule_ok_def split: if_splits
      dest!: parse_tokens_ok [unfolded rule_ok_def])

section \<open>The documented syntax\<close>

text \<open>A rule written in the syntax of the package documentation.\<close>

definition render_range :: "u32 \<times> u32 \<Rightarrow> string" where
  "render_range r = FormatUint 10 (unat (fst r)) @ CHR ''-'' # FormatUint 10 (unat (snd r))"

definition render_parts :: "PGNMatcher \<Rightarrow> string list" where
  "render_parts m = map (\<lambda>n. FormatUint 10 (unat n)) (pm_Singles m) @ map render_range (pm_Ranges m)"

definition render_tokens :: "SendRule \<Rightarrow> string list" where
  "render_tokens r =
     (case sr_PGNs r of Some m \<Rightarrow> [''pgn:'' @ join (CHR '','') (render_parts m)] | None \<Rightarrow> []) @
     (if sr_Names r = [] then [] else [''name:'' @ join (CHR '','') (map (\<lambda>n. FormatUint 16 (unat n)) (sr_Names r))])"

definition render_rule :: "SendRule \<Rightarrow> string" where
  "render_rule r = (if sr_Allow r then [] else ''!'') @ join (CHR '' '') (render_tokens r)"

lemma render_range_plain: "c \<in> set (render_range r) \<Longrightarrow> plain c \<and> c \<noteq> CHR '',''"
  using FormatUint_plain [of 10] FormatUint_no_sep(1) [of 10]
  by (auto simp: render_range_def plain_def bcode_def)

lemma TrimSpace_render_range [simp]: "TrimSpace (render_range r) = render_range r"
proof (rule TrimSpace_plain)
  show ne: "render_range r \<noteq> []" by (simp add: render_range_def)
  show "plain (hd (render_range r))" "plain (last (render_range r))"
    using ne render_range_plain [of _ r] by (simp_all add: hd_in_set last_in_set)
qed

lemma ParseUint_word [simp]: "ParseUint (FormatUint 10 (unat (w :: u32))) 10 32 = Inr (unat w)"
  "ParseUint (FormatUint 16 (unat (v :: u64))) 16 64 = Inr (unat v)"
  using unat_less_pow [of w] unat_less_pow [of v] by (auto intro!: ParseUint_Format)

lemma Cut_single [simp]: "Cut (CHR ''-'') (FormatUint 10 n) = None"
  by (simp add: Cut_None FormatUint_no_sep)

lemma Cut_range [simp]:
  "Cut (CHR ''-'') (render_range r) = Some (FormatUint 10 (unat (fst r)), FormatUint 10 (unat (snd r)))"
  unfolding render_range_def by (rule Cut_append) (simp add: FormatUint_no_sep)

lemma parse_singles:
  "parsePGNSpec_loop (map (\<lambda>n. FormatUint 10 (unat n)) ns @ ps) m =
     parsePGNSpec_loop ps (m\<lparr>pm_Singles := pm_Singles m @ ns\<rparr>)"
  by (induction ns arbitrary: m) (simp_all add: Let_def)

lemma render_range_not_Nil [simp]: "render_range r \<noteq> []"
  by (simp add: render_range_def)

lemma parse_ranges:
  "ordered rs \<Longrightarrow> parsePGNSpec_loop (map render_range rs) m = Inr (m\<lparr>pm_Ranges := pm_Ranges m @ rs\<rparr>)"
proof (induction rs arbitrary: m)
  case (Cons r rs)
  have "\<not> unat (snd r) < unat (fst r)"
    using Cons.prems by (auto simp: ordered_def word_le_nat_alt)
  then show ?case
    using Cons by (simp add: Let_def ordered_def)
qed simp

lemma parsePGNSpec_render:
  assumes "matcher_ok m"
  shows "parsePGNSpec (join (CHR '','') (render_parts m)) = Inr m"
proof -
  have "\<forall>w \<in> set (render_parts m). CHR '','' \<notin> set w"
    using render_range_plain FormatUint_no_sep(1) [of 10] by (auto simp: render_parts_def)
  then have "Split (CHR '','') (join (CHR '','') (render_parts m)) = render_parts m"
    using assms by (intro Split_join) (auto simp: matcher_ok_def render_parts_def)
  then show ?thesis
    using assms by (auto simp: parsePGNSpec_def render_parts_def parse_singles parse_ranges matcher_ok_def)
qed

lemma parse_names:
  "parseNameList_loop (map (\<lambda>n. FormatUint 16 (unat n)) ns) acc = Inr (acc @ ns)"
  by (induction ns arbitrary: acc) (simp_all add: Let_def)

lemma parseNameList_render:
  "ns \<noteq> [] \<Longrightarrow> parseNameList (join (CHR '','') (map (\<lambda>n. FormatUint 16 (unat n)) ns)) = Inr ns"
  using FormatUint_no_sep(1) [of 16]
  by (simp add: parseNameList_def Split_join parse_names)

lemma Cut_key [simp]: "Cut (CHR '':'') (''pgn:'' @ v) = Some (''pgn'', v)" "Cut (CHR '':'') (''name:'' @ v) = Some (''name'', v)"
  by simp_all

lemma parse_tokens_render:
  assumes "rule_ok r"
  shows "parse_tokens (render_tokens r) \<lparr>sr_Allow = sr_Allow r, sr_PGNs = None, sr_Names = []\<rparr> = Inr r"
  using assms
  by (cases r; cases "sr_PGNs r")
     (auto simp: render_tokens_def rule_ok_def parsePGNSpec_render parseNameList_render)

lemma join_plain:
  assumes "\<forall>w \<in> set ws. \<forall>c \<in> set w. plain c" "c \<in> set (join (CHR '','') ws)"
  shows "plain c"
proof (cases "c = CHR '',''")
  case True then show ?thesis by (simp add: plain_def bcode_def)
next
  case False
  then show ?thesis using assms set_join [of "CHR '',''" ws] by blast
qed

lemma render_tokens_plain: "w \<in> set (render_tokens r) \<Longrightarrow> w \<noteq> [] \<and> hd w \<noteq> CHR ''!'' \<and> (\<forall>c \<in> set w. plain c)"
proof -
  have key: "plain c" if "c \<in> set ''pgn:'' \<or> c \<in> set ''name:''" for c
    using that by (auto simp: plain_def bcode_def)
  have "plain c" if "c \<in> set (join (CHR '','') (render_parts m))" for c m
    using that by (rule join_plain [rotated])
      (use render_range_plain FormatUint_plain [of 10] in \<open>auto simp: render_parts_def\<close>)
  moreover have "plain c" if "c \<in> set (join (CHR '','') (map (\<lambda>n. FormatUint 16 (unat (n :: u64))) ns))" for c ns
    using that by (rule join_plain [rotated]) (use FormatUint_plain [of 16] in auto)
  ultimately show "w \<in> set (render_tokens r) \<Longrightarrow> ?thesis"
    using key by (auto simp: render_tokens_def split: option.splits if_splits)
qed

lemma Fields_join:
  "\<forall>w \<in> set ws. w \<noteq> [] \<and> (\<forall>c \<in> set w. plain c) \<Longrightarrow> Fields (join (CHR '' '') ws) = ws"
proof (induction ws)
  case (Cons w ws)
  then show ?case by (cases ws) (simp_all add: Fields_plain)
qed simp

lemma last_join: "ws \<noteq> [] \<Longrightarrow> \<forall>w \<in> set ws. w \<noteq> [] \<Longrightarrow> last (join sep ws) = last (last ws) \<and> hd (join sep ws) = hd (hd ws)
    \<and> join sep ws \<noteq> []"
  by (induction ws rule: list_nonempty_induct) (auto simp: join_Cons)

lemma ParseSendRules_loop_ok:
  "ParseSendRules_loop i ss acc = Inr rs \<Longrightarrow> list_all rule_ok acc \<Longrightarrow> list_all rule_ok rs \<and> length rs = length acc + length ss"
  by (induction ss arbitrary: i acc) (auto split: sum.splits dest: ParseSendRule_ok)

lemma parse_render_rule:
  assumes "rule_ok r" "sr_Allow r \<longrightarrow> sr_PGNs r \<noteq> None \<or> sr_Names r \<noteq> []"
  shows "ParseSendRule (render_rule r) = Inr r"
proof -
  let ?ts = "render_tokens r" and ?body = "join (CHR '' '') (render_tokens r)"
  have pl: "\<forall>w \<in> set ?ts. w \<noteq> [] \<and> hd w \<noteq> CHR ''!'' \<and> (\<forall>c \<in> set w. plain c)"
    using render_tokens_plain by blast
  have fields: "Fields ?body = ?ts" using pl by (intro Fields_join) auto
  have parse: "parse_tokens ?ts \<lparr>sr_Allow = sr_Allow r, sr_PGNs = None, sr_Names = []\<rparr> = Inr r"
    by (rule parse_tokens_render [OF assms(1)])
  have bang: "plain (CHR ''!'')" by (simp add: plain_def bcode_def)
  show ?thesis
  proof (cases "?ts = []")
    case True
    then have "render_rule r = ''!''" "\<not> sr_Allow r"
      using assms(2) by (auto simp: render_rule_def render_tokens_def split: option.splits if_splits)
    then show ?thesis
      using parse True bang by (simp add: ParseSendRule_def TrimSpace_plain)
  next
    case False
    have lj: "last ?body = last (last ?ts)" "hd ?body = hd (hd ?ts)" "?body \<noteq> []"
      using last_join [OF False, of "CHR '' ''"] pl by auto
    have "last ?ts \<in> set ?ts" "hd ?ts \<in> set ?ts" using False by simp_all
    then have ends: "plain (last ?body)" "plain (hd ?body)" "hd ?body \<noteq> CHR ''!''"
      using lj pl by (metis last_in_set hd_in_set)+
    then have trim: "TrimSpace ?body = ?body" by (intro TrimSpace_plain lj)
    show ?thesis
    proof (cases "sr_Allow r")
      case True
      then show ?thesis
        using trim ends lj(3) fields parse by (simp add: ParseSendRule_def render_rule_def)
    next
      case deny: False
      have "TrimSpace (''!'' @ ?body) = ''!'' @ ?body"
        by (rule TrimSpace_plain) (use bang ends lj(3) in auto)
      then show ?thesis
        using deny trim fields parse by (simp add: ParseSendRule_def render_rule_def)
    qed
  qed
qed

section \<open>Properties\<close>

text \<open>
  C35: A frame may be sent exactly when the server is not read-only, sending is enabled, and either
  there are no rules or the first rule that applies to the frame's PGN and to the NAME of its
  destination is an allow rule; a rule with NAMEs never applies to broadcasts or to unknown
  destinations.
\<close>

theorem send_policy_first_match:
  "checkSendPolicy readOnly policy devices bus pgn dst = None \<longleftrightarrow>
     \<not> readOnly \<and> sp_Enabled policy \<and>
     (sp_Rules policy = [] \<or>
      (\<exists>i < length (sp_Rules policy). rule_applies (sp_Rules policy ! i) devices bus pgn dst \<and> sr_Allow (sp_Rules policy ! i) \<and>
         (\<forall>j < i. \<not> rule_applies (sp_Rules policy ! j) devices bus pgn dst)))"
  by (simp add: checkSendPolicy_def Let_def case_prod_beta eval_rules_None Matches_applies [unfolded case_prod_beta, symmetric])

theorem send_policy_first_match_witness:
  "checkSendPolicy False
     \<lparr>sp_Enabled = True, sp_Rules = [\<lparr>sr_Allow = False, sr_PGNs = Some \<lparr>pm_Singles = [], pm_Ranges = [(65280, 65535)]\<rparr>, sr_Names = []\<rparr>,
        \<lparr>sr_Allow = True, sr_PGNs = None, sr_Names = []\<rparr>]\<rparr> [] ''can0'' 59904 255 = None"
  unfolding send_policy_first_match
  by (rule conjI, simp, rule conjI, simp, rule disjI2, rule exI [of _ 1])
     (simp add: rule_applies_def less_Suc_eq)

text \<open>
  C36: Parsing inverts the documented rule syntax: a rule written as
  \<open>[!] [pgn:spec] [name:hex,...]\<close> parses back to the same rule, for every rule with non-empty matchers
  and ordered ranges (and, for an allow rule, at least one matcher).
\<close>

theorem ParseSendRule_render:
  assumes "rule_ok r" "sr_Allow r \<longrightarrow> sr_PGNs r \<noteq> None \<or> sr_Names r \<noteq> []"
  shows "ParseSendRule (render_rule r) = Inr r"
  using assms by (rule parse_render_rule)

theorem ParseSendRule_render_witness:
  "ParseSendRule (render_rule \<lparr>sr_Allow = False, sr_PGNs = Some \<lparr>pm_Singles = [59904], pm_Ranges = [(65280, 65535)]\<rparr>, sr_Names = [0x1c6e4000200000]\<rparr>)
     = Inr \<lparr>sr_Allow = False, sr_PGNs = Some \<lparr>pm_Singles = [59904], pm_Ranges = [(65280, 65535)]\<rparr>, sr_Names = [0x1c6e4000200000]\<rparr>"
  by (rule ParseSendRule_render) (simp_all add: rule_ok_def matcher_ok_def ordered_def)

text \<open>
  Every rule list that parses is well formed: PGN matchers are not empty and their ranges are
  not inverted, so that a range never matches nothing by mistake.
\<close>

theorem ParseSendRules_wellformed:
  assumes "ParseSendRules ss = Inr rs"
  shows "list_all rule_ok rs \<and> length rs = length ss"
  using ParseSendRules_loop_ok [OF assms [unfolded ParseSendRules_def]] by simp

definition sample_rules :: "SendRule list" where
  "sample_rules =
     [\<lparr>sr_Allow = True, sr_PGNs = Some \<lparr>pm_Singles = [59904], pm_Ranges = [(65280, 65535)]\<rparr>, sr_Names = []\<rparr>,
      \<lparr>sr_Allow = False, sr_PGNs = None, sr_Names = [0x1c6e4000200000]\<rparr>]"

theorem ParseSendRules_wellformed_witness:
  "\<exists>rs. ParseSendRules (map render_rule sample_rules) = Inr rs \<and> list_all rule_ok rs \<and> length rs = 2"
proof -
  have "ParseSendRules (map render_rule sample_rules) = Inr sample_rules"
    by (simp add: ParseSendRules_def sample_rules_def parse_render_rule rule_ok_def matcher_ok_def ordered_def)
  from ParseSendRules_wellformed [OF this] this show ?thesis by (auto simp: sample_rules_def)
qed

end
