(* ===== verification/VirtualDevice.thy ===== *)
theory VirtualDevice
  imports Devices
begin

text \<open>
  Virtual NMEA 2000 devices (\<^verbatim>\<open>virtual_device.go\<close>): the address-claim state machine of the devices
  the server itself puts on the bus. \<^verbatim>\<open>txFunc\<close> is the list of frames an operation sends, the device
  registry and the clock are arguments. The theorems show that active virtual devices always hold
  distinct addresses in the claimable range, that address conflicts are decided by the lower NAME,
  and that a device is told to give up only when no address is free.
\<close>

datatype ClaimState = ClaimIdle | ClaimInProgress | ClaimHeld | ClaimCannotClaim

definition ClaimState_String :: "ClaimState \<Rightarrow> string" where
  "ClaimState_String s =
     (case s of
        ClaimIdle \<Rightarrow> ''idle''
      | ClaimInProgress \<Rightarrow> ''in_progress''
      | ClaimHeld \<Rightarrow> ''held''
      | ClaimCannotClaim \<Rightarrow> ''cannot_claim'')"

record VirtualProductInfo =
  vp_ModelID :: string
  vp_SoftwareVersion :: string
  vp_ModelVersion :: string
  vp_ModelSerial :: string
  vp_ProductCode :: u16

record VirtualDeviceConfig =
  vc_NAME :: u64
  vc_ProductInfo :: VirtualProductInfo

record VirtualDevice =
  vd_cfg :: VirtualDeviceConfig
  vd_state :: ClaimState
  vd_source :: u8
  vd_readyAt :: gotime

record VirtualDeviceManager =
  vm_devices :: "VirtualDevice list"
  vm_claimInterval :: duration
  vm_productInfoInterval :: duration
  vm_lastClaimAt :: gotime
  vm_lastProductInfoAt :: gotime

definition DefaultClaimHeartbeat :: duration where
  "DefaultClaimHeartbeat = 60 * 10 ^ 9"

definition DefaultProductInfoHeartbeat :: duration where
  "DefaultProductInfoHeartbeat = 5 * 60 * 10 ^ 9"

definition NewVirtualDeviceManager :: "duration \<Rightarrow> duration \<Rightarrow> VirtualDeviceManager" where
  "NewVirtualDeviceManager claimInterval productInfoInterval =
     \<lparr>vm_devices = [],
      vm_claimInterval = (if claimInterval \<le> 0 then DefaultClaimHeartbeat else claimInterval),
      vm_productInfoInterval = (if productInfoInterval \<le> 0 then DefaultProductInfoHeartbeat else productInfoInterval),
      vm_lastClaimAt = zeroTime, vm_lastProductInfoAt = zeroTime\<rparr>"

definition VirtualDeviceManager_Add :: "VirtualDeviceManager \<Rightarrow> VirtualDeviceConfig \<Rightarrow> VirtualDeviceManager" where
  "VirtualDeviceManager_Add m cfg =
     m\<lparr>vm_devices := vm_devices m @ [\<lparr>vd_cfg = cfg, vd_state = ClaimIdle, vd_source = 0, vd_readyAt = zeroTime\<rparr>]\<rparr>"

definition sendAddressClaim :: "VirtualDevice \<Rightarrow> u8 \<Rightarrow> TxRequest" where
  "sendAddressClaim dev source =
     \<lparr>tx_Header = \<lparr>h_Priority = 6, h_PGN = 60928, h_Source = source, h_Destination = 255\<rparr>,
      tx_Data = LE_PutUint64 (vc_NAME (vd_cfg dev)), tx_Bus = []\<rparr>"

definition virtual_product_data :: "VirtualProductInfo \<Rightarrow> bytes" where
  "virtual_product_data info = LE_PutUint16 0x0834 @ LE_PutUint16 (vp_ProductCode info)
     @ encodeFixedString 32 (vp_ModelID info) @ encodeFixedString 40 (vp_SoftwareVersion info)
     @ encodeFixedString 24 (vp_ModelVersion info) @ encodeFixedString 32 (vp_ModelSerial info) @ [0, 0]"

definition sendProductInfo :: "VirtualDevice \<Rightarrow> TxRequest" where
  "sendProductInfo dev =
     \<lparr>tx_Header = \<lparr>h_Priority = 6, h_PGN = 126996, h_Source = vd_source dev, h_Destination = 255\<rparr>,
      tx_Data = virtual_product_data (vc_ProductInfo (vd_cfg dev)), tx_Bus = []\<rparr>"

definition active :: "VirtualDevice \<Rightarrow> bool" where
  "active dev \<longleftrightarrow> vd_state dev = ClaimInProgress \<or> vd_state dev = ClaimHeld"

text \<open>The scan from 252 down to 0 for an address that is not taken.\<close>

definition findFreeAddress :: "VirtualDevice list \<Rightarrow> DeviceRegistry \<Rightarrow> u8 option" where
  "findFreeAddress devs registry =
     (let taken = map d_Source (DeviceRegistry_Snapshot registry) @ map vd_source (filter active devs)
      in map_option of_nat (find (\<lambda>addr. (of_nat addr :: u8) \<notin> set taken) (rev [0..<253])))"

text \<open>The claim of the \<open>i\<close>-th device: its new state and the frame it sends.\<close>

definition claimForDevice :: "VirtualDevice list \<Rightarrow> DeviceRegistry \<Rightarrow> gotime \<Rightarrow> nat \<Rightarrow> VirtualDevice list \<times> TxRequest" where
  "claimForDevice devs registry now i =
     (let dev = devs ! i
      in case findFreeAddress devs registry of
           None \<Rightarrow>
             (devs[i := dev\<lparr>vd_state := ClaimCannotClaim, vd_source := 254\<rparr>], sendAddressClaim dev 254)
         | Some addr \<Rightarrow>
             (devs[i := dev\<lparr>vd_source := addr, vd_state := ClaimInProgress, vd_readyAt := now + 250 * 10 ^ 6\<rparr>],
              sendAddressClaim dev addr))"

definition StartAfterDiscovery ::
  "VirtualDeviceManager \<Rightarrow> DeviceRegistry \<Rightarrow> gotime \<Rightarrow> VirtualDeviceManager \<times> TxRequest list" where
  "StartAfterDiscovery m registry now =
     (let (devs, txs) = fold (\<lambda>i (devs, txs). let (devs', tx) = claimForDevice devs registry now i in (devs', txs @ [tx]))
            [0..<length (vm_devices m)] (vm_devices m, [])
      in (m\<lparr>vm_lastClaimAt := now, vm_lastProductInfoAt := now, vm_devices := devs\<rparr>, txs))"

definition Heartbeat :: "VirtualDeviceManager \<Rightarrow> gotime \<Rightarrow> VirtualDeviceManager \<times> TxRequest list" where
  "Heartbeat m now =
     (let sendClaims = (time_Sub now (vm_lastClaimAt m) \<ge> vm_claimInterval m);
          sendProduct = (time_Sub now (vm_lastProductInfoAt m) \<ge> vm_productInfoInterval m)
      in if \<not> sendClaims \<and> \<not> sendProduct then (m, [])
         else
           (m\<lparr>vm_lastClaimAt := (if sendClaims then now else vm_lastClaimAt m),
              vm_lastProductInfoAt := (if sendProduct then now else vm_lastProductInfoAt m)\<rparr>,
            concat (map (\<lambda>dev.
                if vd_state dev \<noteq> ClaimHeld then []
                else (if sendClaims then [sendAddressClaim dev (vd_source dev)] else [])
                   @ (if sendProduct then [sendProductInfo dev] else []))
              (vm_devices m))))"

text \<open>The loop of \<^verbatim>\<open>HandleBusClaim\<close> from device \<open>i\<close> on: it stops at the first device at that address.\<close>

definition busclaim_device ::
  "VirtualDeviceManager \<Rightarrow> DeviceRegistry \<Rightarrow> gotime \<Rightarrow> u64 \<Rightarrow> nat \<Rightarrow> VirtualDeviceManager \<times> TxRequest list \<times> bool" where
  "busclaim_device m registry now name i =
     (let dev = vm_devices m ! i
      in if vc_NAME (vd_cfg dev) = name then
           ((if vd_state dev = ClaimInProgress
             then m\<lparr>vm_devices := (vm_devices m)[i := dev\<lparr>vd_state := ClaimHeld\<rparr>]\<rparr> else m), [], True)
         else if vc_NAME (vd_cfg dev) < name then
           (m, [sendAddressClaim dev (vd_source dev)], False)
         else
           (let (devs, tx) = claimForDevice (vm_devices m) registry now i
            in (m\<lparr>vm_devices := devs\<rparr>, [tx], False)))"

definition HandleBusClaim ::
  "VirtualDeviceManager \<Rightarrow> DeviceRegistry \<Rightarrow> gotime \<Rightarrow> u8 \<Rightarrow> u64 \<Rightarrow> VirtualDeviceManager \<times> TxRequest list \<times> bool" where
  "HandleBusClaim m registry now source name =
     (case find (\<lambda>i. active (vm_devices m ! i) \<and> vd_source (vm_devices m ! i) = source) [0..<length (vm_devices m)] of
        None \<Rightarrow> (m, [], False)
      | Some i \<Rightarrow> busclaim_device m registry now name i)"

definition HandleISORequest :: "VirtualDeviceManager \<Rightarrow> u8 \<Rightarrow> u32 \<Rightarrow> u8 \<Rightarrow> TxRequest list" where
  "HandleISORequest m dst requestedPGN requesterSrc =
     concat (map (\<lambda>dev.
         if \<not> active dev then []
         else if dst \<noteq> 255 \<and> dst \<noteq> vd_source dev then []
         else if requestedPGN = 60928 then [sendAddressClaim dev (vd_source dev)]
         else if requestedPGN = 126996 then [sendProductInfo dev]
         else [])
       (vm_devices m))"

definition ClaimedSource :: "VirtualDeviceManager \<Rightarrow> u8 option" where
  "ClaimedSource m = map_option vd_source (find (\<lambda>dev. vd_state dev = ClaimHeld) (vm_devices m))"

definition VirtualDeviceManager_Ready :: "VirtualDeviceManager \<Rightarrow> gotime \<Rightarrow> bool" where
  "VirtualDeviceManager_Ready m now = list_ex (\<lambda>dev. vd_state dev = ClaimHeld \<and> \<not> now < vd_readyAt dev) (vm_devices m)"

record VirtualDeviceStatus =
  vs_NAME :: string
  vs_Source :: u8
  vs_State :: string
  vs_ModelID :: string

definition VirtualDeviceManager_Devices :: "VirtualDeviceManager \<Rightarrow> VirtualDeviceStatus list" where
  "VirtualDeviceManager_Devices m =
     map (\<lambda>dev. \<lparr>vs_NAME = hex16 (vc_NAME (vd_cfg dev)), vs_Source = vd_source dev,
                vs_State = ClaimState_String (vd_state dev), vs_ModelID = vp_ModelID (vc_ProductInfo (vd_cfg dev))\<rparr>)
       (vm_devices m)"

definition ProductInfoPayload :: "VirtualDeviceManager \<Rightarrow> u8 \<Rightarrow> bytes option" where
  "ProductInfoPayload m source =
     map_option (\<lambda>dev. virtual_product_data (vc_ProductInfo (vd_cfg dev)))
       (find (\<lambda>dev. vd_source dev = source) (vm_devices m))"

section \<open>Address selection\<close>

lemma findFreeAddress_Some:
  assumes "findFreeAddress devs registry = Some a"
  shows "a \<le> 252" "\<forall>d \<in> set (DeviceRegistry_Snapshot registry). d_Source d \<noteq> a"
    "\<forall>d \<in> set devs. active d \<longrightarrow> vd_source d \<noteq> a"
proof -
  obtain n where n: "find (\<lambda>addr. (of_nat addr :: u8) \<notin> set (map d_Source (DeviceRegistry_Snapshot registry) @
      map vd_source (filter active devs))) (rev [0..<253]) = Some n" and a: "a = of_nat n"
    using assms by (auto simp: findFreeAddress_def Let_def)
  from n have "n \<in> set (rev [0..<253])" "(of_nat n :: u8) \<notin> set (map d_Source (DeviceRegistry_Snapshot registry) @
      map vd_source (filter active devs))"
    unfolding find_Some_iff by (auto simp del: upt_rec_numeral) (metis nth_mem length_rev length_upt diff_zero set_rev set_upt atLeastLessThan_iff)+
  then show "a \<le> 252" "\<forall>d \<in> set (DeviceRegistry_Snapshot registry). d_Source d \<noteq> a"
    "\<forall>d \<in> set devs. active d \<longrightarrow> vd_source d \<noteq> a"
    by (auto simp: a word_le_nat_alt unat_of_nat image_iff simp del: upt_rec_numeral)
qed

lemma findFreeAddress_None:
  assumes "findFreeAddress devs registry = None" "a \<le> 252"
  shows "(\<exists>d \<in> set (DeviceRegistry_Snapshot registry). d_Source d = a) \<or> (\<exists>d \<in> set devs. active d \<and> vd_source d = a)"
proof -
  have "unat a < 253" using assms(2) by (simp add: word_le_nat_alt)
  moreover have "(of_nat n :: u8) \<in> set (map d_Source (DeviceRegistry_Snapshot registry) @ map vd_source (filter active devs))"
    if "n < 253" for n
    using assms(1) that by (auto simp: findFreeAddress_def Let_def find_None_iff simp del: upt_rec_numeral)
  ultimately have "(of_nat (unat a) :: u8) \<in> set (map d_Source (DeviceRegistry_Snapshot registry) @ map vd_source (filter active devs))"
    by blast
  then show ?thesis by auto
qed

definition addresses_ok :: "VirtualDevice list \<Rightarrow> bool" where
  "addresses_ok devs \<longleftrightarrow> (\<forall>i < length devs. active (devs ! i) \<longrightarrow> vd_source (devs ! i) \<le> 252 \<and>
     (\<forall>j < length devs. i \<noteq> j \<and> active (devs ! j) \<longrightarrow> vd_source (devs ! i) \<noteq> vd_source (devs ! j)))"

lemma addresses_ok_list:
  "addresses_ok devs \<Longrightarrow> distinct (map vd_source (filter active devs)) \<and> list_all (\<lambda>d. vd_source d \<le> 252) (filter active devs)"
proof (induction devs)
  case (Cons d devs)
  have ok: "addresses_ok devs"
    using Cons.prems by (simp add: addresses_ok_def All_less_Suc2)
  have "vd_source d \<le> 252" "\<forall>x \<in> set devs. active x \<longrightarrow> vd_source x \<noteq> vd_source d" if "active d"
    using Cons.prems that by (auto simp: in_set_conv_nth addresses_ok_def All_less_Suc2)
  then show ?case using Cons.IH [OF ok] by auto
qed simp

lemma addresses_ok_update_active:
  assumes ok: "addresses_ok devs" and a: "vd_source d \<le> 252"
    and free: "\<forall>x \<in> set devs. active x \<longrightarrow> vd_source x \<noteq> vd_source d"
  shows "addresses_ok (devs[i := d])"
  unfolding addresses_ok_def
proof (intro allI impI conjI)
  fix j assume j: "j < length (devs[i := d])" "active (devs[i := d] ! j)"
  show "vd_source (devs[i := d] ! j) \<le> 252"
    using j ok a by (cases "j = i") (auto simp: addresses_ok_def)
  fix k assume k: "k < length (devs[i := d])" "j \<noteq> k \<and> active (devs[i := d] ! k)"
  then show "vd_source (devs[i := d] ! j) \<noteq> vd_source (devs[i := d] ! k)"
    using j ok free by (cases "j = i"; cases "k = i") (auto simp: addresses_ok_def)
qed

lemma addresses_ok_update_same:
  assumes "addresses_ok devs" "i < length devs" "active d \<longrightarrow> active (devs ! i) \<and> vd_source d = vd_source (devs ! i)"
  shows "addresses_ok (devs[i := d])"
  using assms unfolding addresses_ok_def by (auto simp: nth_list_update split: if_splits)

lemma addresses_ok_claim:
  assumes "addresses_ok devs" "i < length devs"
  shows "addresses_ok (fst (claimForDevice devs registry now i))"
proof (cases "findFreeAddress devs registry")
  case None
  then show ?thesis
    using assms by (auto simp: claimForDevice_def Let_def active_def intro!: addresses_ok_update_same)
next
  case (Some a)
  then show ?thesis
    using assms findFreeAddress_Some [OF Some]
    by (auto simp: claimForDevice_def Let_def intro!: addresses_ok_update_active)
qed

lemma length_claim [simp]: "length (fst (claimForDevice devs registry now i)) = length devs"
  by (simp add: claimForDevice_def Let_def split: option.splits)

lemma addresses_ok_start:
  assumes "addresses_ok devs" "set ks \<subseteq> {..<length devs}"
  shows "addresses_ok (fst (fold (\<lambda>i (devs, txs). let (devs', tx) = claimForDevice devs registry now i in (devs', txs @ [tx]))
    ks (devs, txs)))"
  using assms
proof (induction ks arbitrary: devs txs)
  case (Cons i ks)
  obtain devs' tx where c: "claimForDevice devs registry now i = (devs', tx)" by force
  have "addresses_ok devs'" "length devs' = length devs"
    using addresses_ok_claim [of devs i registry now] length_claim [of devs registry now i] Cons.prems c by auto
  then show ?case using Cons c by simp
qed simp

lemma busclaim_ok:
  assumes "addresses_ok (vm_devices m)" "i < length (vm_devices m)"
  shows "addresses_ok (vm_devices (fst (busclaim_device m registry now name i)))"
  using assms addresses_ok_claim [OF assms, of registry now]
  by (auto simp: busclaim_device_def Let_def active_def split: prod.splits intro!: addresses_ok_update_same)

lemma HandleBusClaim_ok:
  assumes "addresses_ok (vm_devices m)"
  shows "addresses_ok (vm_devices (fst (HandleBusClaim m registry now src name)))"
  using assms
  by (auto simp: HandleBusClaim_def find_Some_iff split: option.splits intro!: busclaim_ok)

section \<open>Histories\<close>

datatype vd_op =
  VAdd VirtualDeviceConfig
| VStart DeviceRegistry gotime
| VClaim DeviceRegistry gotime u8 u64
| VBeat gotime

fun vd_step :: "vd_op \<Rightarrow> VirtualDeviceManager \<Rightarrow> VirtualDeviceManager" where
  "vd_step (VAdd cfg) m = VirtualDeviceManager_Add m cfg"
| "vd_step (VStart registry now) m = fst (StartAfterDiscovery m registry now)"
| "vd_step (VClaim registry now src name) m = fst (HandleBusClaim m registry now src name)"
| "vd_step (VBeat now) m = fst (Heartbeat m now)"

definition vd_run :: "duration \<Rightarrow> duration \<Rightarrow> vd_op list \<Rightarrow> VirtualDeviceManager" where
  "vd_run ci pr ops = fold vd_step ops (NewVirtualDeviceManager ci pr)"

lemma addresses_ok_step: "addresses_ok (vm_devices m) \<Longrightarrow> addresses_ok (vm_devices (vd_step op m))"
proof (cases op)
  case (VAdd cfg)
  assume "addresses_ok (vm_devices m)"
  then show ?thesis
    unfolding VAdd by (auto simp: VirtualDeviceManager_Add_def addresses_ok_def nth_append active_def less_Suc_eq)
next
  case (VStart registry now)
  assume ok: "addresses_ok (vm_devices m)"
  have "addresses_ok (fst (fold (\<lambda>i (devs, txs). let (devs', tx) = claimForDevice devs registry now i in (devs', txs @ [tx]))
      [0..<length (vm_devices m)] (vm_devices m, [])))"
    by (rule addresses_ok_start [OF ok]) auto
  then show ?thesis
    unfolding VStart by (simp add: StartAfterDiscovery_def Let_def case_prod_beta)
qed (simp_all add: HandleBusClaim_ok Heartbeat_def Let_def)

lemma addresses_ok_fold: "addresses_ok (vm_devices m) \<Longrightarrow> addresses_ok (vm_devices (fold vd_step ops m))"
  by (induction ops arbitrary: m) (auto intro: addresses_ok_step)

lemma find_unique_index:
  assumes "i < n" "P i" "\<And>j. j < n \<Longrightarrow> P j \<Longrightarrow> j = i"
  shows "find P [0..<n] = Some i"
proof (cases "find P [0..<n]")
  case None
  then show ?thesis using assms(1,2) by (auto simp: find_None_iff)
next
  case (Some j)
  then obtain k where "k < length [0..<n]" "P ([0..<n] ! k)" "j = [0..<n] ! k"
    unfolding find_Some_iff by metis
  then show ?thesis using Some assms(3) [of j] by simp
qed

text \<open>The device at a claimed address is the one that handles the claim.\<close>

lemma HandleBusClaim_at:
  assumes "addresses_ok (vm_devices m)" "i < length (vm_devices m)" "active (vm_devices m ! i)"
  shows "HandleBusClaim m registry now (vd_source (vm_devices m ! i)) name = busclaim_device m registry now name i"
proof -
  have "find (\<lambda>j. active (vm_devices m ! j) \<and> vd_source (vm_devices m ! j) = vd_source (vm_devices m ! i))
      [0..<length (vm_devices m)] = Some i"
    by (rule find_unique_index) (use assms in \<open>auto simp: addresses_ok_def\<close>)
  then show ?thesis by (simp add: HandleBusClaim_def)
qed

lemma busclaim_echo:
  assumes "active (vm_devices m ! i)"
  shows "busclaim_device m registry now (vc_NAME (vd_cfg (vm_devices m ! i))) i
    = (m\<lparr>vm_devices := (vm_devices m)[i := (vm_devices m ! i)\<lparr>vd_state := ClaimHeld\<rparr>]\<rparr>, [], True)"
proof (cases "vd_state (vm_devices m ! i) = ClaimHeld")
  case True
  then have "(vm_devices m ! i)\<lparr>vd_state := ClaimHeld\<rparr> = vm_devices m ! i"
    by (cases "vm_devices m ! i") simp
  then have "m\<lparr>vm_devices := (vm_devices m)[i := (vm_devices m ! i)\<lparr>vd_state := ClaimHeld\<rparr>]\<rparr> = m" by simp
  then show ?thesis using True by (simp add: busclaim_device_def Let_def)
next
  case False
  then show ?thesis using assms by (simp add: busclaim_device_def Let_def active_def)
qed

definition relocated :: "VirtualDeviceManager \<Rightarrow> DeviceRegistry \<Rightarrow> nat \<Rightarrow> VirtualDevice \<Rightarrow> bool" where
  "relocated m registry i d \<longleftrightarrow>
     vd_cfg d = vd_cfg (vm_devices m ! i) \<and>
     (if vd_state d = ClaimInProgress
      then vd_source d \<le> 252 \<and> (\<forall>x \<in> set (DeviceRegistry_Snapshot registry). d_Source x \<noteq> vd_source d) \<and>
        (\<forall>x \<in> set (vm_devices m). active x \<longrightarrow> vd_source x \<noteq> vd_source d)
      else vd_state d = ClaimCannotClaim \<and> vd_source d = 254 \<and>
        (\<forall>a \<le> 252. (\<exists>x \<in> set (DeviceRegistry_Snapshot registry). d_Source x = a) \<or>
           (\<exists>x \<in> set (vm_devices m). active x \<and> vd_source x = a)))"

lemma claim_relocates:
  assumes "i < length (vm_devices m)"
  shows "\<exists>d. claimForDevice (vm_devices m) registry now i = ((vm_devices m)[i := d], sendAddressClaim (vm_devices m ! i) (vd_source d))
    \<and> relocated m registry i d"
proof (cases "findFreeAddress (vm_devices m) registry")
  case None
  then show ?thesis
    using findFreeAddress_None [OF None]
    by (auto simp: claimForDevice_def Let_def relocated_def
        intro!: exI [of _ "(vm_devices m ! i)\<lparr>vd_state := ClaimCannotClaim, vd_source := 254\<rparr>"])
next
  case (Some a)
  then show ?thesis
    using findFreeAddress_Some [OF Some]
    by (auto simp: claimForDevice_def Let_def relocated_def
        intro!: exI [of _ "(vm_devices m ! i)\<lparr>vd_source := a, vd_state := ClaimInProgress, vd_readyAt := now + 250 * 10 ^ 6\<rparr>"])
qed

lemma busclaim_lost:
  assumes "i < length (vm_devices m)" "name < vc_NAME (vd_cfg (vm_devices m ! i))"
  shows "\<exists>d. busclaim_device m registry now name i =
      (m\<lparr>vm_devices := (vm_devices m)[i := d]\<rparr>, [sendAddressClaim (vm_devices m ! i) (vd_source d)], False)
    \<and> relocated m registry i d"
proof -
  have "vc_NAME (vd_cfg (vm_devices m ! i)) \<noteq> name" "\<not> vc_NAME (vd_cfg (vm_devices m ! i)) < name"
    using assms(2) by (auto simp: order_less_not_sym)
  then show ?thesis
    using claim_relocates [OF assms(1), of registry now] by (auto simp: busclaim_device_def Let_def)
qed

section \<open>Properties\<close>

text \<open>
  C38: After any history of additions, starts, bus claims and heartbeats, the virtual devices that
  claim or hold an address do so at pairwise distinct addresses, all in the range 0 to 252.
\<close>

theorem virtual_addresses_distinct:
  "distinct (map vd_source (filter active (vm_devices (vd_run ci pr ops)))) \<and>
   list_all (\<lambda>d. vd_source d \<le> 252) (filter active (vm_devices (vd_run ci pr ops)))"
proof -
  have "addresses_ok (vm_devices (vd_run ci pr ops))"
    unfolding vd_run_def by (rule addresses_ok_fold) (simp add: NewVirtualDeviceManager_def addresses_ok_def)
  then show ?thesis by (rule addresses_ok_list)
qed

text \<open>
  Address conflicts follow the standard: a claim of a virtual device's address by its own NAME
  is its echo and makes it held; a claim by a higher NAME is answered by claiming again, nothing
  else changing; a claim by a lower NAME makes the device claim another address, free of registry
  devices and of the other virtual devices, or, only if all of 0 to 252 are taken, give up with a
  claim from address 254.
\<close>

theorem busclaim_lower_NAME_wins:
  assumes "addresses_ok (vm_devices m)" "i < length (vm_devices m)" "active (vm_devices m ! i)"
    and "dev = vm_devices m ! i"
  shows "(name = vc_NAME (vd_cfg dev) \<longrightarrow>
        HandleBusClaim m registry now (vd_source dev) name =
          (m\<lparr>vm_devices := (vm_devices m)[i := dev\<lparr>vd_state := ClaimHeld\<rparr>]\<rparr>, [], True)) \<and>
     (name > vc_NAME (vd_cfg dev) \<longrightarrow>
        HandleBusClaim m registry now (vd_source dev) name = (m, [sendAddressClaim dev (vd_source dev)], False)) \<and>
     (name < vc_NAME (vd_cfg dev) \<longrightarrow>
        (\<exists>d. HandleBusClaim m registry now (vd_source dev) name =
             (m\<lparr>vm_devices := (vm_devices m)[i := d]\<rparr>, [sendAddressClaim dev (vd_source d)], False)
           \<and> relocated m registry i d))"
proof -
  have "busclaim_device m registry now name i = (m, [sendAddressClaim dev (vd_source dev)], False)"
    if "name > vc_NAME (vd_cfg dev)"
    using that assms(4) by (auto simp: busclaim_device_def Let_def)
  then show ?thesis
    using HandleBusClaim_at [OF assms(1-3)] busclaim_echo [OF assms(3)] busclaim_lost [OF assms(2)]
    unfolding assms(4) by simp
qed

definition sample_manager :: VirtualDeviceManager where
  "sample_manager = vd_run 0 0
     [VAdd \<lparr>vc_NAME = 5, vc_ProductInfo = \<lparr>vp_ModelID = [], vp_SoftwareVersion = [], vp_ModelVersion = [],
        vp_ModelSerial = [], vp_ProductCode = 0\<rparr>\<rparr>, VStart [] 0]"

theorem busclaim_lower_NAME_wins_witness:
  "\<exists>dev d. dev = vm_devices sample_manager ! 0 \<and> vd_source dev = 252 \<and>
     HandleBusClaim sample_manager [] 9 252 3 =
       (sample_manager\<lparr>vm_devices := (vm_devices sample_manager)[0 := d]\<rparr>, [sendAddressClaim dev (vd_source d)], False)
     \<and> relocated sample_manager [] 0 d"
proof -
  have dev: "0 < length (vm_devices sample_manager)" "active (vm_devices sample_manager ! 0)"
    "vd_source (vm_devices sample_manager ! 0) = 252" "3 < vc_NAME (vd_cfg (vm_devices sample_manager ! 0))"
    by code_simp+
  have ok: "addresses_ok (vm_devices sample_manager)"
    unfolding sample_manager_def vd_run_def
    by (rule addresses_ok_fold) (simp add: NewVirtualDeviceManager_def addresses_ok_def)
  show ?thesis
    using busclaim_lower_NAME_wins [OF ok dev(1,2) refl, of 3 "[]" 9] dev(3,4) by auto
qed

end
