(* ===== verification/EventFilter.thy ===== *)
theory EventFilter
  imports Devices
begin

text \<open>
  Event filters (\<^verbatim>\<open>broker.go\<close>): the live filter that consults the device registry for every frame,
  and the resolved filter that replays a snapshot of the registry without it. A nil filter is
  \<open>None\<close>; a nil set of a resolved filter is \<open>None\<close>. The theorems say when a filter accepts a frame,
  and that resolving it is exact for a registry whose devices are all on the frame's bus.
\<close>

record EventFilter =
  ef_PGNs :: "u32 list"
  ef_ExcludePGNs :: "u32 list"
  ef_Manufacturers :: "string list"
  ef_Instances :: "u8 list"
  ef_Names :: "u64 list"
  ef_ExcludeNames :: "u64 list"
  ef_Buses :: "string list"

definition EventFilter_IsEmpty :: "EventFilter option \<Rightarrow> bool" where
  "EventFilter_IsEmpty f =
     (case f of
        None \<Rightarrow> True
      | Some f \<Rightarrow> length (ef_PGNs f) = 0 \<and> length (ef_ExcludePGNs f) = 0 \<and> length (ef_Manufacturers f) = 0
          \<and> length (ef_Instances f) = 0 \<and> length (ef_Names f) = 0 \<and> length (ef_ExcludeNames f) = 0
          \<and> length (ef_Buses f) = 0)"

definition matchesManufacturer :: "EventFilter \<Rightarrow> Device \<Rightarrow> bool" where
  "matchesManufacturer f dev =
     (let codeStr = FormatUint 10 (unat (d_ManufacturerCode dev))
      in list_ex (\<lambda>m. m = d_Manufacturer dev \<or> m = codeStr) (ef_Manufacturers f))"

definition matchesDevice :: "EventFilter \<Rightarrow> Device \<Rightarrow> bool" where
  "matchesDevice f dev =
     (if length (ef_Manufacturers f) > 0 \<and> \<not> matchesManufacturer f dev then False
      else if length (ef_Instances f) > 0 \<and> d_DeviceInstance dev \<notin> set (ef_Instances f) then False
      else if length (ef_Names f) > 0 \<and> d_NAME dev \<notin> set (ef_Names f) then False
      else True)"

definition EventFilter_matches :: "EventFilter option \<Rightarrow> string \<Rightarrow> CANHeader \<Rightarrow> DeviceRegistry \<Rightarrow> bool" where
  "EventFilter_matches fo bus header devices =
     (if EventFilter_IsEmpty fo then True
      else case fo of
        None \<Rightarrow> True
      | Some f \<Rightarrow>
          if length (ef_Buses f) > 0 \<and> bus \<notin> set (ef_Buses f) then False
          else if length (ef_PGNs f) > 0 \<and> h_PGN header \<notin> set (ef_PGNs f) then False
          else if length (ef_ExcludePGNs f) > 0 \<and> h_PGN header \<in> set (ef_ExcludePGNs f) then False
          else if length (ef_ExcludeNames f) > 0 \<and>
            (case DeviceRegistry_Get devices bus (h_Source header) of
               Some dev \<Rightarrow> d_NAME dev \<in> set (ef_ExcludeNames f) | None \<Rightarrow> False) then False
          else if length (ef_Manufacturers f) > 0 \<or> length (ef_Instances f) > 0 \<or> length (ef_Names f) > 0 then
            (case DeviceRegistry_Get devices bus (h_Source header) of
               None \<Rightarrow> False
             | Some dev \<Rightarrow> if \<not> matchesDevice f dev then False else True)
          else True)"

record resolvedFilter =
  rf_pgns :: "u32 list option"
  rf_excludePGNs :: "u32 list option"
  rf_sources :: "u8 list option"
  rf_excludeSources :: "u8 list option"
  rf_buses :: "string list option"

definition resolve_filter :: "EventFilter option \<Rightarrow> DeviceRegistry \<Rightarrow> resolvedFilter option" where
  "resolve_filter fo devices =
     (if EventFilter_IsEmpty fo then None
      else case fo of
        None \<Rightarrow> None
      | Some f \<Rightarrow> Some
          \<lparr>rf_pgns = (if length (ef_PGNs f) > 0 then Some (ef_PGNs f) else None),
           rf_excludePGNs = (if length (ef_ExcludePGNs f) > 0 then Some (ef_ExcludePGNs f) else None),
           rf_sources =
             (if length (ef_Manufacturers f) > 0 \<or> length (ef_Instances f) > 0 \<or> length (ef_Names f) > 0
              then Some (map d_Source (filter (matchesDevice f) (DeviceRegistry_Snapshot devices))) else None),
           rf_excludeSources =
             (if length (ef_ExcludeNames f) > 0
              then Some (map d_Source (filter (\<lambda>dev. d_NAME dev \<in> set (ef_ExcludeNames f)) (DeviceRegistry_Snapshot devices)))
              else None),
           rf_buses = (if length (ef_Buses f) > 0 then Some (ef_Buses f) else None)\<rparr>)"

definition resolvedFilter_matches :: "resolvedFilter option \<Rightarrow> string \<Rightarrow> CANHeader \<Rightarrow> bool" where
  "resolvedFilter_matches ro bus header =
     (case ro of
        None \<Rightarrow> True
      | Some r \<Rightarrow>
          if (case rf_buses r of Some s \<Rightarrow> bus \<notin> set s | None \<Rightarrow> False) then False
          else if (case rf_pgns r of Some s \<Rightarrow> h_PGN header \<notin> set s | None \<Rightarrow> False) then False
          else if (case rf_excludePGNs r of Some s \<Rightarrow> h_PGN header \<in> set s | None \<Rightarrow> False) then False
          else if (case rf_excludeSources r of Some s \<Rightarrow> h_Source header \<in> set s | None \<Rightarrow> False) then False
          else if (case rf_sources r of Some s \<Rightarrow> h_Source header \<notin> set s | None \<Rightarrow> False) then False
          else True)"

section \<open>Lemmas\<close>

text \<open>What a filter asks of a frame, category by category.\<close>

definition any_of :: "'a list \<Rightarrow> ('a \<Rightarrow> bool) \<Rightarrow> bool" where
  "any_of xs p \<longleftrightarrow> xs = [] \<or> (\<exists>x \<in> set xs. p x)"

definition accepts :: "EventFilter \<Rightarrow> string \<Rightarrow> CANHeader \<Rightarrow> DeviceRegistry \<Rightarrow> bool" where
  "accepts f bus header devices \<longleftrightarrow>
     (let dev = DeviceRegistry_Get devices bus (h_Source header) in
      any_of (ef_Buses f) (\<lambda>b. b = bus) \<and> any_of (ef_PGNs f) (\<lambda>p. p = h_PGN header)
      \<and> h_PGN header \<notin> set (ef_ExcludePGNs f)
      \<and> (\<forall>d. dev = Some d \<longrightarrow> d_NAME d \<notin> set (ef_ExcludeNames f))
      \<and> any_of (ef_Manufacturers f) (\<lambda>m. \<exists>d. dev = Some d \<and> (m = d_Manufacturer d \<or> m = FormatUint 10 (unat (d_ManufacturerCode d))))
      \<and> any_of (ef_Instances f) (\<lambda>i. \<exists>d. dev = Some d \<and> i = d_DeviceInstance d)
      \<and> any_of (ef_Names f) (\<lambda>n. \<exists>d. dev = Some d \<and> n = d_NAME d))"

lemma any_of_mem: "any_of xs (\<lambda>x. x = y) \<longleftrightarrow> \<not> (length xs > 0 \<and> y \<notin> set xs)"
  "any_of xs (\<lambda>x. y = x) \<longleftrightarrow> \<not> (length xs > 0 \<and> y \<notin> set xs)"
  by (auto simp: any_of_def)

lemma any_of_False: "any_of xs (\<lambda>x. False) \<longleftrightarrow> \<not> length xs > 0"
  by (simp add: any_of_def)

lemma matchesDevice_iff:
  "matchesDevice f d \<longleftrightarrow>
     any_of (ef_Manufacturers f) (\<lambda>m. m = d_Manufacturer d \<or> m = FormatUint 10 (unat (d_ManufacturerCode d)))
     \<and> any_of (ef_Instances f) (\<lambda>i. i = d_DeviceInstance d) \<and> any_of (ef_Names f) (\<lambda>n. n = d_NAME d)"
proof -
  have "any_of (ef_Manufacturers f) (\<lambda>m. m = d_Manufacturer d \<or> m = FormatUint 10 (unat (d_ManufacturerCode d)))
      \<longleftrightarrow> \<not> (length (ef_Manufacturers f) > 0 \<and> \<not> matchesManufacturer f d)"
    by (auto simp: any_of_def matchesManufacturer_def list_ex_iff)
  then show ?thesis by (simp add: matchesDevice_def any_of_mem)
qed

lemma any_of_Nil: "any_of [] p" by (simp add: any_of_def)

lemma matches_accepts: "EventFilter_matches (Some f) bus header devices \<longleftrightarrow> accepts f bus header devices"
proof (cases "EventFilter_IsEmpty (Some f)")
  case True
  then show ?thesis
    by (simp add: EventFilter_matches_def accepts_def EventFilter_IsEmpty_def any_of_Nil)
next
  case False
  have excl: "(length (ef_ExcludePGNs f) > 0 \<and> h_PGN header \<in> set (ef_ExcludePGNs f)) \<longleftrightarrow> h_PGN header \<in> set (ef_ExcludePGNs f)"
    "(length (ef_ExcludeNames f) > 0 \<and> n \<in> set (ef_ExcludeNames f)) \<longleftrightarrow> n \<in> set (ef_ExcludeNames f)" for n
    by auto
  have dev: "matchesDevice f d" if "\<not> (length (ef_Manufacturers f) > 0 \<or> length (ef_Instances f) > 0 \<or> length (ef_Names f) > 0)" for d
    using that by (simp add: matchesDevice_def)
  show ?thesis
  proof (cases "DeviceRegistry_Get devices bus (h_Source header)")
    case None
    then show ?thesis
      using False unfolding EventFilter_matches_def accepts_def by (simp add: any_of_mem any_of_False excl)
  next
    case (Some d)
    then have "accepts f bus header devices \<longleftrightarrow> any_of (ef_Buses f) (\<lambda>b. b = bus) \<and> any_of (ef_PGNs f) (\<lambda>p. p = h_PGN header)
        \<and> h_PGN header \<notin> set (ef_ExcludePGNs f) \<and> d_NAME d \<notin> set (ef_ExcludeNames f) \<and> matchesDevice f d"
      by (simp add: accepts_def matchesDevice_iff)
    then show ?thesis
      using False Some dev [of d] unfolding EventFilter_matches_def by (simp add: any_of_mem excl)
  qed
qed

definition single_bus :: "string \<Rightarrow> DeviceRegistry \<Rightarrow> bool" where
  "single_bus bus devices \<longleftrightarrow> list_all (\<lambda>(k, d). dvk_Bus k = bus) devices"

lemma snapshot_source:
  assumes "registry_ok devices" "single_bus bus devices"
  shows "(\<exists>d \<in> set (DeviceRegistry_Snapshot devices). P d \<and> d_Source d = src) \<longleftrightarrow>
    (\<exists>d. DeviceRegistry_Get devices bus src = Some d \<and> P d)"
proof -
  have wf: "gm_wf devices" and ok: "\<And>k d. gm_get devices k = Some d \<Longrightarrow> device_ok k d"
    using assms(1) by (auto simp: registry_ok_def)
  have key: "d_Source d = src \<longleftrightarrow> k = \<lparr>dvk_Bus = bus, dvk_Source = src\<rparr>" if "(k, d) \<in> set devices" for k d
    using ok [of k d] assms(2) gm_get_iff [OF wf, of k d] that
    by (cases k) (auto simp: device_ok_def single_bus_def list_all_iff)
  have "(\<exists>d \<in> set (DeviceRegistry_Snapshot devices). P d \<and> d_Source d = src) \<longleftrightarrow>
      (\<exists>k d. (k, d) \<in> set devices \<and> P d \<and> d_Source d = src)"
    by (force simp: DeviceRegistry_Snapshot_def)
  also have "\<dots> \<longleftrightarrow> (\<exists>d. (\<lparr>dvk_Bus = bus, dvk_Source = src\<rparr>, d) \<in> set devices \<and> P d)"
    using key by metis
  finally show ?thesis by (simp add: DeviceRegistry_Get_def gm_get_iff [OF wf])
qed

section \<open>Properties\<close>

text \<open>
  A session filter accepts a frame exactly when every category that is set accepts it (any of
  its values), with the device at the frame's bus and source looked up for the device categories,
  and no exclusion applies; a nil or empty filter accepts every frame.
\<close>

theorem filter_accepts_iff:
  "EventFilter_matches fo bus header devices \<longleftrightarrow> (case fo of None \<Rightarrow> True | Some f \<Rightarrow> accepts f bus header devices)"
  by (cases fo) (simp_all add: matches_accepts, simp add: EventFilter_matches_def EventFilter_IsEmpty_def)

text \<open>
  Resolving a filter against a registry loses nothing on a single bus: for every history of
  the registry in which all devices are on the frame's bus, the resolved filter used for replay
  accepts the same frames as the live filter.
\<close>

theorem resolve_exact_on_single_bus:
  assumes "single_bus bus (dev_run ops)"
  shows "resolvedFilter_matches (resolve_filter fo (dev_run ops)) bus header
    = EventFilter_matches fo bus header (dev_run ops)"
proof (cases "EventFilter_IsEmpty fo")
  case True
  then show ?thesis by (simp add: EventFilter_matches_def resolve_filter_def resolvedFilter_matches_def)
next
  case False
  then obtain f where f: "fo = Some f" by (cases fo) (auto simp: EventFilter_IsEmpty_def)
  have ok: "registry_ok (dev_run ops)"
    unfolding dev_run_def by (rule registry_ok_fold [OF registry_ok_new])
  note src = snapshot_source [OF ok assms, of _ "h_Source header"]
  have mem: "h_Source header \<in> d_Source ` {d \<in> set (DeviceRegistry_Snapshot (dev_run ops)). P d} \<longleftrightarrow>
      (case DeviceRegistry_Get (dev_run ops) bus (h_Source header) of Some d \<Rightarrow> P d | None \<Rightarrow> False)" for P
    using src [of P] by (auto simp: image_iff split: option.splits)
  show ?thesis
    using False unfolding f
    by (cases "DeviceRegistry_Get (dev_run ops) bus (h_Source header)")
       (simp_all add: resolvedFilter_matches_def resolve_filter_def EventFilter_matches_def mem)
qed

definition instance_filter :: "EventFilter option" where
  "instance_filter = Some \<lparr>ef_PGNs = [], ef_ExcludePGNs = [127251], ef_Manufacturers = [], ef_Instances = [0],
     ef_Names = [], ef_ExcludeNames = [], ef_Buses = []\<rparr>"

theorem resolve_exact_on_single_bus_witness:
  "resolvedFilter_matches (resolve_filter instance_filter (dev_run [OpPacket ''can0'' 35 1 8])) ''can0''
       \<lparr>h_Priority = 2, h_PGN = 127250, h_Source = 35, h_Destination = 255\<rparr>
   = EventFilter_matches instance_filter ''can0''
       \<lparr>h_Priority = 2, h_PGN = 127250, h_Source = 35, h_Destination = 255\<rparr> (dev_run [OpPacket ''can0'' 35 1 8])"
proof (rule resolve_exact_on_single_bus)
  show "single_bus ''can0'' (dev_run [OpPacket ''can0'' 35 1 8])" by code_simp
qed

end
