(* ===== verification/Values.thy ===== *)
theory Values
  imports EventFilter "HOL-Library.List_Lexorder" "HOL-Library.Char_ord" "HOL-Library.Product_Lexorder"
begin

text \<open>
  The last-values store (\<^verbatim>\<open>values.go\<close>): the most recent payload per bus, source and PGN, and its
  snapshots grouped by device. Timestamps are rendered by the parameter \<open>rfc\<close>
  (\<^verbatim>\<open>UTC().Format(time.RFC3339Nano)\<close>). A loop over the store's map visits the association list in
  order. The theorems show that the store holds the last frame of every key, and that a snapshot
  lists exactly the accepted values, sorted by bus, source and PGN.
\<close>

section \<open>Hexadecimal\<close>

definition hex_byte :: "u8 \<Rightarrow> string" where
  "hex_byte b = [digit_char (unat b div 16), digit_char (unat b mod 16)]"

definition hex_EncodeToString :: "bytes \<Rightarrow> string" where
  "hex_EncodeToString bs = concat (map hex_byte bs)"

section \<open>Filters\<close>

record valueFilter =
  vf_pgns :: "u32 list option"
  vf_excludePGNs :: "u32 list option"
  vf_buses :: "string list option"
  vf_devFunc :: "(string \<Rightarrow> u8 \<Rightarrow> bool) option"

text \<open>\<^verbatim>\<open>hasDev\<close> holds exactly when \<^verbatim>\<open>devFunc\<close> is set, so it is not a field of its own.\<close>

definition newValueFilter :: "EventFilter option \<Rightarrow> DeviceRegistry \<Rightarrow> valueFilter option" where
  "newValueFilter fo devices =
     (if EventFilter_IsEmpty fo then None
      else case fo of
        None \<Rightarrow> None
      | Some f \<Rightarrow>
          let prev1 = (if length (ef_ExcludeNames f) > 0
                then Some (\<lambda>bus src. case DeviceRegistry_Get devices bus src of
                       Some dev \<Rightarrow> d_NAME dev \<notin> set (ef_ExcludeNames f) | None \<Rightarrow> True)
                else None);
              prev2 = (if length (ef_Manufacturers f) > 0 \<or> length (ef_Names f) > 0 \<or> length (ef_Instances f) > 0
                then Some (\<lambda>bus src.
                       if (case prev1 of Some p \<Rightarrow> \<not> p bus src | None \<Rightarrow> False) then False
                       else case DeviceRegistry_Get devices bus src of
                              None \<Rightarrow> False
                            | Some dev \<Rightarrow> if d_NAME dev = 0 then False else matchesDevice f dev)
                else prev1)
          in Some
            \<lparr>vf_pgns = (if length (ef_PGNs f) > 0 then Some (ef_PGNs f) else None),
             vf_excludePGNs = (if length (ef_ExcludePGNs f) > 0 then Some (ef_ExcludePGNs f) else None),
             vf_buses = (if length (ef_Buses f) > 0 then Some (ef_Buses f) else None),
             vf_devFunc = prev2\<rparr>)"

section \<open>The store\<close>

record valueKey =
  vk_Bus :: string
  vk_Source :: u8
  vk_PGN :: u32

record valueEntry =
  ve_Timestamp :: gotime
  ve_Data :: bytes
  ve_Seq :: u64

type_synonym ValueStore = "(valueKey, valueEntry) gomap"

definition NewValueStore :: ValueStore where
  "NewValueStore = []"

definition RemoveSource :: "ValueStore \<Rightarrow> string \<Rightarrow> u8 \<Rightarrow> ValueStore" where
  "RemoveSource vs bus source = gm_del_if (\<lambda>k _. vk_Bus k = bus \<and> vk_Source k = source) vs"

definition ValueStore_Record :: "ValueStore \<Rightarrow> string \<Rightarrow> u8 \<Rightarrow> u32 \<Rightarrow> gotime \<Rightarrow> bytes \<Rightarrow> u64 \<Rightarrow> ValueStore" where
  "ValueStore_Record vs bus source pgn ts data seq =
     gm_put \<lparr>vk_Bus = bus, vk_Source = source, vk_PGN = pgn\<rparr>
       \<lparr>ve_Timestamp = ts, ve_Data = data, ve_Seq = seq\<rparr> vs"

record PGNValue =
  pv_PGN :: u32
  pv_Ts :: string
  pv_Data :: string
  pv_Seq :: u64

record deviceGroupKey =
  dg_Bus :: string
  dg_Source :: u8

record 'v DeviceValues =
  dv_Name :: string
  dv_Bus :: string
  dv_Source :: u8
  dv_Manufacturer :: string
  dv_ModelID :: string
  dv_Values :: "'v list"

text \<open>The filter of the loop over the store.\<close>

definition passes :: "valueFilter option \<Rightarrow> valueKey \<Rightarrow> bool" where
  "passes vfo k =
     (case vfo of
        None \<Rightarrow> True
      | Some vf \<Rightarrow>
          if (case vf_buses vf of Some s \<Rightarrow> vk_Bus k \<notin> set s | None \<Rightarrow> False) then False
          else if (case vf_pgns vf of Some s \<Rightarrow> vk_PGN k \<notin> set s | None \<Rightarrow> False) then False
          else if (case vf_excludePGNs vf of Some s \<Rightarrow> vk_PGN k \<in> set s | None \<Rightarrow> False) then False
          else True)"

definition group_key :: "valueKey \<Rightarrow> deviceGroupKey" where
  "group_key k = \<lparr>dg_Bus = vk_Bus k, dg_Source = vk_Source k\<rparr>"

text \<open>
  The part both snapshots share: the values collected per device, the devices sorted by bus and
  source, those the filter rejects dropped, and each device's identity resolved.
\<close>

definition by_device :: "(valueKey \<times> 'v) list \<Rightarrow> deviceGroupKey \<Rightarrow> 'v list" where
  "by_device vals dk = map snd (filter (\<lambda>(k, v). group_key k = dk) vals)"

definition device_values ::
  "DeviceRegistry \<Rightarrow> ('v \<Rightarrow> u32) \<Rightarrow> (valueKey \<times> 'v) list \<Rightarrow> deviceGroupKey \<Rightarrow> 'v DeviceValues" where
  "device_values devices pgn_of vals dk =
     (let dv = \<lparr>dv_Name = [], dv_Bus = dg_Bus dk, dv_Source = dg_Source dk, dv_Manufacturer = [], dv_ModelID = [],
                dv_Values = sort_key pgn_of (by_device vals dk)\<rparr>
      in case DeviceRegistry_Get devices (dg_Bus dk) (dg_Source dk) of
           Some dev \<Rightarrow>
             if d_NAME dev \<noteq> 0
             then dv\<lparr>dv_Name := ''0x'' @ hex16 (d_NAME dev), dv_Manufacturer := d_Manufacturer dev, dv_ModelID := d_ModelID dev\<rparr>
             else dv
         | None \<Rightarrow> dv)"

definition sorted_devices :: "(valueKey \<times> 'v) list \<Rightarrow> deviceGroupKey list" where
  "sorted_devices vals =
     sort_key (\<lambda>dk. (dg_Bus dk, dg_Source dk)) (remdups (map (\<lambda>(k, _). group_key k) vals))"

definition assemble ::
  "DeviceRegistry \<Rightarrow> valueFilter option \<Rightarrow> ('v \<Rightarrow> u32) \<Rightarrow> (valueKey \<times> 'v) list \<Rightarrow> 'v DeviceValues list" where
  "assemble devices vfo pgn_of vals =
     map (device_values devices pgn_of vals)
       (filter (\<lambda>dk. case vfo of
            Some vf \<Rightarrow> (case vf_devFunc vf of Some p \<Rightarrow> p (dg_Bus dk) (dg_Source dk) | None \<Rightarrow> True)
          | None \<Rightarrow> True) (sorted_devices vals))"

definition pgn_value :: "(gotime \<Rightarrow> string) \<Rightarrow> valueKey \<Rightarrow> valueEntry \<Rightarrow> PGNValue" where
  "pgn_value rfc k e = \<lparr>pv_PGN = vk_PGN k, pv_Ts = rfc (ve_Timestamp e), pv_Data = hex_EncodeToString (ve_Data e), pv_Seq = ve_Seq e\<rparr>"

definition ValueStore_Snapshot ::
  "(gotime \<Rightarrow> string) \<Rightarrow> ValueStore \<Rightarrow> DeviceRegistry \<Rightarrow> EventFilter option \<Rightarrow> PGNValue DeviceValues list" where
  "ValueStore_Snapshot rfc vs devices fo =
     (let vf = newValueFilter fo devices;
          entries = filter (\<lambda>(k, _). passes vf k) vs
      in assemble devices vf pv_PGN (map (\<lambda>(k, e). (k, pgn_value rfc k e)) entries))"

record DecodedPGNValue =
  dp_PGN :: u32
  dp_Description :: string
  dp_Ts :: string
  dp_Seq :: u64
  dp_Fields :: rval

text \<open>
  The decoded snapshot: the values whose PGN is in the registry and whose payload decodes;
  \<open>describe\<close> is the description field of the generated registry.
\<close>

definition decode_entry ::
  "registry \<Rightarrow> (u32 \<Rightarrow> string) \<Rightarrow> (gotime \<Rightarrow> string) \<Rightarrow> valueKey \<times> valueEntry \<Rightarrow> (valueKey \<times> DecodedPGNValue) option" where
  "decode_entry reg describe rfc x =
     (case x of (k, e) \<Rightarrow>
        (case reg (vk_PGN k) of
           None \<Rightarrow> None
         | Some info \<Rightarrow>
             (case pi_Decode info of
                None \<Rightarrow> None
              | Some decode \<Rightarrow>
                  (case decode (ve_Data e) of
                     None \<Rightarrow> None
                   | Some decoded \<Rightarrow>
                       Some (k, \<lparr>dp_PGN = vk_PGN k, dp_Description = describe (vk_PGN k), dp_Ts = rfc (ve_Timestamp e),
                                 dp_Seq = ve_Seq e, dp_Fields = decoded\<rparr>)))))"

definition DecodedSnapshot ::
  "registry \<Rightarrow> (u32 \<Rightarrow> string) \<Rightarrow> (gotime \<Rightarrow> string) \<Rightarrow> ValueStore \<Rightarrow> DeviceRegistry \<Rightarrow> EventFilter option
   \<Rightarrow> DecodedPGNValue DeviceValues list" where
  "DecodedSnapshot reg describe rfc vs devices fo =
     (let vf = newValueFilter fo devices;
          entries = filter (\<lambda>(k, _). passes vf k) vs
      in assemble devices vf dp_PGN (List.map_filter (decode_entry reg describe rfc) entries))"

section \<open>Snapshots\<close>

definition vals_ok :: "('v \<Rightarrow> u32) \<Rightarrow> (valueKey \<times> 'v) list \<Rightarrow> bool" where
  "vals_ok pgn_of vals \<longleftrightarrow> distinct (map fst vals) \<and> (\<forall>(k, v) \<in> set vals. pgn_of v = vk_PGN k)"

definition device_accepted :: "valueFilter option \<Rightarrow> string \<Rightarrow> u8 \<Rightarrow> bool" where
  "device_accepted vfo bus src =
     (case vfo of Some vf \<Rightarrow> (case vf_devFunc vf of Some p \<Rightarrow> p bus src | None \<Rightarrow> True) | None \<Rightarrow> True)"

lemma device_values_simps [simp]:
  "dv_Bus (device_values devices pgn_of vals dk) = dg_Bus dk"
  "dv_Source (device_values devices pgn_of vals dk) = dg_Source dk"
  "dv_Values (device_values devices pgn_of vals dk) = sort_key pgn_of (by_device vals dk)"
  by (auto simp: device_values_def Let_def split: option.splits)

lemma sorted_devices_strict: "sorted_wrt (<) (map (\<lambda>dk. (dg_Bus dk, dg_Source dk)) (sorted_devices vals))"
proof -
  have "inj (\<lambda>dk :: deviceGroupKey. (dg_Bus dk, dg_Source dk))"
    by (rule injI) simp
  then have "distinct (map (\<lambda>dk. (dg_Bus dk, dg_Source dk)) (sorted_devices vals))"
    by (auto simp: sorted_devices_def distinct_map intro: inj_on_subset)
  then show ?thesis by (simp add: strict_sorted_iff sorted_devices_def)
qed

lemma assemble_sorted:
  "sorted_wrt (<) (map (\<lambda>dv. (dv_Bus dv, dv_Source dv)) (assemble devices vfo pgn_of vals))"
proof -
  have "sorted_wrt (<) (map (\<lambda>dk. (dg_Bus dk, dg_Source dk)) (filter P (sorted_devices vals)))" for P
    using sorted_devices_strict [of vals] by (simp add: strict_sorted_iff sorted_filter distinct_map_filter)
  then show ?thesis by (simp add: assemble_def o_def)
qed

lemma values_sorted:
  assumes "vals_ok pgn_of vals"
  shows "sorted_wrt (<) (map pgn_of (sort_key pgn_of (by_device vals dk)))"
proof -
  have "distinct (map pgn_of (by_device vals dk))"
    using assms
  proof (induction vals)
    case (Cons x vals)
    obtain k v where x: "x = (k, v)" by force
    have ok: "vals_ok pgn_of vals" using Cons.prems by (auto simp: vals_ok_def)
    have "pgn_of v \<notin> pgn_of ` set (by_device vals dk)" if "group_key k = dk"
    proof
      assume "pgn_of v \<in> pgn_of ` set (by_device vals dk)"
      then obtain k' v' where kv: "(k', v') \<in> set vals" "group_key k' = dk" "pgn_of v' = pgn_of v"
        by (auto simp: by_device_def)
      then have "vk_PGN k' = vk_PGN k"
        using Cons.prems x by (auto simp: vals_ok_def)
      then have "k' = k" using that kv(2) by (auto simp: group_key_def intro: valueKey.equality)
      then show False using Cons.prems kv(1) x by (force simp: vals_ok_def)
    qed
    then show ?case using Cons.IH [OF ok] x by (auto simp: by_device_def)
  qed (simp add: by_device_def)
  then show ?thesis by (simp add: strict_sorted_iff distinct_map)
qed

lemma assemble_members:
  "(\<exists>dv \<in> set (assemble devices vfo pgn_of vals). dv_Bus dv = bus \<and> dv_Source dv = src \<and> v \<in> set (dv_Values dv)) \<longleftrightarrow>
   device_accepted vfo bus src \<and> (\<exists>k. (k, v) \<in> set vals \<and> vk_Bus k = bus \<and> vk_Source k = src)"
proof -
  have mem: "v \<in> set (by_device vals dk) \<longleftrightarrow> (\<exists>k. (k, v) \<in> set vals \<and> group_key k = dk)" for dk
    by (force simp: by_device_def)
  have dev: "dk \<in> set (sorted_devices vals) \<longleftrightarrow> (\<exists>k v. (k, v) \<in> set vals \<and> group_key k = dk)" for dk
    by (force simp: sorted_devices_def)
  have "(\<exists>dv \<in> set (assemble devices vfo pgn_of vals). dv_Bus dv = bus \<and> dv_Source dv = src \<and> v \<in> set (dv_Values dv)) \<longleftrightarrow>
      (\<exists>dk \<in> set (sorted_devices vals). device_accepted vfo (dg_Bus dk) (dg_Source dk) \<and>
         dg_Bus dk = bus \<and> dg_Source dk = src \<and> v \<in> set (by_device vals dk))"
    by (force simp: assemble_def device_accepted_def)
  also have "\<dots> \<longleftrightarrow> device_accepted vfo bus src \<and> (\<exists>k. (k, v) \<in> set vals \<and> group_key k = \<lparr>dg_Bus = bus, dg_Source = src\<rparr>)"
    unfolding mem Bex_def dev by (rule iffI, force, metis deviceGroupKey.select_convs)
  finally show ?thesis by (simp add: group_key_def)
qed

text \<open>What a snapshot promises: order, no empty groups, and exactly the accepted values.\<close>

definition snapshot_of ::
  "valueFilter option \<Rightarrow> ('v \<Rightarrow> u32) \<Rightarrow> (valueKey \<Rightarrow> 'v option) \<Rightarrow> 'v DeviceValues list \<Rightarrow> bool" where
  "snapshot_of vfo pgn_of content snap \<longleftrightarrow>
     sorted_wrt (<) (map (\<lambda>dv. (dv_Bus dv, dv_Source dv)) snap) \<and>
     (\<forall>dv \<in> set snap. sorted_wrt (<) (map pgn_of (dv_Values dv))) \<and>
     (\<forall>bus src v. (\<exists>dv \<in> set snap. dv_Bus dv = bus \<and> dv_Source dv = src \<and> v \<in> set (dv_Values dv)) \<longleftrightarrow>
        device_accepted vfo bus src \<and>
        (\<exists>pgn. passes vfo \<lparr>vk_Bus = bus, vk_Source = src, vk_PGN = pgn\<rparr> \<and>
           content \<lparr>vk_Bus = bus, vk_Source = src, vk_PGN = pgn\<rparr> = Some v))"

lemma snapshot_assemble:
  assumes "vals_ok pgn_of vals" "\<And>k v. (k, v) \<in> set vals \<longleftrightarrow> passes vfo k \<and> content k = Some v"
  shows "snapshot_of vfo pgn_of content (assemble devices vfo pgn_of vals)"
  unfolding snapshot_of_def
proof (intro conjI ballI allI)
  show "sorted_wrt (<) (map (\<lambda>dv. (dv_Bus dv, dv_Source dv)) (assemble devices vfo pgn_of vals))"
    by (rule assemble_sorted)
  fix dv assume "dv \<in> set (assemble devices vfo pgn_of vals)"
  then show "sorted_wrt (<) (map pgn_of (dv_Values dv))"
    using values_sorted [OF assms(1)] by (auto simp: assemble_def)
next
  fix bus src v
  have "(\<exists>k. (k, v) \<in> set vals \<and> vk_Bus k = bus \<and> vk_Source k = src) \<longleftrightarrow>
      (\<exists>pgn. passes vfo \<lparr>vk_Bus = bus, vk_Source = src, vk_PGN = pgn\<rparr> \<and>
         content \<lparr>vk_Bus = bus, vk_Source = src, vk_PGN = pgn\<rparr> = Some v)"
    unfolding assms(2) by (metis valueKey.select_convs valueKey.cases)
  then show "(\<exists>dv \<in> set (assemble devices vfo pgn_of vals). dv_Bus dv = bus \<and> dv_Source dv = src \<and> v \<in> set (dv_Values dv)) \<longleftrightarrow>
        device_accepted vfo bus src \<and>
        (\<exists>pgn. passes vfo \<lparr>vk_Bus = bus, vk_Source = src, vk_PGN = pgn\<rparr> \<and>
           content \<lparr>vk_Bus = bus, vk_Source = src, vk_PGN = pgn\<rparr> = Some v)"
    unfolding assemble_members by simp
qed

lemma vals_ok_entries:
  assumes "gm_wf vs" "\<And>k e. pgn_of (f k e) = vk_PGN k"
  shows "vals_ok pgn_of (map (\<lambda>(k, e). (k, f k e)) (filter (\<lambda>(k, _). P k) vs))"
proof -
  have "map fst (map (\<lambda>(k, e). (k, f k e)) (filter (\<lambda>(k, _). P k) vs)) = map fst (filter (\<lambda>(k, _). P k) vs)"
    by (simp add: case_prod_beta o_def)
  then show ?thesis
    using assms unfolding vals_ok_def gm_wf_def by (auto simp: distinct_map_filter simp del: map_map)
qed

lemma map_filter_entries:
  assumes "gm_wf vs"
  shows "vals_ok dp_PGN (List.map_filter (decode_entry reg describe rfc) (filter (\<lambda>(k, _). P k) vs))"
    and "(k, v) \<in> set (List.map_filter (decode_entry reg describe rfc) (filter (\<lambda>(k, _). P k) vs)) \<longleftrightarrow>
      P k \<and> (\<exists>e. gm_get vs k = Some e \<and> map_option snd (decode_entry reg describe rfc (k, e)) = Some v)"
proof -
  have key: "fst y = fst x" "dp_PGN (snd y) = vk_PGN (fst x)" if "decode_entry reg describe rfc x = Some y" for x y
    using that by (auto simp: decode_entry_def split: option.splits prod.splits)
  have "distinct (map fst (List.map_filter (decode_entry reg describe rfc) xs)) \<and>
      set (map fst (List.map_filter (decode_entry reg describe rfc) xs)) \<subseteq> set (map fst xs)"
    if "distinct (map fst xs)" for xs
    using that by (induction xs) (auto simp: map_filter_simps key(1) split: option.splits)
  then have "distinct (map fst (List.map_filter (decode_entry reg describe rfc) (filter (\<lambda>(k, _). P k) vs)))"
    using assms by (simp add: gm_wf_def distinct_map_filter)
  then show "vals_ok dp_PGN (List.map_filter (decode_entry reg describe rfc) (filter (\<lambda>(k, _). P k) vs))"
    using key by (fastforce simp: vals_ok_def List.map_filter_def)
  show "(k, v) \<in> set (List.map_filter (decode_entry reg describe rfc) (filter (\<lambda>(k, _). P k) vs)) \<longleftrightarrow>
      P k \<and> (\<exists>e. gm_get vs k = Some e \<and> map_option snd (decode_entry reg describe rfc (k, e)) = Some v)"
    using key(1) by (force simp: List.map_filter_def gm_get_iff [OF assms] image_iff)
qed

section \<open>Histories\<close>

datatype vs_op = VRecord string u8 u32 gotime bytes u64 | VRemove string u8

fun vs_step :: "vs_op \<Rightarrow> ValueStore \<Rightarrow> ValueStore" where
  "vs_step (VRecord bus src pgn ts data seq) vs = ValueStore_Record vs bus src pgn ts data seq"
| "vs_step (VRemove bus src) vs = RemoveSource vs bus src"

definition vs_run :: "vs_op list \<Rightarrow> ValueStore" where
  "vs_run ops = fold vs_step ops NewValueStore"

text \<open>The operations that overwrite or remove the value of a key.\<close>

fun touches_key :: "valueKey \<Rightarrow> vs_op \<Rightarrow> bool" where
  "touches_key k (VRecord bus src pgn ts data seq) \<longleftrightarrow> k = \<lparr>vk_Bus = bus, vk_Source = src, vk_PGN = pgn\<rparr>"
| "touches_key k (VRemove bus src) \<longleftrightarrow> vk_Bus k = bus \<and> vk_Source k = src"

lemma vs_step_get:
  "gm_get (vs_step op vs) k =
     (if touches_key k op
      then (case op of VRecord bus src pgn ts data seq \<Rightarrow> Some \<lparr>ve_Timestamp = ts, ve_Data = data, ve_Seq = seq\<rparr>
            | VRemove _ _ \<Rightarrow> None)
      else gm_get vs k)"
  by (cases op) (auto simp: ValueStore_Record_def RemoveSource_def gm_get_del_if_key)

lemma vs_run_wf: "gm_wf (vs_run ops)"
proof -
  have "gm_wf vs \<Longrightarrow> gm_wf (fold vs_step ops vs)" for vs
  proof (induction ops arbitrary: vs)
    case (Cons op ops)
    have "gm_wf (vs_step op vs)"
      using Cons.prems by (cases op) (auto simp: ValueStore_Record_def RemoveSource_def)
    then show ?case using Cons.IH by simp
  qed simp
  then show ?thesis by (simp add: vs_run_def NewValueStore_def)
qed

section \<open>Properties\<close>

text \<open>
  C39: The store holds the last frame of every key: a value is there exactly when it was recorded
  and since then neither another frame of that bus, source and PGN was recorded nor the source
  removed.
\<close>

theorem store_holds_last_value:
  "gm_get (vs_run ops) k = Some e \<longleftrightarrow>
     (\<exists>pre post. ops = pre @ VRecord (vk_Bus k) (vk_Source k) (vk_PGN k) (ve_Timestamp e) (ve_Data e) (ve_Seq e) # post
        \<and> list_all (\<lambda>op. \<not> touches_key k op) post)"
proof (induction ops rule: rev_induct)
  case Nil
  then show ?case by (simp add: vs_run_def NewValueStore_def)
next
  case (snoc op ops)
  let ?rec = "VRecord (vk_Bus k) (vk_Source k) (vk_PGN k) (ve_Timestamp e) (ve_Data e) (ve_Seq e)"
  have split: "(\<exists>pre post. ops @ [op] = pre @ ?rec # post \<and> list_all (\<lambda>op. \<not> touches_key k op) post) \<longleftrightarrow>
      op = ?rec \<or> \<not> touches_key k op \<and> (\<exists>pre post. ops = pre @ ?rec # post \<and> list_all (\<lambda>op. \<not> touches_key k op) post)"
    (is "?L \<longleftrightarrow> ?R")
  proof
    assume ?L
    then obtain pre post where "ops @ [op] = pre @ ?rec # post" "list_all (\<lambda>op. \<not> touches_key k op) post" by blast
    then show ?R by (cases post rule: rev_cases) auto
  next
    assume ?R
    then show ?L
    proof
      assume "op = ?rec"
      then show ?L by (intro exI [of _ ops] exI [of _ "[]"]) simp
    next
      assume "\<not> touches_key k op \<and> (\<exists>pre post. ops = pre @ ?rec # post \<and> list_all (\<lambda>op. \<not> touches_key k op) post)"
      then obtain pre post where "\<not> touches_key k op" "ops = pre @ ?rec # post" "list_all (\<lambda>op. \<not> touches_key k op) post" by blast
      then show ?L by (intro exI [of _ pre] exI [of _ "post @ [op]"]) simp
    qed
  qed
  have step: "gm_get (vs_run (ops @ [op])) k = gm_get (vs_step op (vs_run ops)) k"
    by (simp add: vs_run_def)
  show ?case
    unfolding step vs_step_get split snoc.IH [symmetric]
    by (cases op) auto
qed


text \<open>
  The decoded snapshot is ordered in the same way and contains exactly the accepted values whose
  PGN has a decoder that decodes them.
\<close>

theorem decoded_snapshot_complete_and_sorted:
  "snapshot_of (newValueFilter fo devices) dp_PGN
     (\<lambda>k. case gm_get (vs_run ops) k of None \<Rightarrow> None | Some e \<Rightarrow> map_option snd (decode_entry reg describe rfc (k, e)))
     (DecodedSnapshot reg describe rfc (vs_run ops) devices fo)"
  unfolding DecodedSnapshot_def Let_def
  by (intro snapshot_assemble map_filter_entries(1) vs_run_wf)
     (auto simp: map_filter_entries(2) [OF vs_run_wf] split: option.splits)

end
