(* ===== verification/Ring.thy ===== *)
theory Ring
  imports FastPacket
begin

text \<open>
  The broker's ring buffer of frames (\<^verbatim>\<open>broker.go\<close>: the fields \<^verbatim>\<open>ring\<close>, \<^verbatim>\<open>ringMask\<close>, \<^verbatim>\<open>head\<close>, \<^verbatim>\<open>tail\<close>
  of \<^verbatim>\<open>Broker\<close>, the append of \<^verbatim>\<open>handleFrame\<close>, \<^verbatim>\<open>readEntry\<close>, \<^verbatim>\<open>ringRange\<close>, \<^verbatim>\<open>CurrentSeq\<close>). The
  locale \<open>sequence_log\<close> is the interface its readers rely on: an append-only log of which a suffix
  can be read by sequence number. The pre-serialized JSON of an entry is the record that is
  serialized.
\<close>

section \<open>The ring\<close>

record frameJSON =
  fj_Seq :: u64
  fj_Ts :: string
  fj_Bus :: string
  fj_Prio :: u8
  fj_PGN :: u32
  fj_Src :: u8
  fj_Dst :: u8
  fj_Data :: string

record ringEntry =
  re_Seq :: u64
  re_Timestamp :: gotime
  re_Header :: CANHeader
  re_Bus :: string
  re_RawData :: bytes
  re_JSON :: frameJSON

record ring_state =
  rg_ring :: "ringEntry list"
  rg_ringMask :: nat
  rg_head :: u64
  rg_tail :: u64

definition ring_index :: "ring_state \<Rightarrow> u64 \<Rightarrow> nat" where
  "ring_index r seq = unat (seq AND of_nat (rg_ringMask r))"

definition advance_tail :: "ring_state \<Rightarrow> ring_state" where
  "advance_tail r =
     (if rg_head r - rg_tail r > of_nat (rg_ringMask r + 1)
      then r\<lparr>rg_tail := rg_head r - of_nat (rg_ringMask r + 1)\<rparr> else r)"

text \<open>The append of a broker that numbers frames itself: the entry gets the number \<^verbatim>\<open>head\<close>.\<close>

definition ring_append :: "ringEntry \<Rightarrow> ring_state \<Rightarrow> ring_state" where
  "ring_append e r =
     advance_tail (r\<lparr>rg_ring := (rg_ring r)[ring_index r (rg_head r) := e\<lparr>re_Seq := rg_head r\<rparr>],
                     rg_head := rg_head r + 1\<rparr>)"

text \<open>The append of a replica: the entry keeps the number of the source broker.\<close>

definition ring_append_replica :: "ringEntry \<Rightarrow> ring_state \<Rightarrow> ring_state" where
  "ring_append_replica e r =
     advance_tail (r\<lparr>rg_ring := (rg_ring r)[ring_index r (re_Seq e) := e],
                     rg_head := (if re_Seq e + 1 > rg_head r then re_Seq e + 1 else rg_head r)\<rparr>)"

definition readEntry :: "ring_state \<Rightarrow> u64 \<Rightarrow> ringEntry option" where
  "readEntry r seq =
     (if seq < rg_tail r \<or> seq \<ge> rg_head r then None
      else
        let entry = rg_ring r ! ring_index r seq
        in if re_Seq entry \<noteq> seq then None else Some entry)"

definition ringRange :: "ring_state \<Rightarrow> u64 \<times> u64" where
  "ringRange r = (rg_tail r, rg_head r)"

definition CurrentSeq :: "ring_state \<Rightarrow> u64" where
  "CurrentSeq r = (if rg_head r = 0 then 0 else rg_head r - 1)"

definition blank_entry :: ringEntry where
  "blank_entry = \<lparr>re_Seq = 0, re_Timestamp = zeroTime,
     re_Header = \<lparr>h_Priority = 0, h_PGN = 0, h_Source = 0, h_Destination = 0\<rparr>, re_Bus = [], re_RawData = [],
     re_JSON = \<lparr>fj_Seq = 0, fj_Ts = [], fj_Bus = [], fj_Prio = 0, fj_PGN = 0, fj_Src = 0, fj_Dst = 0, fj_Data = []\<rparr>\<rparr>"

definition new_ring :: "nat \<Rightarrow> u64 \<Rightarrow> ring_state" where
  "new_ring n head = \<lparr>rg_ring = replicate n blank_entry, rg_ringMask = n - 1, rg_head = head, rg_tail = head\<rparr>"

section \<open>The interface of a sequence log\<close>

lemma map_nth_snoc:
  "map (\<lambda>i. f i ((xs @ [x]) ! i)) [0..<length (xs @ [x])] = map (\<lambda>i. f i (xs ! i)) [0..<length xs] @ [f (length xs) x]"
  by (simp add: nth_append)


text \<open>
  \<open>holds h es s\<close>: the entries appended so far are \<open>es\<close>, numbered from \<open>h\<close>. A reader sees the bounds
  of the readable suffix and reads by number.
\<close>

locale sequence_log =
  fixes append :: "'e \<Rightarrow> 's \<Rightarrow> 's" and stamp :: "u64 \<Rightarrow> 'e \<Rightarrow> 'e"
    and rd :: "'s \<Rightarrow> u64 \<Rightarrow> 'e option" and bounds :: "'s \<Rightarrow> u64 \<times> u64"
    and holds :: "u64 \<Rightarrow> 'e list \<Rightarrow> 's \<Rightarrow> bool"
  assumes head_holds: "holds h es s \<Longrightarrow> unat (snd (bounds s)) = unat h + length es"
    and tail_holds: "holds h es s \<Longrightarrow> unat h \<le> unat (fst (bounds s)) \<and> fst (bounds s) \<le> snd (bounds s)"
    and read_holds: "holds h es s \<Longrightarrow> fst (bounds s) \<le> q \<Longrightarrow> q < snd (bounds s) \<Longrightarrow> rd s q = Some (es ! (unat q - unat h))"
    and read_outside: "holds h es s \<Longrightarrow> q < fst (bounds s) \<or> q \<ge> snd (bounds s) \<Longrightarrow> rd s q = None"
    and append_holds: "holds h es s \<Longrightarrow> unat h + length es < 2 ^ 64 - 1 \<Longrightarrow>
      holds h (es @ [stamp (snd (bounds s)) e]) (append e s)"
begin

lemma read_prefix: "holds h es s \<Longrightarrow> rd s q = Some e \<Longrightarrow> unat h \<le> unat q \<and> unat q < unat h + length es \<and> e = es ! (unat q - unat h)"
  using read_holds [of h es s q] read_outside [of h es s q] tail_holds [of h es s] head_holds [of h es s]
  by (cases "fst (bounds s) \<le> q \<and> q < snd (bounds s)") (auto simp: word_le_nat_alt word_less_nat_alt)

text \<open>What a reader sees once, it sees again or not at all: entries never change.\<close>

lemma read_stable:
  assumes "holds h es s" "holds h (es @ xs) s'" "rd s q = Some e" "rd s' q = Some e'"
  shows "e' = e"
  using read_prefix [OF assms(1,3)] read_prefix [OF assms(2,4)] by (auto simp: nth_append)

lemma run_holds:
  "holds h [] s \<Longrightarrow> unat h + length es < 2 ^ 64 \<Longrightarrow>
     holds h (map (\<lambda>i. stamp (h + of_nat i) (es ! i)) [0..<length es]) (fold append es s)"
proof (induction es rule: rev_induct)
  case (snoc e es)
  then have R: "holds h (map (\<lambda>i. stamp (h + of_nat i) (es ! i)) [0..<length es]) (fold append es s)" (is "holds h ?l ?s")
    by simp
  have "unat (snd (bounds ?s)) = unat (h + of_nat (length es))"
    using head_holds [OF R] snoc.prems(2) by (simp add: unat_word_ariths unat_of_nat mod_less)
  then have "snd (bounds ?s) = h + of_nat (length es)"
    by (simp only: word_unat_eq_iff)
  then have "holds h (?l @ [stamp (h + of_nat (length es)) e]) (append e ?s)"
    using append_holds [OF R] snoc.prems(2) by simp
  then show ?case
    unfolding map_nth_snoc [of "\<lambda>i e. stamp (h + of_nat i) e" es e] by simp
qed simp

end

section \<open>The ring is a sequence log\<close>

definition ring_holds :: "nat \<Rightarrow> u64 \<Rightarrow> ringEntry list \<Rightarrow> ring_state \<Rightarrow> bool" where
  "ring_holds k h es r \<longleftrightarrow>
     k < 63 \<and> length (rg_ring r) = 2 ^ k \<and> rg_ringMask r = 2 ^ k - 1
     \<and> unat (rg_head r) = unat h + length es
     \<and> unat (rg_tail r) = max (unat h) (unat h + length es - 2 ^ k)
     \<and> (\<forall>i < length es. unat (rg_tail r) \<le> unat h + i \<longrightarrow>
          rg_ring r ! ((unat h + i) mod 2 ^ k) = es ! i \<and> unat (re_Seq (es ! i)) = unat h + i)"

lemma ring_index_mod:
  assumes "k < 63" "rg_ringMask r = 2 ^ k - 1"
  shows "ring_index r q = unat q mod 2 ^ k"
proof -
  have "(of_nat (2 ^ k - 1) :: u64) = mask k"
    by (simp add: mask_eq_exp_minus_1)
  then have "q AND of_nat (rg_ringMask r) = take_bit k q"
    using assms(2) by (simp add: take_bit_eq_mask)
  then show ?thesis
    by (simp add: ring_index_def unsigned_take_bit_eq flip: take_bit_eq_mod)
qed

lemma unat_size:
  assumes "k < 63"
  shows "unat (of_nat (2 ^ k - 1 + 1) :: u64) = 2 ^ k"
proof -
  have "(2::nat) ^ k < 2 ^ LENGTH(64)"
    using assms by (intro power_strict_increasing) auto
  then have "unat (of_nat (2 ^ k) :: u64) = 2 ^ k"
    by (simp only: unat_of_nat mod_less)
  then show ?thesis
    by (simp only: le_add_diff_inverse2 one_le_numeral one_le_power)
qed

lemma ring_holds_new: "k < 63 \<Longrightarrow> ring_holds k h [] (new_ring (2 ^ k) h)"
  by (simp add: ring_holds_def new_ring_def)

lemma ring_holds_read:
  assumes "ring_holds k h es r" "rg_tail r \<le> q" "q < rg_head r"
  shows "readEntry r q = Some (es ! (unat q - unat h))"
proof -
  have i: "unat h \<le> unat q" "unat q - unat h < length es" "unat (rg_tail r) \<le> unat q"
    using assms by (auto simp: ring_holds_def word_le_nat_alt word_less_nat_alt)
  then have "rg_ring r ! (unat q mod 2 ^ k) = es ! (unat q - unat h)" "unat (re_Seq (es ! (unat q - unat h))) = unat q"
    using assms(1) unfolding ring_holds_def by (metis le_add_diff_inverse)+
  moreover have "ring_index r q = unat q mod 2 ^ k"
    using assms(1) by (intro ring_index_mod) (auto simp: ring_holds_def)
  ultimately show ?thesis
    using assms(2,3) by (auto simp: readEntry_def Let_def not_less not_le word_unat_eq_iff)
qed

lemma ring_append_parts:
  assumes "ring_holds k h es r" "unat h + length es < 2 ^ 64 - 1"
  shows "unat (rg_head (ring_append e r)) = unat h + length es + 1"
    and "unat (rg_tail (ring_append e r)) = max (unat h) (unat h + length es + 1 - 2 ^ k)"
    and "rg_ring (ring_append e r) = (rg_ring r)[(unat h + length es) mod 2 ^ k := e\<lparr>re_Seq := rg_head r\<rparr>]"
    and "rg_ringMask (ring_append e r) = rg_ringMask r"
proof -
  have k: "k < 63" "rg_ringMask r = 2 ^ k - 1" and hd: "unat (rg_head r) = unat h + length es"
    and tl: "unat (rg_tail r) = max (unat h) (unat h + length es - 2 ^ k)"
    using assms(1) by (auto simp: ring_holds_def)
  have hd1: "unat (rg_head r + 1) = unat h + length es + 1"
    using assms(2) hd by (simp add: unat_word_ariths mod_less)
  have le: "rg_tail r \<le> rg_head r + 1"
    using hd1 tl by (simp add: word_le_nat_alt)
  have sz: "unat (of_nat (rg_ringMask r + 1) :: u64) = 2 ^ k"
    using unat_size [OF k(1)] k(2) by simp
  have full: "rg_head r + 1 - rg_tail r > of_nat (rg_ringMask r + 1) \<longleftrightarrow>
      unat h + length es + 1 - unat (rg_tail r) > 2 ^ k"
    using sz hd1 le by (simp only: word_less_nat_alt unat_sub)
  have cut: "unat (rg_head r + 1 - of_nat (rg_ringMask r + 1)) = unat h + length es + 1 - 2 ^ k"
    if "unat h + length es + 1 \<ge> 2 ^ k"
    using sz hd1 that by (subst unat_sub) (auto simp: word_le_nat_alt)
  show "unat (rg_tail (ring_append e r)) = max (unat h) (unat h + length es + 1 - 2 ^ k)"
  proof (cases "unat h + length es + 1 - unat (rg_tail r) > 2 ^ k")
    case True
    then show ?thesis
      using full cut tl by (auto simp: ring_append_def advance_tail_def max_def split: if_splits)
  next
    case False
    then show ?thesis
      using full tl by (auto simp: ring_append_def advance_tail_def max_def split: if_splits)
  qed
  show "unat (rg_head (ring_append e r)) = unat h + length es + 1"
    using hd1 by (simp add: ring_append_def advance_tail_def)
  show "rg_ring (ring_append e r) = (rg_ring r)[(unat h + length es) mod 2 ^ k := e\<lparr>re_Seq := rg_head r\<rparr>]"
    using ring_index_mod [OF k] hd by (simp add: ring_append_def advance_tail_def)
  show "rg_ringMask (ring_append e r) = rg_ringMask r"
    by (simp add: ring_append_def advance_tail_def)
qed

lemma mod_same_slot:
  assumes "m < n" "n - m < (2::nat) ^ k"
  shows "m mod 2 ^ k \<noteq> n mod 2 ^ k"
proof
  assume "m mod 2 ^ k = n mod 2 ^ k"
  then have "2 ^ k dvd n - m"
    using assms(1) by (metis less_or_eq_imp_le mod_eq_dvd_iff_nat)
  then show False
    using assms by (auto dest: dvd_imp_le)
qed

lemma ring_holds_append:
  assumes "ring_holds k h es r" "unat h + length es < 2 ^ 64 - 1"
  shows "ring_holds k h (es @ [e\<lparr>re_Seq := rg_head r\<rparr>]) (ring_append e r)"
proof -
  have slot: "rg_ring (ring_append e r) ! ((unat h + i) mod 2 ^ k) = (es @ [e\<lparr>re_Seq := rg_head r\<rparr>]) ! i \<and>
      unat (re_Seq ((es @ [e\<lparr>re_Seq := rg_head r\<rparr>]) ! i)) = unat h + i"
    if "i < Suc (length es)" "max (unat h) (unat h + length es + 1 - 2 ^ k) \<le> unat h + i" for i
  proof (cases "i = length es")
    case True
    moreover have "(unat h + length es) mod 2 ^ k < length (rg_ring r)" "unat (rg_head r) = unat h + length es"
      using assms(1) by (auto simp: ring_holds_def)
    ultimately show ?thesis
      by (simp add: ring_append_parts [OF assms])
  next
    case False
    then have "(unat h + i) mod 2 ^ k \<noteq> (unat h + length es) mod 2 ^ k"
      using that by (intro mod_same_slot) auto
    moreover have "rg_ring r ! ((unat h + i) mod 2 ^ k) = es ! i \<and> unat (re_Seq (es ! i)) = unat h + i"
      using assms(1) False that by (auto simp: ring_holds_def)
    ultimately show ?thesis
      using False that by (simp add: ring_append_parts [OF assms] nth_append)
  qed
  show ?thesis
    unfolding ring_holds_def using slot assms(1)
    by (simp add: ring_append_parts [OF assms] ring_holds_def)
qed

interpretation ring_log: sequence_log ring_append "\<lambda>q e. e\<lparr>re_Seq := q\<rparr>" readEntry ringRange "ring_holds k" for k
proof
  fix h es r q e
  assume R: "ring_holds k h es r"
  show "unat (snd (ringRange r)) = unat h + length es"
    using R by (simp add: ringRange_def ring_holds_def)
  show "unat h \<le> unat (fst (ringRange r)) \<and> fst (ringRange r) \<le> snd (ringRange r)"
    using R by (auto simp: ringRange_def ring_holds_def word_le_nat_alt)
  show "fst (ringRange r) \<le> q \<Longrightarrow> q < snd (ringRange r) \<Longrightarrow> readEntry r q = Some (es ! (unat q - unat h))"
    using R by (simp add: ringRange_def ring_holds_read)
  show "q < fst (ringRange r) \<or> q \<ge> snd (ringRange r) \<Longrightarrow> readEntry r q = None"
    by (auto simp: ringRange_def readEntry_def)
  show "unat h + length es < 2 ^ 64 - 1 \<Longrightarrow>
      ring_holds k h (es @ [e\<lparr>re_Seq := snd (ringRange r)\<rparr>]) (ring_append e r)"
    using ring_holds_append [OF R] by (simp add: ringRange_def)
qed

lemma unat_offset:
  assumes "unat (h :: u64) + i < 2 ^ 64"
  shows "unat (h + of_nat i) = unat h + i"
  using assms by (simp add: unat_word_ariths unat_of_nat mod_less)

lemma ring_run_holds:
  assumes "k < 63" "unat h + length es < 2 ^ 64"
  shows "ring_holds k h (map (\<lambda>i. (es ! i)\<lparr>re_Seq := h + of_nat i\<rparr>) [0..<length es]) (fold ring_append es (new_ring (2 ^ k) h))"
  by (rule ring_log.run_holds [OF ring_holds_new [OF assms(1)] assms(2)])

text \<open>
  The ring holds exactly the last frames. After any number of appends to a ring of \<open>2\<^sup>k\<close> slots
  that starts at \<open>h\<close>, reading sequence number \<open>q\<close> gives the frame appended with that number if it is
  one of the last \<open>2\<^sup>k\<close> appended and nothing otherwise (as long as the numbers fit 64 bits).
\<close>

theorem ring_keeps_last_frames:
  assumes "k < 63" "unat h + length es < 2 ^ 64"
  shows "readEntry (fold ring_append es (new_ring (2 ^ k) h)) q =
    (if unat h \<le> unat q \<and> unat q < unat h + length es \<and> unat h + length es \<le> unat q + 2 ^ k
     then Some ((es ! (unat q - unat h))\<lparr>re_Seq := q\<rparr>) else None)"
proof -
  let ?l = "map (\<lambda>i. (es ! i)\<lparr>re_Seq := h + of_nat i\<rparr>) [0..<length es]"
  let ?r = "fold ring_append es (new_ring (2 ^ k) h)"
  note R = ring_run_holds [OF assms]
  have b: "unat (rg_tail ?r) = max (unat h) (unat h + length es - 2 ^ k)" "unat (rg_head ?r) = unat h + length es"
    using R by (auto simp: ring_holds_def)
  show ?thesis
  proof (cases "rg_tail ?r \<le> q \<and> q < rg_head ?r")
    case True
    then have q: "unat h \<le> unat q" "unat q < unat h + length es" "unat h + length es \<le> unat q + 2 ^ k"
      using b by (auto simp: word_le_nat_alt word_less_nat_alt)
    then have "unat (h + of_nat (unat q - unat h)) = unat q"
      using assms(2) by (subst unat_offset) auto
    then have "h + of_nat (unat q - unat h) = q"
      by (simp only: word_unat_eq_iff)
    then show ?thesis
      using ring_log.read_holds [OF R, of q] True q by (simp add: ringRange_def)
  next
    case False
    then have "\<not> (unat h \<le> unat q \<and> unat q < unat h + length es \<and> unat h + length es \<le> unat q + 2 ^ k)"
      using b by (auto simp: word_le_nat_alt word_less_nat_alt)
    moreover have "readEntry ?r q = None"
      using ring_log.read_outside [OF R, of q] False by (auto simp: ringRange_def not_le not_less)
    ultimately show ?thesis
      by simp
  qed
qed

theorem ring_keeps_last_frames_witness:
  "(2::nat) < 63 \<and> readEntry (fold ring_append (replicate 6 blank_entry) (new_ring (2 ^ 2) 1)) 3 = Some (blank_entry\<lparr>re_Seq := 3\<rparr>) \<and>
   readEntry (fold ring_append (replicate 6 blank_entry) (new_ring (2 ^ 2) 1)) 2 = None"
  using ring_keeps_last_frames [of 2 1 "replicate 6 blank_entry" 3] ring_keeps_last_frames [of 2 1 "replicate 6 blank_entry" 2]
  by simp

section \<open>The ring of a replica\<close>

lemma readEntry_seq: "readEntry r q = Some e \<Longrightarrow> re_Seq e = q"
  by (auto simp: readEntry_def Let_def split: if_splits)

lemma ring_append_replica_next:
  assumes "re_Seq e = rg_head r" "unat (rg_head r) < 2 ^ 64 - 1"
  shows "ring_append_replica e r = ring_append e r"
proof -
  have "rg_head r < rg_head r + 1"
    using assms(2) by (simp add: word_less_nat_alt unat_word_ariths mod_less)
  moreover have "e\<lparr>re_Seq := rg_head r\<rparr> = e"
    by (cases e) (use assms(1) in simp)
  ultimately show ?thesis
    unfolding ring_append_replica_def ring_append_def assms(1) by simp
qed

lemma replica_run_mirrors:
  assumes "k < 63" "unat h + length es < 2 ^ 64"
  shows "fold ring_append_replica (map (\<lambda>i. (es ! i)\<lparr>re_Seq := h + of_nat i\<rparr>) [0..<length es]) (new_ring (2 ^ k) h) =
         fold ring_append es (new_ring (2 ^ k) h)"
  using assms(2)
proof (induction es rule: rev_induct)
  case (snoc e es)
  let ?r = "fold ring_append es (new_ring (2 ^ k) h)"
  have "ring_holds k h (map (\<lambda>i. (es ! i)\<lparr>re_Seq := h + of_nat i\<rparr>) [0..<length es]) ?r"
    using snoc.prems by (intro ring_run_holds assms(1)) simp
  then have hd: "unat (rg_head ?r) = unat h + length es"
    by (simp add: ring_holds_def)
  then have "rg_head ?r = h + of_nat (length es)"
    using snoc.prems by (simp add: word_unat_eq_iff unat_offset)
  then have "ring_append_replica (e\<lparr>re_Seq := h + of_nat (length es)\<rparr>) ?r = ring_append (e\<lparr>re_Seq := h + of_nat (length es)\<rparr>) ?r"
    using hd snoc.prems by (intro ring_append_replica_next) auto
  also have "\<dots> = ring_append e ?r"
    by (simp add: ring_append_def)
  finally have "ring_append_replica (e\<lparr>re_Seq := h + of_nat (length es)\<rparr>) ?r = ring_append e ?r" .
  then show ?case
    unfolding map_nth_snoc [of "\<lambda>i e. e\<lparr>re_Seq := h + of_nat i\<rparr>" es e] using snoc by simp
qed simp

text \<open>
  C22: A replica mirrors its source. A ring that is fed, in order and without gaps, the entries that
  another ring has stamped ends up as the same ring.
\<close>

theorem replica_mirrors_source:
  assumes "k < 63" "unat h + length es < 2 ^ 64"
  shows "fold ring_append_replica (map (\<lambda>i. (es ! i)\<lparr>re_Seq := h + of_nat i\<rparr>) [0..<length es]) (new_ring (2 ^ k) h) =
         fold ring_append es (new_ring (2 ^ k) h)"
  by (rule replica_run_mirrors [OF assms])

theorem replica_mirrors_source_witness:
  "fold ring_append_replica [blank_entry\<lparr>re_Seq := 1\<rparr>, blank_entry\<lparr>re_Seq := 2\<rparr>, blank_entry\<lparr>re_Seq := 3\<rparr>] (new_ring (2 ^ 1) 1) =
   fold ring_append (replicate 3 blank_entry) (new_ring (2 ^ 1) 1)"
  using replica_mirrors_source [of 1 1 "replicate 3 blank_entry"] by (simp add: upt_rec)

lemma ring_index_le: "ring_index r q \<le> rg_ringMask r"
proof -
  have "unat (q AND of_nat (rg_ringMask r)) \<le> unat (of_nat (rg_ringMask r) :: u64)"
    by (simp add: word_and_le1 flip: word_le_nat_alt)
  also have "\<dots> \<le> rg_ringMask r"
    by (simp add: unat_of_nat)
  finally show ?thesis
    by (simp add: ring_index_def)
qed

definition replica_ring_ok :: "ringEntry list \<Rightarrow> ring_state \<Rightarrow> bool" where
  "replica_ring_ok es r \<longleftrightarrow> 0 < rg_tail r \<and> rg_tail r \<le> rg_head r \<and> length (rg_ring r) = rg_ringMask r + 1 \<and>
     (\<forall>e \<in> set (rg_ring r). e \<in> set es \<or> e = blank_entry)"

lemma replica_ring_ok_new: "0 < h \<Longrightarrow> 0 < n \<Longrightarrow> replica_ring_ok [] (new_ring n h)"
  by (auto simp: replica_ring_ok_def new_ring_def)

lemma advance_tail_bounds:
  assumes "rg_tail r \<le> rg_head r"
  shows "rg_tail r \<le> rg_tail (advance_tail r) \<and> rg_tail (advance_tail r) \<le> rg_head r"
proof (cases "rg_head r - rg_tail r > of_nat (rg_ringMask r + 1)")
  case True
  let ?n = "of_nat (rg_ringMask r + 1) :: u64"
  have "unat ?n < unat (rg_head r) - unat (rg_tail r)"
    using True assms by (simp add: word_less_nat_alt unat_sub)
  moreover have "unat (rg_head r - ?n) = unat (rg_head r) - unat ?n"
    using calculation by (intro unat_sub) (simp add: word_le_nat_alt)
  ultimately show ?thesis
    using True by (simp add: advance_tail_def word_le_nat_alt)
qed (use assms in \<open>simp add: advance_tail_def\<close>)

lemma replica_ring_ok_append:
  assumes "replica_ring_ok es r"
  shows "replica_ring_ok (es @ [e]) (ring_append_replica e r)"
proof -
  let ?r = "r\<lparr>rg_ring := (rg_ring r)[ring_index r (re_Seq e) := e],
              rg_head := (if re_Seq e + 1 > rg_head r then re_Seq e + 1 else rg_head r)\<rparr>"
  have "rg_tail ?r \<le> rg_head ?r" "0 < rg_tail ?r"
    using assms by (auto simp: replica_ring_ok_def)
  then have "0 < rg_tail (advance_tail ?r)" "rg_tail (advance_tail ?r) \<le> rg_head ?r"
    using advance_tail_bounds [of ?r] by (auto intro: less_le_trans)
  moreover have "rg_ring (advance_tail ?r) = rg_ring ?r" "rg_head (advance_tail ?r) = rg_head ?r" "rg_ringMask (advance_tail ?r) = rg_ringMask r"
    by (simp_all add: advance_tail_def)
  ultimately show ?thesis
    using assms set_update_subset_insert [of "rg_ring r" "ring_index r (re_Seq e)" e]
    by (auto simp: replica_ring_ok_def ring_append_replica_def)
qed

text \<open>
  C23: A replica never serves a wrong frame. Whatever frames it receives, in any order and with any
  gaps, a successful read of sequence number \<open>q\<close> returns a frame it has received with that number.
\<close>

theorem replica_reads_sound:
  assumes "0 < h" "0 < n" "readEntry (fold ring_append_replica es (new_ring n h)) q = Some e"
  shows "e \<in> set es \<and> re_Seq e = q"
proof -
  let ?r = "fold ring_append_replica es (new_ring n h)"
  have "replica_ring_ok es ?r"
    by (induction es rule: rev_induct) (simp_all add: replica_ring_ok_new assms(1,2) replica_ring_ok_append)
  moreover have "re_Seq e = q"
    using readEntry_seq [OF assms(3)] .
  moreover have "e = rg_ring ?r ! ring_index ?r q" "rg_tail ?r \<le> q"
    using assms(3) by (auto simp: readEntry_def Let_def split: if_splits)
  moreover have "ring_index ?r q < length (rg_ring ?r)"
    using calculation(1) by (auto simp: replica_ring_ok_def intro: le_less_trans [OF ring_index_le])
  ultimately show ?thesis
    by (auto simp: replica_ring_ok_def blank_entry_def)
qed

theorem replica_reads_sound_witness:
  "readEntry (fold ring_append_replica [blank_entry\<lparr>re_Seq := 4\<rparr>, blank_entry\<lparr>re_Seq := 2\<rparr>] (new_ring 4 1)) 2 =
     Some (blank_entry\<lparr>re_Seq := 2\<rparr>) \<and>
   blank_entry\<lparr>re_Seq := 2\<rparr> \<in> set [blank_entry\<lparr>re_Seq := 4\<rparr>, blank_entry\<lparr>re_Seq := 2\<rparr>]"
proof
  show r: "readEntry (fold ring_append_replica [blank_entry\<lparr>re_Seq := 4\<rparr>, blank_entry\<lparr>re_Seq := 2\<rparr>] (new_ring 4 1)) 2 =
     Some (blank_entry\<lparr>re_Seq := 2\<rparr>)"
    by (simp add: readEntry_def ring_append_replica_def advance_tail_def ring_index_def new_ring_def blank_entry_def)
  show "blank_entry\<lparr>re_Seq := 2\<rparr> \<in> set [blank_entry\<lparr>re_Seq := 4\<rparr>, blank_entry\<lparr>re_Seq := 2\<rparr>]"
    using replica_reads_sound [OF _ _ r] by simp
qed

text \<open>
  A late frame evicts a newer one: a replica that has received \<open>5\<close> and then receives \<open>1\<close>, which lies
  outside its window of four, no longer serves \<open>5\<close>.
\<close>

lemma replica_late_frame_evicts:
  "readEntry (ring_append_replica (blank_entry\<lparr>re_Seq := 5\<rparr>) (new_ring 4 1)) 5 \<noteq> None \<and>
   readEntry (fold ring_append_replica [blank_entry\<lparr>re_Seq := 5\<rparr>, blank_entry\<lparr>re_Seq := 1\<rparr>] (new_ring 4 1)) 5 = None"
  by (simp add: readEntry_def ring_append_replica_def advance_tail_def ring_index_def new_ring_def blank_entry_def)

end
