(* ===== verification/Consumer.thy ===== *)
theory Consumer
  imports Ring EventFilter Values
begin

text \<open>
  The pull-based consumer (\<^verbatim>\<open>consumer.go\<close>): \<^verbatim>\<open>NewConsumer\<close>, \<^verbatim>\<open>Next\<close>, \<^verbatim>\<open>Cursor\<close>, \<^verbatim>\<open>Close\<close> and
  \<^verbatim>\<open>Frame.JSON\<close>, running concurrently with the broker that appends to the ring and signals. \<^verbatim>\<open>Next\<close>
  takes the ring lock once per \<^verbatim>\<open>ringRange\<close> and once per \<^verbatim>\<open>readEntry\<close>, so each of these is one atomic
  action of \<open>next_action\<close> and the broker may run in between; the argument \<open>pick\<close> resolves Go's random
  choice between the ready cases of a \<^verbatim>\<open>select\<close>. The broker has no journal directory here, so
  \<^verbatim>\<open>readFromJournal\<close> is its first branch.
\<close>

section \<open>Frames and consumers\<close>

record Frame =
  fr_Seq :: u64
  fr_Timestamp :: gotime
  fr_Header :: CANHeader
  fr_Bus :: string
  fr_Data :: bytes
  fr_json :: "frameJSON option"

definition frame_json :: "(gotime \<Rightarrow> string) \<Rightarrow> u64 \<Rightarrow> gotime \<Rightarrow> string \<Rightarrow> CANHeader \<Rightarrow> bytes \<Rightarrow> frameJSON" where
  "frame_json rfc seq ts bus hdr data =
     \<lparr>fj_Seq = seq, fj_Ts = rfc ts, fj_Bus = bus, fj_Prio = h_Priority hdr, fj_PGN = h_PGN hdr,
      fj_Src = h_Source hdr, fj_Dst = h_Destination hdr, fj_Data = hex_EncodeToString data\<rparr>"

definition Frame_JSON :: "(gotime \<Rightarrow> string) \<Rightarrow> Frame \<Rightarrow> Frame \<times> frameJSON" where
  "Frame_JSON rfc f =
     (case fr_json f of
        Some j \<Rightarrow> (f, j)
      | None \<Rightarrow>
          let b = frame_json rfc (fr_Seq f) (fr_Timestamp f) (fr_Bus f) (fr_Header f) (fr_Data f)
          in (f\<lparr>fr_json := Some b\<rparr>, b))"

record ConsumerConfig =
  cc_Cursor :: u64
  cc_Filter :: "EventFilter option"

text \<open>\<open>c_notify\<close> is the content of the channel of capacity one, \<open>c_done\<close> whether \<^verbatim>\<open>done\<close> is closed.\<close>

record Consumer =
  c_cursor :: u64
  c_filter :: "resolvedFilter option"
  c_notify :: bool
  c_done :: bool

definition NewConsumer :: "DeviceRegistry \<Rightarrow> ConsumerConfig \<Rightarrow> Consumer" where
  "NewConsumer devices cfg =
     \<lparr>c_cursor = cc_Cursor cfg, c_filter = resolve_filter (cc_Filter cfg) devices, c_notify = False, c_done = False\<rparr>"

definition frame_of :: "ringEntry \<Rightarrow> Frame" where
  "frame_of entry =
     \<lparr>fr_Seq = re_Seq entry, fr_Timestamp = re_Timestamp entry, fr_Header = re_Header entry,
      fr_Bus = re_Bus entry, fr_Data = re_RawData entry, fr_json = Some (re_JSON entry)\<rparr>"

section \<open>Next as a machine of atomic actions\<close>

datatype next_error = ErrFallenBehind | ErrConsumerClosed | ErrContext

text \<open>\<open>PTop\<close>: the head of the loop; \<open>PRead\<close>: between \<^verbatim>\<open>ringRange\<close> and \<^verbatim>\<open>readEntry\<close>; \<open>PWait\<close>: at the final \<^verbatim>\<open>select\<close>.\<close>

datatype next_pc = PTop | PRead | PWait

datatype select_case = SelDone | SelCtx | SelNotify

definition ready_cases :: "Consumer \<Rightarrow> bool \<Rightarrow> bool \<Rightarrow> select_case list" where
  "ready_cases c cancelled notified =
     (if c_done c then [SelDone] else []) @ (if cancelled then [SelCtx] else []) @ (if notified then [SelNotify] else [])"

definition select_ready :: "nat \<Rightarrow> select_case list \<Rightarrow> select_case option" where
  "select_ready pick cs = (if cs = [] then None else Some (cs ! (pick mod length cs)))"

type_synonym next_outcome = "Consumer \<times> (next_pc + (next_error + Frame))"

definition readFromJournal :: "Consumer \<Rightarrow> next_outcome" where
  "readFromJournal c = (c, Inr (Inl ErrFallenBehind))"

definition range_action :: "ring_state \<Rightarrow> Consumer \<Rightarrow> next_outcome" where
  "range_action r c =
     (let (tail, head) = ringRange r
      in if c_cursor c < tail then readFromJournal c
         else if c_cursor c < head then (c, Inl PRead)
         else (c, Inl PWait))"

definition read_action :: "ring_state \<Rightarrow> Consumer \<Rightarrow> next_outcome" where
  "read_action r c =
     (case readEntry r (c_cursor c) of
        None \<Rightarrow> (c, Inr (Inl ErrFallenBehind))
      | Some entry \<Rightarrow>
          let c' = c\<lparr>c_cursor := c_cursor c + 1\<rparr>
          in if \<not> resolvedFilter_matches (c_filter c) (re_Bus entry) (re_Header entry) then (c', Inl PTop)
             else (c', Inr (Inr (frame_of entry))))"

fun next_action :: "nat \<Rightarrow> ring_state \<Rightarrow> bool \<Rightarrow> Consumer \<Rightarrow> next_pc \<Rightarrow> next_outcome option" where
  "next_action pick r cancelled c PTop =
     (case select_ready pick (ready_cases c cancelled False) of
        Some SelDone \<Rightarrow> Some (c, Inr (Inl ErrConsumerClosed))
      | Some SelCtx \<Rightarrow> Some (c, Inr (Inl ErrContext))
      | _ \<Rightarrow> Some (range_action r c))"
| "next_action pick r cancelled c PRead = Some (read_action r c)"
| "next_action pick r cancelled c PWait =
     (case select_ready pick (ready_cases c cancelled (c_notify c)) of
        None \<Rightarrow> None
      | Some SelDone \<Rightarrow> Some (c, Inr (Inl ErrConsumerClosed))
      | Some SelCtx \<Rightarrow> Some (c, Inr (Inl ErrContext))
      | Some SelNotify \<Rightarrow> Some (c\<lparr>c_notify := False\<rparr>, Inl PTop))"

section \<open>A consumer beside the broker\<close>

text \<open>
  The state of the whole: the ring, whether the broker is between appending a frame and notifying the
  consumers, whether the consumer is registered with the broker, the consumer and its program counter
  (\<open>None\<close>: not inside \<^verbatim>\<open>Next\<close>), whether the context of the call is cancelled. \<open>y_log\<close> and \<open>y_out\<close> record
  what was appended since the ring was created at \<open>y_base\<close> and what \<^verbatim>\<open>Next\<close> has returned.
\<close>

record consumer_sys =
  y_ring :: ring_state
  y_pending :: bool
  y_registered :: bool
  y_cons :: Consumer
  y_pc :: "next_pc option"
  y_cancelled :: bool
  y_log :: "ringEntry list"
  y_out :: "(next_error + Frame) list"

inductive sys_step :: "consumer_sys \<Rightarrow> consumer_sys \<Rightarrow> bool" where
  append: "\<not> y_pending y \<Longrightarrow> unat (rg_head (y_ring y)) < 2 ^ 64 - 1 \<Longrightarrow>
    sys_step y (y\<lparr>y_ring := ring_append e (y_ring y), y_pending := True,
                  y_log := y_log y @ [e\<lparr>re_Seq := rg_head (y_ring y)\<rparr>]\<rparr>)"
| notify: "y_pending y \<Longrightarrow>
    sys_step y (y\<lparr>y_pending := False,
                  y_cons := (if y_registered y then (y_cons y)\<lparr>c_notify := True\<rparr> else y_cons y)\<rparr>)"
| close: "sys_step y (y\<lparr>y_cons := (y_cons y)\<lparr>c_done := True\<rparr>\<rparr>)"
| unregister: "c_done (y_cons y) \<Longrightarrow> sys_step y (y\<lparr>y_registered := False\<rparr>)"
| cancel: "sys_step y (y\<lparr>y_cancelled := True\<rparr>)"
| call: "y_pc y = None \<Longrightarrow> sys_step y (y\<lparr>y_pc := Some PTop, y_cancelled := b\<rparr>)"
| move: "y_pc y = Some pc \<Longrightarrow> next_action pick (y_ring y) (y_cancelled y) (y_cons y) pc = Some (c, Inl pc') \<Longrightarrow>
    sys_step y (y\<lparr>y_cons := c, y_pc := Some pc'\<rparr>)"
| return: "y_pc y = Some pc \<Longrightarrow> next_action pick (y_ring y) (y_cancelled y) (y_cons y) pc = Some (c, Inr res) \<Longrightarrow>
    sys_step y (y\<lparr>y_cons := c, y_pc := None, y_out := y_out y @ [res]\<rparr>)"

definition sys_init :: "ring_state \<Rightarrow> ringEntry list \<Rightarrow> Consumer \<Rightarrow> consumer_sys" where
  "sys_init r es c = \<lparr>y_ring = r, y_pending = False, y_registered = True, y_cons = c, y_pc = None,
     y_cancelled = False, y_log = es, y_out = []\<rparr>"

inductive sys_reach :: "consumer_sys \<Rightarrow> consumer_sys \<Rightarrow> bool" for y0 where
  start: "sys_reach y0 y0"
| step: "sys_reach y0 y \<Longrightarrow> sys_step y y' \<Longrightarrow> sys_reach y0 y'"

inductive_cases sys_stepE: "sys_step y y'"

section \<open>The invariant\<close>

definition accepted :: "Consumer \<Rightarrow> ringEntry \<Rightarrow> bool" where
  "accepted c e \<longleftrightarrow> resolvedFilter_matches (c_filter c) (re_Bus e) (re_Header e)"

fun delivered_frames :: "(next_error + Frame) list \<Rightarrow> Frame list" where
  "delivered_frames [] = []"
| "delivered_frames (Inr f # xs) = f # delivered_frames xs"
| "delivered_frames (Inl e # xs) = delivered_frames xs"

lemma delivered_frames_append [simp]: "delivered_frames (xs @ ys) = delivered_frames xs @ delivered_frames ys"
  by (induction xs rule: delivered_frames.induct) auto

text \<open>The entries with numbers in \<open>[from, to)\<close> of a log that starts at \<open>h\<close>.\<close>

definition log_slice :: "u64 \<Rightarrow> u64 \<Rightarrow> u64 \<Rightarrow> 'e list \<Rightarrow> 'e list" where
  "log_slice h from to es = drop (unat from - unat h) (take (unat to - unat h) es)"

lemma log_slice_empty [simp]: "log_slice h q q es = []"
  by (simp add: log_slice_def)

lemma log_slice_append: "unat to \<le> unat h + length es \<Longrightarrow> log_slice h from to (es @ xs) = log_slice h from to es"
  by (simp add: log_slice_def)

lemma log_slice_next:
  assumes "unat from \<le> unat to" "unat h \<le> unat to" "unat to < unat h + length es" "unat to < 2 ^ 64 - 1"
  shows "log_slice h from (to + 1) es = log_slice h from to es @ [es ! (unat to - unat h)]"
proof -
  have "unat (to + 1) = unat to + 1"
    using assms(4) by (simp add: unat_word_ariths mod_less)
  moreover have "unat to + 1 - unat h = Suc (unat to - unat h)" "unat to - unat h < length es"
    using assms by auto
  ultimately show ?thesis
    using assms(1,2) by (simp add: log_slice_def take_Suc_conv_app_nth)
qed

definition sys_ok :: "nat \<Rightarrow> u64 \<Rightarrow> Consumer \<Rightarrow> consumer_sys \<Rightarrow> bool" where
  "sys_ok k h c0 y \<longleftrightarrow>
     (let c = y_cons y; q = c_cursor c; head = rg_head (y_ring y)
      in ring_holds k h (y_log y) (y_ring y)
       \<and> c_filter c = c_filter c0
       \<and> c_cursor c0 \<le> q \<and> (q = c_cursor c0 \<or> q \<le> head)
       \<and> delivered_frames (y_out y) = map frame_of (filter (accepted c0) (log_slice h (c_cursor c0) q (y_log y)))
       \<and> (y_pc y = Some PRead \<longrightarrow> q < head)
       \<and> (y_pc y = Some PWait \<longrightarrow> q < head \<longrightarrow> c_notify c \<or> y_pending y \<or> c_done c)
       \<and> (\<not> y_registered y \<longrightarrow> c_done c)
       \<and> (Inl ErrFallenBehind \<in> set (y_out y) \<longrightarrow> q < rg_tail (y_ring y)))"

lemma sys_ok_init: "ring_holds k h es r \<Longrightarrow> sys_ok k h c (sys_init r es c)"
  by (simp add: sys_ok_def sys_init_def)

text \<open>One action of \<^verbatim>\<open>Next\<close>, relative to a ring that holds a log.\<close>

lemma ring_read_cases:
  assumes "ring_holds k h es r" "q < rg_head r"
  shows "readEntry r q = None \<and> q < rg_tail r \<or>
         readEntry r q = Some (es ! (unat q - unat h)) \<and> \<not> q < rg_tail r \<and> unat h \<le> unat q \<and> unat q < unat h + length es"
proof (cases "q < rg_tail r")
  case True
  then show ?thesis
    by (simp add: readEntry_def)
next
  case False
  then have "readEntry r q = Some (es ! (unat q - unat h))"
    using ring_log.read_holds [OF assms(1), of q] assms(2) by (simp add: ringRange_def)
  then show ?thesis
    using False ring_log.read_prefix [OF assms(1)] by blast
qed

lemma read_action_holds:
  assumes R: "ring_holds k h es r" "c_cursor c < rg_head r" and a: "read_action r c = (c', res)"
  shows "c' = c \<and> res = Inr (Inl ErrFallenBehind) \<and> c_cursor c < rg_tail r \<or>
    c' = c\<lparr>c_cursor := c_cursor c + 1\<rparr> \<and> \<not> c_cursor c < rg_tail r \<and> unat h \<le> unat (c_cursor c) \<and> unat (c_cursor c) < unat h + length es \<and>
    res = (let e = es ! (unat (c_cursor c) - unat h) in if accepted c e then Inr (Inr (frame_of e)) else Inl PTop)"
  using ring_read_cases [OF R] a by (auto simp: read_action_def accepted_def Let_def split: if_splits)

text \<open>Every action either keeps the cursor and delivers nothing, or reads the entry at the cursor.\<close>

inductive action_effect :: "u64 \<Rightarrow> ringEntry list \<Rightarrow> ring_state \<Rightarrow> Consumer \<Rightarrow> next_outcome \<Rightarrow> bool" for h es r c where
  stopped: "e \<noteq> ErrFallenBehind \<Longrightarrow> action_effect h es r c (c, Inr (Inl e))"
| behind: "c_cursor c < rg_tail r \<Longrightarrow> action_effect h es r c (c, Inr (Inl ErrFallenBehind))"
| in_range: "c_cursor c < rg_head r \<Longrightarrow> action_effect h es r c (c, Inl PRead)"
| caught_up: "rg_head r \<le> c_cursor c \<Longrightarrow> action_effect h es r c (c, Inl PWait)"
| woken: "action_effect h es r c (c\<lparr>c_notify := False\<rparr>, Inl PTop)"
| skipped: "\<not> c_cursor c < rg_tail r \<Longrightarrow> c_cursor c < rg_head r \<Longrightarrow> unat h \<le> unat (c_cursor c) \<Longrightarrow> unat (c_cursor c) < unat h + length es \<Longrightarrow>
    \<not> accepted c (es ! (unat (c_cursor c) - unat h)) \<Longrightarrow> action_effect h es r c (c\<lparr>c_cursor := c_cursor c + 1\<rparr>, Inl PTop)"
| received: "\<not> c_cursor c < rg_tail r \<Longrightarrow> c_cursor c < rg_head r \<Longrightarrow> unat h \<le> unat (c_cursor c) \<Longrightarrow> unat (c_cursor c) < unat h + length es \<Longrightarrow>
    accepted c (es ! (unat (c_cursor c) - unat h)) \<Longrightarrow>
    action_effect h es r c (c\<lparr>c_cursor := c_cursor c + 1\<rparr>, Inr (Inr (frame_of (es ! (unat (c_cursor c) - unat h)))))"

lemma next_action_effect:
  assumes "ring_holds k h es r" "next_action pick r cancelled c pc = Some out" "pc = PRead \<Longrightarrow> c_cursor c < rg_head r"
  shows "action_effect h es r c out"
proof (cases pc)
  case PTop
  then show ?thesis
    using assms(2)
    by (auto simp: range_action_def readFromJournal_def ringRange_def not_less split: option.splits select_case.splits if_splits
        intro: action_effect.intros)
next
  case PRead
  obtain c' res where out: "out = (c', res)"
    by (cases out)
  then have "read_action r c = (c', res)"
    using assms(2) PRead by simp
  from read_action_holds [OF assms(1) assms(3) [OF PRead] this] show ?thesis
    using assms(3) [OF PRead] by (auto simp: out Let_def intro: action_effect.intros)
next
  case PWait
  then show ?thesis
    using assms(2) by (auto split: option.splits select_case.splits intro: action_effect.intros)
qed

lemma cursor_bump:
  assumes "q < (head :: u64)"
  shows "unat (q + 1) = unat q + 1" "q + 1 \<le> head" "q \<le> q + 1" "unat q < 2 ^ 64 - 1"
proof -
  have "unat q < unat head" "unat head < 2 ^ 64"
    using assms unsigned_less [of head] by (auto simp: word_less_nat_alt)
  then show "unat (q + 1) = unat q + 1" and m: "unat q < 2 ^ 64 - 1"
    by (auto simp: unat_word_ariths mod_less)
  then show "q + 1 \<le> head" "q \<le> q + 1"
    using assms by (auto simp: word_le_nat_alt word_less_nat_alt)
qed

lemma slice_bump:
  assumes "from \<le> q" "q < (head :: u64)" "unat h \<le> unat q" "unat q < unat h + length es"
  shows "log_slice h from (q + 1) es = log_slice h from q es @ [es ! (unat q - unat h)]"
  using assms cursor_bump(4) [OF assms(2)] by (intro log_slice_next) (auto simp: word_le_nat_alt)

lemma ring_append_mono:
  assumes "ring_holds k h es r" "unat (rg_head r) < 2 ^ 64 - 1"
  shows "rg_head r \<le> rg_head (ring_append e r)" "rg_tail r \<le> rg_tail (ring_append e r)"
  using assms(1) ring_append_parts(1,2) [OF assms(1), of e] assms(2) by (auto simp: ring_holds_def word_le_nat_alt)

lemma accepted_cong: "c_filter c = c_filter c0 \<Longrightarrow> accepted c = accepted c0"
  by (simp add: accepted_def fun_eq_iff)

lemma sys_ok_append:
  assumes ok: "sys_ok k h c0 y" and "\<not> y_pending y" and room: "unat (rg_head (y_ring y)) < 2 ^ 64 - 1"
  shows "sys_ok k h c0 (y\<lparr>y_ring := ring_append e (y_ring y), y_pending := True,
                  y_log := y_log y @ [e\<lparr>re_Seq := rg_head (y_ring y)\<rparr>]\<rparr>)"
proof -
  have R: "ring_holds k h (y_log y) (y_ring y)"
    using ok by (simp add: sys_ok_def Let_def)
  then have hd: "unat (rg_head (y_ring y)) = unat h + length (y_log y)"
    by (simp add: ring_holds_def)
  have "log_slice h (c_cursor c0) (c_cursor (y_cons y)) (y_log y @ [x]) = log_slice h (c_cursor c0) (c_cursor (y_cons y)) (y_log y)" for x
    using ok hd by (auto simp: sys_ok_def Let_def word_le_nat_alt intro: log_slice_append)
  moreover have "ring_holds k h (y_log y @ [e\<lparr>re_Seq := rg_head (y_ring y)\<rparr>]) (ring_append e (y_ring y))"
    using ring_holds_append [OF R] room hd by simp
  ultimately show ?thesis
    using ok ring_append_mono [OF R room, of e] by (auto simp: sys_ok_def Let_def intro: less_le_trans order_trans)
qed

lemma sys_ok_move:
  assumes ok: "sys_ok k h c0 y" and "y_pc y = Some pc"
    and a: "next_action pick (y_ring y) (y_cancelled y) (y_cons y) pc = Some (c, Inl pc')"
  shows "sys_ok k h c0 (y\<lparr>y_cons := c, y_pc := Some pc'\<rparr>)"
proof -
  have "action_effect h (y_log y) (y_ring y) (y_cons y) (c, Inl pc')"
    using ok assms(2) by (intro next_action_effect [OF _ a]) (auto simp: sys_ok_def Let_def)
  then show ?thesis
  proof (cases rule: action_effect.cases)
    case skipped
    note b = cursor_bump [OF skipped(4)]
    have "c_cursor c0 \<le> c_cursor (y_cons y)" "\<not> accepted c0 (y_log y ! (unat (c_cursor (y_cons y)) - unat h))"
      using ok skipped accepted_cong [of "y_cons y" c0] by (auto simp: sys_ok_def Let_def)
    then show ?thesis
      using ok skipped b slice_bump [of "c_cursor c0" "c_cursor (y_cons y)" "rg_head (y_ring y)" h "y_log y"]
      by (auto simp: sys_ok_def Let_def)
  qed (use ok in \<open>auto simp: sys_ok_def Let_def\<close>)
qed

lemma sys_ok_return:
  assumes ok: "sys_ok k h c0 y" and "y_pc y = Some pc"
    and a: "next_action pick (y_ring y) (y_cancelled y) (y_cons y) pc = Some (c, Inr res)"
  shows "sys_ok k h c0 (y\<lparr>y_cons := c, y_pc := None, y_out := y_out y @ [res]\<rparr>)"
proof -
  have "action_effect h (y_log y) (y_ring y) (y_cons y) (c, Inr res)"
    using ok assms(2) by (intro next_action_effect [OF _ a]) (auto simp: sys_ok_def Let_def)
  then show ?thesis
  proof (cases rule: action_effect.cases)
    case received
    note b = cursor_bump [OF received(4)]
    have "c_cursor c0 \<le> c_cursor (y_cons y)" "accepted c0 (y_log y ! (unat (c_cursor (y_cons y)) - unat h))"
      using ok received accepted_cong [of "y_cons y" c0] by (auto simp: sys_ok_def Let_def)
    then show ?thesis
      using ok received b slice_bump [of "c_cursor c0" "c_cursor (y_cons y)" "rg_head (y_ring y)" h "y_log y"]
      by (auto simp: sys_ok_def Let_def)
  qed (use ok in \<open>auto simp: sys_ok_def Let_def\<close>)
qed

lemma sys_ok_step: "sys_step y y' \<Longrightarrow> sys_ok k h c0 y \<Longrightarrow> sys_ok k h c0 y'"
proof (induction rule: sys_step.induct)
  case (append y e)
  then show ?case
    by (intro sys_ok_append)
next
  case (move y pc pick c pc')
  then show ?case
    by (intro sys_ok_move)
next
  case (return y pc pick c res)
  then show ?case
    by (intro sys_ok_return)
qed (auto simp: sys_ok_def Let_def)

lemma sys_ok_reach: "sys_reach y0 y \<Longrightarrow> sys_ok k h c0 y0 \<Longrightarrow> sys_ok k h c0 y"
  by (induction rule: sys_reach.induct) (auto intro: sys_ok_step)

lemma sys_ok_reach_new:
  assumes "k < 63" "sys_reach (sys_init (new_ring (2 ^ k) h) [] c) y"
  shows "sys_ok k h c y"
  by (rule sys_ok_reach [OF assms(2) sys_ok_init [OF ring_holds_new [OF assms(1)]]])

text \<open>A consumer that has fallen behind stays behind.\<close>

lemma behind_step:
  assumes "sys_step y y'" "sys_ok k h c0 y" "c_cursor (y_cons y) < rg_tail (y_ring y)"
  shows "c_cursor (y_cons y') = c_cursor (y_cons y) \<and> c_cursor (y_cons y') < rg_tail (y_ring y')"
  using assms
proof (induction rule: sys_step.induct)
  case (append y e)
  then show ?case
    using ring_append_mono(2) [of k h "y_log y" "y_ring y" e] by (auto simp: sys_ok_def Let_def)
next
  case (move y pc pick c pc')
  then have "action_effect h (y_log y) (y_ring y) (y_cons y) (c, Inl pc')"
    by (intro next_action_effect [OF _ move(2)]) (auto simp: sys_ok_def Let_def)
  then show ?case
    using move(4) by (cases rule: action_effect.cases) auto
next
  case (return y pc pick c res)
  then have "action_effect h (y_log y) (y_ring y) (y_cons y) (c, Inr res)"
    by (intro next_action_effect [OF _ return(2)]) (auto simp: sys_ok_def Let_def)
  then show ?case
    using return(4) by (cases rule: action_effect.cases) auto
qed auto

lemma behind_reach:
  "sys_reach y y' \<Longrightarrow> sys_ok k h c0 y \<Longrightarrow> c_cursor (y_cons y) < rg_tail (y_ring y) \<Longrightarrow>
     c_cursor (y_cons y') = c_cursor (y_cons y) \<and> c_cursor (y_cons y') < rg_tail (y_ring y') \<and> sys_ok k h c0 y'"
  by (induction rule: sys_reach.induct) (auto dest: behind_step sys_ok_step)

section \<open>A call of Next that runs undisturbed\<close>

text \<open>\<open>Some (c, None)\<close>: the call blocks at the final \<^verbatim>\<open>select\<close> until the broker signals; \<open>None\<close>: out of fuel.\<close>

fun Next_run :: "nat \<Rightarrow> ring_state \<Rightarrow> Consumer \<Rightarrow> next_pc \<Rightarrow> (Consumer \<times> (next_error + Frame) option) option" where
  "Next_run 0 r c pc = None"
| "Next_run (Suc n) r c pc =
     (case next_action 0 r False c pc of
        None \<Rightarrow> Some (c, None)
      | Some (c', Inl pc') \<Rightarrow> Next_run n r c' pc'
      | Some (c', Inr res) \<Rightarrow> Some (c', Some res))"

lemma log_slice_Cons:
  assumes "unat h \<le> unat q" "unat q < unat h + length es" "q < head"
  shows "log_slice h q head es = (es ! (unat q - unat h)) # log_slice h (q + 1) head es"
proof -
  have "unat q - unat h < length (take (unat head - unat h) es)"
    using assms by (auto simp: word_less_nat_alt)
  then have "drop (unat q - unat h) (take (unat head - unat h) es) =
      (take (unat head - unat h) es ! (unat q - unat h)) # drop (Suc (unat q - unat h)) (take (unat head - unat h) es)"
    by (rule Cons_nth_drop_Suc [symmetric])
  moreover have "Suc (unat q - unat h) = unat (q + 1) - unat h"
    using cursor_bump(1) [OF assms(3)] assms(1) by simp
  ultimately show ?thesis
    using assms by (simp add: log_slice_def word_less_nat_alt)
qed

lemma log_slice_past: "head \<le> q \<Longrightarrow> log_slice h q head es = []"
  by (simp add: log_slice_def word_le_nat_alt)

lemma Next_run_top:
  "\<not> c_done c \<Longrightarrow> Next_run (Suc n) r c PTop =
     (case range_action r c of (c', Inl pc) \<Rightarrow> Next_run n r c' pc | (c', Inr res) \<Rightarrow> Some (c', Some res))"
  by (simp add: select_ready_def ready_cases_def)

lemma Next_run_wait:
  "\<not> c_done c \<Longrightarrow> Next_run (Suc n) r c PWait =
     (if c_notify c then Next_run n r (c\<lparr>c_notify := False\<rparr>) PTop else Some (c, None))"
  by (simp add: select_ready_def ready_cases_def)

declare Next_run.simps [simp del]

lemma Next_run_blocks:
  assumes "rg_head r \<le> c_cursor c" "\<not> c_cursor c < rg_tail r" "\<not> c_done c" "4 \<le> n"
  shows "Next_run n r c PTop = Some (c\<lparr>c_notify := False\<rparr>, None)"
proof -
  obtain m where n: "n = Suc (Suc (Suc (Suc m)))"
    using le_Suc_ex [OF assms(4)] by auto
  have "range_action r c = (c, Inl PWait)" "range_action r (c\<lparr>c_notify := False\<rparr>) = (c\<lparr>c_notify := False\<rparr>, Inl PWait)"
    using assms(1,2) by (auto simp: range_action_def ringRange_def)
  moreover have "c\<lparr>c_notify := False\<rparr> = c" if "\<not> c_notify c"
    by (cases c) (use that in simp)
  ultimately show ?thesis
    using assms(3) by (simp add: n Next_run_top Next_run_wait)
qed

definition next_spec :: "u64 \<Rightarrow> ringEntry list \<Rightarrow> ring_state \<Rightarrow> Consumer \<Rightarrow> Consumer \<times> (next_error + Frame) option" where
  "next_spec h es r c =
     (if c_cursor c < rg_tail r then (c, Some (Inl ErrFallenBehind))
      else case find (accepted c) (log_slice h (c_cursor c) (rg_head r) es) of
             None \<Rightarrow> (c\<lparr>c_cursor := max (c_cursor c) (rg_head r), c_notify := False\<rparr>, None)
           | Some e \<Rightarrow> (c\<lparr>c_cursor := re_Seq e + 1\<rparr>, Some (Inr (frame_of e))))"

lemma Next_run_in_ring:
  assumes "\<not> c_done c" "\<not> c_cursor c < rg_tail r" "c_cursor c < rg_head r" "readEntry r (c_cursor c) = Some e"
  shows "Next_run (Suc (Suc n)) r c PTop =
    (if accepted c e then Some (c\<lparr>c_cursor := c_cursor c + 1\<rparr>, Some (Inr (frame_of e)))
     else Next_run n r (c\<lparr>c_cursor := c_cursor c + 1\<rparr>) PTop)"
proof -
  have "range_action r c = (c, Inl PRead)"
    using assms(2,3) by (simp add: range_action_def ringRange_def)
  moreover have "Next_run (Suc n) r c PRead =
    (case read_action r c of (c', Inl pc) \<Rightarrow> Next_run n r c' pc | (c', Inr res) \<Rightarrow> Some (c', Some res))"
    by (simp add: Next_run.simps)
  ultimately show ?thesis
    using assms(4) by (simp add: Next_run_top [OF assms(1)] read_action_def accepted_def)
qed

lemma next_spec_in_ring:
  assumes R: "ring_holds k h es r" and q: "\<not> c_cursor c < rg_tail r" "c_cursor c < rg_head r" "readEntry r (c_cursor c) = Some e"
  shows "next_spec h es r c =
    (if accepted c e then (c\<lparr>c_cursor := c_cursor c + 1\<rparr>, Some (Inr (frame_of e)))
     else next_spec h es r (c\<lparr>c_cursor := c_cursor c + 1\<rparr>))"
proof -
  have e: "e = es ! (unat (c_cursor c) - unat h)" and b: "unat h \<le> unat (c_cursor c)" "unat (c_cursor c) < unat h + length es"
    using ring_log.read_prefix [OF R q(3)] by blast+
  have t: "\<not> c_cursor c + 1 < rg_tail r"
    using order_trans [OF _ cursor_bump(3) [OF q(2)], of "rg_tail r"] q(1) by (simp only: not_less)
  have m: "max (c_cursor c + 1) (rg_head r) = rg_head r" "max (c_cursor c) (rg_head r) = rg_head r"
    using max_absorb2 [OF cursor_bump(2) [OF q(2)]] max_absorb2 [OF less_imp_le [OF q(2)]] by (simp_all only:)
  have s: "log_slice h (c_cursor c) (rg_head r) es = e # log_slice h (c_cursor c + 1) (rg_head r) es"
    unfolding e by (rule log_slice_Cons [OF b q(2)])
  have a: "accepted (c\<lparr>c_cursor := c_cursor c + 1\<rparr>) = accepted c"
    by (rule accepted_cong) simp
  show ?thesis
    using q(1) t m a s readEntry_seq [OF q(3)] by (simp add: next_spec_def split: option.split)
qed

lemma Next_run_spec:
  assumes "ring_holds k h es r"
  shows "\<not> c_done c \<Longrightarrow> 2 * (unat (rg_head r) - unat (c_cursor c)) + 4 \<le> n \<Longrightarrow> Next_run n r c PTop = Some (next_spec h es r c)"
proof (induction "unat (rg_head r) - unat (c_cursor c)" arbitrary: c n rule: less_induct)
  case less
  have "2 \<le> n"
    using less.prems(2) by simp
  then obtain n' where n': "n = Suc (Suc n')"
    using le_Suc_ex [of 2 n] by auto
  consider (behind) "c_cursor c < rg_tail r" | (ring) "\<not> c_cursor c < rg_tail r" "c_cursor c < rg_head r"
    | (live) "\<not> c_cursor c < rg_tail r" "rg_head r \<le> c_cursor c"
    by (meson not_le)
  then show ?case
  proof cases
    case behind
    then show ?thesis
      by (simp add: n' Next_run_top [OF less.prems(1)] next_spec_def range_action_def ringRange_def readFromJournal_def)
  next
    case ring
    then obtain e where e: "readEntry r (c_cursor c) = Some e"
      using ring_read_cases [OF assms] by blast
    let ?c = "c\<lparr>c_cursor := c_cursor c + 1\<rparr>"
    have "unat (rg_head r) - unat (c_cursor ?c) < unat (rg_head r) - unat (c_cursor c)"
      using cursor_bump(1) [OF ring(2)] ring(2) by (simp add: word_less_nat_alt)
    then have "Next_run n' r ?c PTop = Some (next_spec h es r ?c)"
      using less.prems n' by (intro less.hyps) simp_all
    then show ?thesis
      by (simp add: n' Next_run_in_ring [OF less.prems(1) ring e] next_spec_in_ring [OF assms ring e])
  next
    case live
    then have "log_slice h (c_cursor c) (rg_head r) es = []" "max (c_cursor c) (rg_head r) = c_cursor c"
      by (auto simp: log_slice_past max_def)
    then show ?thesis
      using Next_run_blocks [OF live(2,1) less.prems(1), of n] less.prems(2) live(1) by (simp add: next_spec_def)
  qed
qed

section \<open>What a consumer gets\<close>





section \<open>Witnesses\<close>

definition sample_entry :: "u32 \<Rightarrow> ringEntry" where
  "sample_entry p = blank_entry\<lparr>re_Header := \<lparr>h_Priority = 6, h_PGN = p, h_Source = 1, h_Destination = 255\<rparr>\<rparr>"

definition sample_consumer :: Consumer where
  "sample_consumer = NewConsumer NewDeviceRegistry
     \<lparr>cc_Cursor = 1, cc_Filter = Some \<lparr>ef_PGNs = [2], ef_ExcludePGNs = [], ef_Manufacturers = [], ef_Instances = [],
        ef_Names = [], ef_ExcludeNames = [], ef_Buses = []\<rparr>\<rparr>"

text \<open>Schedules as lists of events, to exhibit reachable states.\<close>

datatype sys_event = EAppend ringEntry | ENotify | ECall | EAct nat

fun sys_do :: "sys_event \<Rightarrow> consumer_sys \<Rightarrow> consumer_sys option" where
  "sys_do (EAppend e) y =
     (if y_pending y \<or> rg_head (y_ring y) = - 1 then None
      else Some (y\<lparr>y_ring := ring_append e (y_ring y), y_pending := True,
                   y_log := y_log y @ [e\<lparr>re_Seq := rg_head (y_ring y)\<rparr>]\<rparr>))"
| "sys_do ENotify y =
     (if y_pending y then Some (y\<lparr>y_pending := False,
        y_cons := (if y_registered y then (y_cons y)\<lparr>c_notify := True\<rparr> else y_cons y)\<rparr>) else None)"
| "sys_do ECall y = (if y_pc y = None then Some (y\<lparr>y_pc := Some PTop, y_cancelled := False\<rparr>) else None)"
| "sys_do (EAct pick) y =
     (case y_pc y of
        None \<Rightarrow> None
      | Some pc \<Rightarrow>
          (case next_action pick (y_ring y) (y_cancelled y) (y_cons y) pc of
             None \<Rightarrow> None
           | Some (c, Inl pc') \<Rightarrow> Some (y\<lparr>y_cons := c, y_pc := Some pc'\<rparr>)
           | Some (c, Inr res) \<Rightarrow> Some (y\<lparr>y_cons := c, y_pc := None, y_out := y_out y @ [res]\<rparr>)))"

fun sys_exec :: "sys_event list \<Rightarrow> consumer_sys \<Rightarrow> consumer_sys option" where
  "sys_exec [] y = Some y"
| "sys_exec (ev # evs) y = (case sys_do ev y of None \<Rightarrow> None | Some y' \<Rightarrow> sys_exec evs y')"

lemma unat_not_max: "(x :: u64) \<noteq> - 1 \<Longrightarrow> unat x < 2 ^ 64 - 1"
proof -
  assume "x \<noteq> - 1"
  then have "unat x \<noteq> unat (- 1 :: u64)"
    by (simp only: word_unat_eq_iff not_False_eq_True)
  moreover have "unat (- 1 :: u64) = 2 ^ 64 - 1"
    by (simp add: unsigned_minus_1_eq_mask mask_eq_exp_minus_1)
  moreover have "unat x < 2 ^ 64"
    using unsigned_less [of x] by simp
  ultimately show ?thesis
    by simp
qed

lemma sys_do_step:
  assumes "sys_do ev y = Some y'"
  shows "sys_step y y'"
proof (cases ev)
  case (EAppend e)
  then have "\<not> y_pending y" "unat (rg_head (y_ring y)) < 2 ^ 64 - 1"
    and y': "y' = y\<lparr>y_ring := ring_append e (y_ring y), y_pending := True, y_log := y_log y @ [e\<lparr>re_Seq := rg_head (y_ring y)\<rparr>]\<rparr>"
    using assms unat_not_max by (auto split: if_splits)
  then show ?thesis
    unfolding y' by (intro sys_step.append)
next
  case ENotify
  then show ?thesis
    using assms sys_step.notify [of y] by (simp split: if_splits)
next
  case ECall
  then show ?thesis
    using assms by (auto split: if_splits intro: sys_step.call)
next
  case (EAct pick)
  then show ?thesis
    using assms by (auto split: option.splits sum.splits simp del: next_action.simps intro: sys_step.move sys_step.return)
qed

lemma sys_exec_reach: "sys_exec evs y = Some y' \<Longrightarrow> sys_reach y0 y \<Longrightarrow> sys_reach y0 y'"
proof (induction evs arbitrary: y)
  case (Cons ev evs)
  then obtain y1 where "sys_do ev y = Some y1" "sys_exec evs y1 = Some y'"
    by (auto split: option.splits)
  then show ?case
    using Cons sys_reach.step [OF _ sys_do_step] by blast
qed simp

definition sample_state :: consumer_sys where
  "sample_state = the (sys_exec [EAppend (sample_entry 1), ENotify, EAppend (sample_entry 2), ENotify, ECall, EAct 0, EAct 0, EAct 0, EAct 0]
     (sys_init (new_ring (2 ^ 1) 1) [] sample_consumer))"

lemma sample_state_exec:
  "sys_exec [EAppend (sample_entry 1), ENotify, EAppend (sample_entry 2), ENotify, ECall, EAct 0, EAct 0, EAct 0, EAct 0]
     (sys_init (new_ring (2 ^ 1) 1) [] sample_consumer) = Some sample_state"
  by code_simp


definition sample_waiting :: consumer_sys where
  "sample_waiting = the (sys_exec [ECall, EAct 0] (sys_init (new_ring (2 ^ 1) 1) [] sample_consumer))"


definition sample_behind :: consumer_sys where
  "sample_behind = the (sys_exec [EAppend (sample_entry 1), ENotify, EAppend (sample_entry 2), ENotify, ECall, EAct 0]
     (sys_init (new_ring (2 ^ 0) 1) [] sample_consumer))"



end
