(* ===== verification/Alerting.thy ===== *)
theory Alerting
  imports Devices
begin

text \<open>
  Alerts (\<^verbatim>\<open>alerting.go\<close>) and the bus silence monitor (\<^verbatim>\<open>bus_silence.go\<close>): deduplication of alerts by
  type, the bounded queue to the webhook sender, and the detection of silence and its end. The
  delivery over HTTP is not modelled. The \<^verbatim>\<open>details\<close> of an event are the values that are marshalled.
\<close>

section \<open>Durations as text\<close>

text \<open>\<^verbatim>\<open>d.Truncate(time.Second)\<close> and the \<^verbatim>\<open>String\<close> of a whole number of seconds.\<close>

definition Truncate_second :: "duration \<Rightarrow> duration" where
  "Truncate_second d = (if d < 0 then - (((- d) div 10 ^ 9) * 10 ^ 9) else (d div 10 ^ 9) * 10 ^ 9)"

definition Duration_String_seconds :: "duration \<Rightarrow> string" where
  "Duration_String_seconds d =
     (let total = nat (abs d div 10 ^ 9); h = total div 3600; m = (total div 60) mod 60; s = total mod 60
      in (if d < 0 then ''-'' else [])
         @ (if h > 0 then FormatUint 10 h @ ''h'' else [])
         @ (if total \<ge> 60 then FormatUint 10 m @ ''m'' else [])
         @ FormatUint 10 s @ ''s'')"

section \<open>The alert manager\<close>

datatype AlertType =
  AlertBusSilence | AlertBusResumed | AlertDeviceRemoved | AlertReplicationDisconnected | AlertReplicationReconnected

datatype alert_details =
  SilenceDetails gotime duration
| ResumedDetails duration
| DeviceDetails u8 string string
| DisconnectDetails string

record AlertEvent =
  a_Timestamp :: gotime
  a_Type :: AlertType
  a_Severity :: string
  a_Summary :: string
  a_InstanceID :: string
  a_Details :: "alert_details option"

record AlertManagerConfig =
  ac_WebhookURL :: string
  ac_Timeout :: duration
  ac_DedupWindow :: duration
  ac_InstanceID :: string

record AlertManager =
  am_cfg :: AlertManagerConfig
  am_ch :: "AlertEvent list"
  am_lastSent :: "(AlertType, gotime) gomap"

definition NewAlertManager :: "AlertManagerConfig \<Rightarrow> AlertManager option" where
  "NewAlertManager cfg =
     (if ac_WebhookURL cfg = [] then None
      else
        let cfg1 = (if ac_Timeout cfg = 0 then cfg\<lparr>ac_Timeout := 5 * 10 ^ 9\<rparr> else cfg);
            cfg2 = (if ac_DedupWindow cfg1 = 0 then cfg1\<lparr>ac_DedupWindow := 5 * 60 * 10 ^ 9\<rparr> else cfg1)
        in Some \<lparr>am_cfg = cfg2, am_ch = [], am_lastSent = []\<rparr>)"

definition suppressed :: "AlertManager \<Rightarrow> gotime \<Rightarrow> AlertType \<Rightarrow> bool" where
  "suppressed am now ty =
     (case gm_get (am_lastSent am) ty of
        Some sent \<Rightarrow> time_Sub now sent < ac_DedupWindow (am_cfg am)
      | None \<Rightarrow> False)"

definition Fire :: "gotime \<Rightarrow> AlertEvent \<Rightarrow> AlertManager option \<Rightarrow> AlertManager option" where
  "Fire now event mgr =
     (case mgr of
        None \<Rightarrow> None
      | Some am \<Rightarrow>
          let e1 = (if IsZero (a_Timestamp event) then event\<lparr>a_Timestamp := now\<rparr> else event);
              e2 = (if a_InstanceID e1 = [] then e1\<lparr>a_InstanceID := ac_InstanceID (am_cfg am)\<rparr> else e1)
          in if suppressed am now (a_Type e2) then Some am
             else
               let am1 = am\<lparr>am_lastSent := gm_put (a_Type e2) now (am_lastSent am)\<rparr>
               in Some (if length (am_ch am1) < 64 then am1\<lparr>am_ch := am_ch am1 @ [e2]\<rparr> else am1))"

text \<open>The sender takes the oldest queued event.\<close>

definition alert_take :: "AlertManager option \<Rightarrow> AlertManager option" where
  "alert_take mgr = map_option (\<lambda>am. am\<lparr>am_ch := tl (am_ch am)\<rparr>) mgr"

definition FireBusSilence :: "gotime \<Rightarrow> gotime \<Rightarrow> duration \<Rightarrow> AlertManager option \<Rightarrow> AlertManager option" where
  "FireBusSilence now lastFrame elapsed =
     Fire now \<lparr>a_Timestamp = zeroTime, a_Type = AlertBusSilence, a_Severity = ''warning'',
       a_Summary = ''CAN bus silent for '' @ Duration_String_seconds (Truncate_second elapsed),
       a_InstanceID = [], a_Details = Some (SilenceDetails lastFrame elapsed)\<rparr>"

definition FireBusResumed :: "gotime \<Rightarrow> duration \<Rightarrow> AlertManager option \<Rightarrow> AlertManager option" where
  "FireBusResumed now silenceDuration =
     Fire now \<lparr>a_Timestamp = zeroTime, a_Type = AlertBusResumed, a_Severity = ''info'',
       a_Summary = ''CAN bus activity resumed after '' @ Duration_String_seconds (Truncate_second silenceDuration),
       a_InstanceID = [], a_Details = Some (ResumedDetails silenceDuration)\<rparr>"

definition FireDeviceRemoved :: "gotime \<Rightarrow> u8 \<Rightarrow> Device option \<Rightarrow> AlertManager option \<Rightarrow> AlertManager option" where
  "FireDeviceRemoved now src dev =
     (let manufacturer = (case dev of Some d \<Rightarrow> d_Manufacturer d | None \<Rightarrow> []);
          modelID = (case dev of Some d \<Rightarrow> d_ModelID d | None \<Rightarrow> []);
          n = FormatUint 10 (unat src);
          summary = (if manufacturer \<noteq> [] then ''Device removed: '' @ manufacturer @ '' (source '' @ n @ '')''
                     else ''Device removed: source '' @ n)
      in Fire now \<lparr>a_Timestamp = zeroTime, a_Type = AlertDeviceRemoved, a_Severity = ''warning'', a_Summary = summary,
           a_InstanceID = [], a_Details = Some (DeviceDetails src manufacturer modelID)\<rparr>)"

definition FireReplicationDisconnected :: "gotime \<Rightarrow> string \<Rightarrow> AlertManager option \<Rightarrow> AlertManager option" where
  "FireReplicationDisconnected now reason =
     Fire now \<lparr>a_Timestamp = zeroTime, a_Type = AlertReplicationDisconnected, a_Severity = ''warning'',
       a_Summary = ''Replication disconnected: '' @ reason, a_InstanceID = [], a_Details = Some (DisconnectDetails reason)\<rparr>"

definition FireReplicationReconnected :: "gotime \<Rightarrow> AlertManager option \<Rightarrow> AlertManager option" where
  "FireReplicationReconnected now =
     Fire now \<lparr>a_Timestamp = zeroTime, a_Type = AlertReplicationReconnected, a_Severity = ''info'',
       a_Summary = ''Replication reconnected'', a_InstanceID = [], a_Details = None\<rparr>"

section \<open>The bus silence monitor\<close>

record BusSilenceMonitor =
  bs_timeout :: duration
  bs_alerts :: "AlertManager option"
  bs_silentAt :: gotime

definition NewBusSilenceMonitor :: "duration \<Rightarrow> AlertManager option \<Rightarrow> BusSilenceMonitor" where
  "NewBusSilenceMonitor timeout alerts = \<lparr>bs_timeout = timeout, bs_alerts = alerts, bs_silentAt = zeroTime\<rparr>"

definition check_interval :: "BusSilenceMonitor \<Rightarrow> duration" where
  "check_interval m =
     (let i0 = (if bs_timeout m < 0 then - ((- bs_timeout m) div 2) else bs_timeout m div 2);
          i1 = (if i0 > 5 * 10 ^ 9 then 5 * 10 ^ 9 else i0)
      in if i1 < 10 ^ 9 then 10 ^ 9 else i1)"

definition silence_check :: "gotime \<Rightarrow> gotime \<Rightarrow> BusSilenceMonitor \<Rightarrow> BusSilenceMonitor" where
  "silence_check now lastFrame m =
     (if IsZero lastFrame then m
      else
        let elapsed = time_Sub now lastFrame
        in if elapsed \<ge> bs_timeout m then
             (if IsZero (bs_silentAt m)
              then m\<lparr>bs_silentAt := now, bs_alerts := FireBusSilence now lastFrame elapsed (bs_alerts m)\<rparr>
              else m)
           else if \<not> IsZero (bs_silentAt m)
             then m\<lparr>bs_alerts := FireBusResumed now (time_Sub now (bs_silentAt m)) (bs_alerts m), bs_silentAt := zeroTime\<rparr>
             else m)"

definition IsSilent :: "BusSilenceMonitor \<Rightarrow> bool" where
  "IsSilent m \<longleftrightarrow> \<not> IsZero (bs_silentAt m)"

section \<open>Deduplication\<close>

text \<open>The alerts of a history of calls of \<^verbatim>\<open>Fire\<close> that are not suppressed.\<close>

fun passed_alerts :: "(gotime \<times> AlertEvent) list \<Rightarrow> AlertManager option \<Rightarrow> (gotime \<times> AlertType) list" where
  "passed_alerts [] mgr = []"
| "passed_alerts ((now, ev) # evs) mgr =
     (case mgr of
        None \<Rightarrow> []
      | Some am \<Rightarrow>
          (if suppressed am now (a_Type ev) then [] else [(now, a_Type ev)]) @ passed_alerts evs (Fire now ev mgr))"

lemma Fire_Some:
  "Fire now ev (Some am) =
     (if suppressed am now (a_Type ev) then Some am
      else Some (am\<lparr>am_lastSent := gm_put (a_Type ev) now (am_lastSent am),
                     am_ch := (if length (am_ch am) < 64
                       then am_ch am @ [ev\<lparr>a_Timestamp := (if IsZero (a_Timestamp ev) then now else a_Timestamp ev),
                              a_InstanceID := (if a_InstanceID ev = [] then ac_InstanceID (am_cfg am) else a_InstanceID ev)\<rparr>]
                       else am_ch am)\<rparr>))"
  by (cases ev; cases am) (simp add: Fire_def Let_def)

lemma passed_alerts_spaced:
  fixes T :: AlertType
  defines "sel \<equiv> (\<lambda>l. map fst (filter (\<lambda>x. snd x = T) l))"
  shows "successively (\<lambda>t u. time_Sub u t \<ge> ac_DedupWindow (am_cfg am))
    ((case gm_get (am_lastSent am) T of Some t \<Rightarrow> [t] | None \<Rightarrow> []) @ sel (passed_alerts evs (Some am)))"
proof (induction evs arbitrary: am)
  case Nil
  then show ?case
    by (simp add: sel_def split: option.split)
next
  case (Cons x evs)
  obtain now ev where x: "x = (now, ev)"
    by fastforce
  show ?case
  proof (cases "suppressed am now (a_Type ev)")
    case True
    then show ?thesis
      using Cons.IH [of am] by (simp add: x sel_def Fire_Some)
  next
    case False
    define am' where "am' = the (Fire now ev (Some am))"
    have am': "Fire now ev (Some am) = Some am'" "am_cfg am' = am_cfg am" "am_lastSent am' = gm_put (a_Type ev) now (am_lastSent am)"
      using False by (simp_all add: am'_def Fire_Some)
    show ?thesis
      using Cons.IH [of am'] False am' by (auto simp: x sel_def suppressed_def split: option.splits)
  qed
qed


definition sample_alert_cfg :: AlertManagerConfig where
  "sample_alert_cfg = \<lparr>ac_WebhookURL = ''http://x'', ac_Timeout = 0, ac_DedupWindow = 10, ac_InstanceID = ''boat''\<rparr>"

definition sample_alert :: AlertEvent where
  "sample_alert = \<lparr>a_Timestamp = zeroTime, a_Type = AlertDeviceRemoved, a_Severity = ''warning'', a_Summary = [],
     a_InstanceID = [], a_Details = None\<rparr>"


section \<open>Silence\<close>

definition monitor_run :: "(gotime \<times> gotime) list \<Rightarrow> BusSilenceMonitor \<Rightarrow> BusSilenceMonitor" where
  "monitor_run checks m = fold (\<lambda>(now, lastFrame). silence_check now lastFrame) checks m"

lemma silence_check_IsSilent:
  assumes "\<not> IsZero now"
  shows "IsSilent (silence_check now lf m) = (if IsZero lf then IsSilent m else time_Sub now lf \<ge> bs_timeout m)"
    and "bs_timeout (silence_check now lf m) = bs_timeout m"
  using assms by (auto simp: silence_check_def IsSilent_def Let_def)

text \<open>
  The monitor is right about silence. After any sequence of checks, each at a time \<open>now\<close> with the
  time of the broker's last frame, the monitor is in the silent state exactly if the last check that
  had seen a frame found it at least the timeout ago; before the first frame it is not silent.
\<close>

theorem monitor_reports_silence:
  assumes "\<forall>(now, lastFrame) \<in> set checks. \<not> IsZero now"
  shows "IsSilent (monitor_run checks (NewBusSilenceMonitor timeout alerts)) =
    (case filter (\<lambda>(now, lastFrame). \<not> IsZero lastFrame) checks of
       [] \<Rightarrow> False
     | seen \<Rightarrow> (case last seen of (now, lastFrame) \<Rightarrow> time_Sub now lastFrame \<ge> timeout))"
proof -
  let ?m = "\<lambda>cs. monitor_run cs (NewBusSilenceMonitor timeout alerts)"
  have "bs_timeout (?m checks) = timeout \<and> IsSilent (?m checks) =
    (filter (\<lambda>(now, lastFrame). \<not> IsZero lastFrame) checks \<noteq> [] \<and>
     (case last (filter (\<lambda>(now, lastFrame). \<not> IsZero lastFrame) checks) of (now, lastFrame) \<Rightarrow> time_Sub now lastFrame \<ge> timeout))"
    using assms
  proof (induction checks rule: rev_induct)
    case Nil
    then show ?case
      by (simp add: monitor_run_def NewBusSilenceMonitor_def IsSilent_def)
  next
    case (snoc c cs)
    obtain now lf where c: "c = (now, lf)"
      by fastforce
    then have "\<not> IsZero now" "?m (cs @ [c]) = silence_check now lf (?m cs)"
      using snoc.prems by (auto simp: monitor_run_def)
    then show ?case
      using snoc silence_check_IsSilent [of now lf "?m cs"] by (simp add: c)
  qed
  then show ?thesis
    by (simp split: list.split)
qed

theorem monitor_reports_silence_witness:
  "IsSilent (monitor_run [(100, 0), (200, 150), (260, 150)] (NewBusSilenceMonitor 60 None))"
  using monitor_reports_silence [of "[(100, 0), (200, 150), (260, 150)]" 60 None]
  by (simp add: IsZero_def zeroTime_def time_Sub_def minDuration_def maxDuration_def)

end
