(* ===== verification/Broker.thy ===== *)
theory Broker
  imports Consumer RequestRules VirtualDevice Values Alerting "HOL-Library.Monad_Syntax"
begin

text \<open>
  The broker (\<^verbatim>\<open>broker.go\<close>): its state, \<^verbatim>\<open>NewBroker\<close>, \<^verbatim>\<open>handleFrame\<close> with device discovery, virtual
  devices, request rules, ring, values and fan-out, the periodic work of \<^verbatim>\<open>Run\<close>, subscribers, client
  sessions and statistics. One operation is one step of the model; the times it reads from the clock
  are its argument \<open>now\<close>. A result \<open>None\<close> is a panic. Channels are lists with their capacities; a
  message to a subscriber is the record that is marshalled to JSON. \<open>rfc\<close> stands for
  \<^verbatim>\<open>Time.Format(time.RFC3339Nano)\<close>. Pointers that are used as map keys (subscribers, consumers) are
  numbers.
\<close>

section \<open>State\<close>

datatype sub_msg =
  MsgFrame frameJSON
| MsgDevice Device
| MsgDeviceRemoved string u8

record subscriber =
  sub_ch :: "sub_msg list"
  sub_filter :: "EventFilter option"

record ClientSession =
  cs_ID :: string
  cs_Cursor :: u64
  cs_BufferTimeout :: duration
  cs_LastActivity :: gotime
  cs_Filter :: "EventFilter option"

record journal_chan =
  jc_cap :: nat
  jc_queue :: "RxFrame list"

record Broker =
  b_txFrames :: "TxRequest list"
  b_devices :: DeviceRegistry
  b_values :: ValueStore
  b_sessions :: "(string, ClientSession) gomap"
  b_subscribers :: "(nat, subscriber) gomap"
  b_consumers :: "(nat, Consumer) gomap"
  b_ring :: ring_state
  b_maxBufferDuration :: duration
  b_journal :: "journal_chan option"
  b_requests :: "Engine option"
  b_requestPGNs :: "u32 set option"
  b_journalDir :: string
  b_replicaMode :: bool
  b_deviceIdleTimeout :: duration
  b_virtualDevices :: "VirtualDeviceManager option"
  b_alerts :: "AlertManager option"
  b_frameCount :: u64
  b_lastFrameNano :: int
  b_journalDrops :: u64
  b_devicesAdded :: u64
  b_devicesRemoved :: u64

record BrokerConfig =
  bc_RingSize :: int
  bc_MaxBufferDuration :: duration
  bc_JournalDir :: string
  bc_ReplicaMode :: bool
  bc_InitialHead :: u64
  bc_DeviceIdleTimeout :: duration
  bc_VirtualDevices :: "VirtualDeviceConfig list"
  bc_ClaimHeartbeat :: duration
  bc_ProductInfoHeartbeat :: duration
  bc_RequestRules :: "Rule list"
  bc_RequestGlobalMinInterval :: duration

definition refreshRequestPGNs :: "Broker \<Rightarrow> Broker" where
  "refreshRequestPGNs b =
     (case b_requests b of None \<Rightarrow> b | Some e \<Rightarrow> b\<lparr>b_requestPGNs := Some (InterestingPGNs e)\<rparr>)"

definition add_valid_rule :: "Rule \<Rightarrow> Engine \<Rightarrow> Engine" where
  "add_valid_rule r e = (case AddRule e r of Inl _ \<Rightarrow> e | Inr e' \<Rightarrow> e')"

definition new_broker_state :: "BrokerConfig \<Rightarrow> nat \<Rightarrow> Broker" where
  "new_broker_state cfg ringSize =
     (let maxBuffer = (if bc_MaxBufferDuration cfg = 0 then 5 * 60 * 10 ^ 9 else bc_MaxBufferDuration cfg);
          head = (if bc_InitialHead cfg > 0 then bc_InitialHead cfg else 1);
          idle0 = (if bc_DeviceIdleTimeout cfg = 0 then 5 * 60 * 10 ^ 9 else bc_DeviceIdleTimeout cfg);
          idle = (if idle0 < 0 then 0 else idle0)
      in \<lparr>b_txFrames = [], b_devices = NewDeviceRegistry, b_values = NewValueStore, b_sessions = [],
          b_subscribers = [], b_consumers = [], b_ring = new_ring ringSize head,
          b_maxBufferDuration = maxBuffer, b_journal = None, b_requests = None, b_requestPGNs = None,
          b_journalDir = bc_JournalDir cfg, b_replicaMode = bc_ReplicaMode cfg, b_deviceIdleTimeout = idle,
          b_virtualDevices = None, b_alerts = None, b_frameCount = 0, b_lastFrameNano = 0, b_journalDrops = 0,
          b_devicesAdded = 0, b_devicesRemoved = 0\<rparr>)"

definition configure_virtual :: "BrokerConfig \<Rightarrow> Broker \<Rightarrow> Broker" where
  "configure_virtual cfg b =
     (if bc_VirtualDevices cfg \<noteq> [] \<and> \<not> bc_ReplicaMode cfg
      then b\<lparr>b_virtualDevices := Some (fold (\<lambda>vdc m. VirtualDeviceManager_Add m vdc) (bc_VirtualDevices cfg)
                (NewVirtualDeviceManager (bc_ClaimHeartbeat cfg) (bc_ProductInfoHeartbeat cfg)))\<rparr>
      else b)"

definition configure_rules :: "BrokerConfig \<Rightarrow> Broker \<Rightarrow> Broker" where
  "configure_rules cfg b =
     (if bc_RequestRules cfg \<noteq> [] \<and> \<not> bc_ReplicaMode cfg
      then refreshRequestPGNs (b\<lparr>b_requests := Some (fold add_valid_rule (bc_RequestRules cfg)
             (NewEngine (bc_RequestGlobalMinInterval cfg)))\<rparr>)
      else b)"

definition NewBroker :: "BrokerConfig \<Rightarrow> Broker option" where
  "NewBroker cfg =
     (let ringSize = (if bc_RingSize cfg = 0 then 65536 else bc_RingSize cfg)
      in if ringSize AND (ringSize - 1) \<noteq> 0 then None
         else Some (configure_rules cfg (configure_virtual cfg (new_broker_state cfg (nat ringSize)))))"

section \<open>Transmission\<close>

definition QueueTx :: "Broker \<Rightarrow> TxRequest \<Rightarrow> Broker \<times> bool" where
  "QueueTx b req =
     (if length (b_txFrames b) < 64 then (b\<lparr>b_txFrames := b_txFrames b @ [req]\<rparr>, True) else (b, False))"

definition queueTx :: "TxRequest \<Rightarrow> Broker \<Rightarrow> Broker" where
  "queueTx req b = (if length (b_txFrames b) < 64 then b\<lparr>b_txFrames := b_txFrames b @ [req]\<rparr> else b)"

definition isoRequestSource :: "Broker \<Rightarrow> u8" where
  "isoRequestSource b =
     (case b_virtualDevices b of
        None \<Rightarrow> 254
      | Some m \<Rightarrow> (case ClaimedSource m of Some addr \<Rightarrow> addr | None \<Rightarrow> 254))"

definition iso_request :: "Broker \<Rightarrow> string \<Rightarrow> u8 \<Rightarrow> u32 \<Rightarrow> TxRequest" where
  "iso_request b bus dst pgn =
     \<lparr>tx_Header = \<lparr>h_Priority = 6, h_PGN = 59904, h_Source = isoRequestSource b, h_Destination = dst\<rparr>,
      tx_Data = [ucast pgn, ucast (drop_bit 8 pgn), ucast (drop_bit 16 pgn)], tx_Bus = bus\<rparr>"

definition sendISORequest :: "Broker \<Rightarrow> string \<Rightarrow> u8 \<Rightarrow> u32 \<Rightarrow> Broker" where
  "sendISORequest b bus dst pgn = queueTx (iso_request b bus dst pgn) b"

datatype broker_error = TxQueueFull | RulesDisabled | InvalidRule rule_error | SessionNotFound string

definition SendISORequest :: "Broker \<Rightarrow> string \<Rightarrow> u8 \<Rightarrow> u32 \<Rightarrow> Broker \<times> broker_error option" where
  "SendISORequest b bus dst pgn =
     (let (b', ok) = QueueTx b (iso_request b bus dst pgn) in (b', if ok then None else Some TxQueueFull))"

definition AddRequestRule :: "Broker \<Rightarrow> Rule \<Rightarrow> Broker \<times> broker_error option" where
  "AddRequestRule b r =
     (if b_replicaMode b then (b, Some RulesDisabled)
      else
        let e = (case b_requests b of None \<Rightarrow> NewEngine 0 | Some e \<Rightarrow> e)
        in case AddRule e r of
             Inl err \<Rightarrow> (b\<lparr>b_requests := Some e\<rparr>, Some (InvalidRule err))
           | Inr e' \<Rightarrow> (refreshRequestPGNs (b\<lparr>b_requests := Some e'\<rparr>), None))"

definition deviceViewFrom :: "Device \<Rightarrow> DeviceView" where
  "deviceViewFrom d =
     \<lparr>dv_Bus = d_Bus d, dv_Source = d_Source d, dv_NAMEHex = d_NAMEHex d, dv_Manufacturer = d_Manufacturer d,
      dv_ManufacturerCode = d_ManufacturerCode d, dv_DeviceClass = d_DeviceClass d, dv_DeviceFunction = d_DeviceFunction d,
      dv_DeviceInstance = d_DeviceInstance d, dv_ModelID = d_ModelID d, dv_ProductCode = d_ProductCode d\<rparr>"

definition dispatch_request :: "Request \<Rightarrow> Broker \<Rightarrow> Broker" where
  "dispatch_request r b =
     (case rq_Via r of
        ViaISORequest \<Rightarrow> sendISORequest b (rq_Bus r) (rq_Dst r) (rq_PGN r)
      | ViaFrame \<Rightarrow>
          let prio = (if rq_Priority r = 0 then 6 else rq_Priority r)
          in queueTx \<lparr>tx_Header = \<lparr>h_Priority = prio, h_PGN = rq_PGN r, h_Source = isoRequestSource b, h_Destination = rq_Dst r\<rparr>,
                      tx_Data = rq_Data r, tx_Bus = rq_Bus r\<rparr> b
      | OtherVia _ \<Rightarrow> b)"

definition dispatchRequests :: "Request list \<Rightarrow> Broker \<Rightarrow> Broker" where
  "dispatchRequests reqs b = fold dispatch_request reqs b"

definition requestDeviceOnline :: "gotime \<Rightarrow> Device \<Rightarrow> Broker \<Rightarrow> Broker option" where
  "requestDeviceOnline now d b =
     (case b_requests b of
        None \<Rightarrow> Some b
      | Some e \<Rightarrow> do {
          (e', reqs) \<leftarrow> OnDeviceOnline e now (deviceViewFrom d);
          Some (dispatchRequests reqs (b\<lparr>b_requests := Some e'\<rparr>)) })"

definition requestTick :: "gotime \<Rightarrow> Broker \<Rightarrow> Broker option" where
  "requestTick now b =
     (case b_requests b of
        None \<Rightarrow> Some b
      | Some e \<Rightarrow> do {
          (e', reqs) \<leftarrow> Engine_Tick e now;
          Some (dispatchRequests reqs (b\<lparr>b_requests := Some e'\<rparr>)) })"

definition request_offline :: "string \<Rightarrow> u8 \<Rightarrow> Broker \<Rightarrow> Broker" where
  "request_offline bus src b =
     (case b_requests b of None \<Rightarrow> b | Some e \<Rightarrow> b\<lparr>b_requests := Some (OnDeviceOffline e bus src)\<rparr>)"

section \<open>Fan-out\<close>

definition sub_send :: "sub_msg \<Rightarrow> subscriber \<Rightarrow> subscriber" where
  "sub_send msg s = (if length (sub_ch s) < 128 then s\<lparr>sub_ch := sub_ch s @ [msg]\<rparr> else s)"

definition Subscribe :: "Broker \<Rightarrow> nat \<Rightarrow> EventFilter option \<Rightarrow> Broker" where
  "Subscribe b ptr flt =
     (let f = (if EventFilter_IsEmpty flt then None else flt)
      in b\<lparr>b_subscribers := gm_put ptr \<lparr>sub_ch = [], sub_filter = f\<rparr> (b_subscribers b)\<rparr>)"

definition unsubscribe :: "Broker \<Rightarrow> nat \<Rightarrow> Broker" where
  "unsubscribe b ptr = b\<lparr>b_subscribers := gm_del ptr (b_subscribers b)\<rparr>"

definition fanOut :: "string \<Rightarrow> CANHeader \<Rightarrow> frameJSON \<Rightarrow> Broker \<Rightarrow> Broker" where
  "fanOut bus header msg b =
     b\<lparr>b_subscribers := map (\<lambda>(ptr, s).
         (ptr, if EventFilter_matches (sub_filter s) bus header (b_devices b) then sub_send (MsgFrame msg) s else s))
       (b_subscribers b)\<rparr>"

definition fanOutDevice :: "Device \<Rightarrow> Broker \<Rightarrow> Broker" where
  "fanOutDevice dev b = b\<lparr>b_subscribers := map (\<lambda>(ptr, s). (ptr, sub_send (MsgDevice dev) s)) (b_subscribers b)\<rparr>"

definition fanOutDeviceRemoved :: "string \<Rightarrow> u8 \<Rightarrow> Broker \<Rightarrow> Broker" where
  "fanOutDeviceRemoved bus src b =
     b\<lparr>b_subscribers := map (\<lambda>(ptr, s). (ptr, sub_send (MsgDeviceRemoved bus src) s)) (b_subscribers b)\<rparr>"

definition notifyConsumers :: "Broker \<Rightarrow> Broker" where
  "notifyConsumers b = b\<lparr>b_consumers := map (\<lambda>(ptr, c). (ptr, c\<lparr>c_notify := True\<rparr>)) (b_consumers b)\<rparr>"

section \<open>Frames\<close>

text \<open>What happens when a source address is no longer that of a known device.\<close>

definition drop_source :: "string \<Rightarrow> u8 \<Rightarrow> Broker \<Rightarrow> Broker" where
  "drop_source bus src b =
     (let b1 = b\<lparr>b_devicesRemoved := b_devicesRemoved b + 1, b_values := RemoveSource (b_values b) bus src\<rparr>
      in request_offline bus src (fanOutDeviceRemoved bus src b1))"

definition claim_virtual :: "gotime \<Rightarrow> RxFrame \<Rightarrow> Broker \<Rightarrow> Broker \<times> bool" where
  "claim_virtual now frame b =
     (case b_virtualDevices b of
        None \<Rightarrow> (b, False)
      | Some m \<Rightarrow>
          if length (rx_Data frame) \<ge> 8 then
            let (m', txs, ours) = HandleBusClaim m (b_devices b) now (h_Source (rx_Header frame)) (LE_Uint64 (take 8 (rx_Data frame)))
            in (fold queueTx txs (b\<lparr>b_virtualDevices := Some m'\<rparr>), ours)
          else (b, False))"

definition seed_product_info :: "string \<Rightarrow> u8 \<Rightarrow> Broker \<Rightarrow> Broker" where
  "seed_product_info bus src b =
     (case Option.bind (b_virtualDevices b) (\<lambda>m. ProductInfoPayload m src) of
        None \<Rightarrow> b
      | Some prodData \<Rightarrow> b\<lparr>b_devices := fst (HandleProductInfo (b_devices b) bus src prodData)\<rparr>)"

definition handle_claim :: "gotime \<Rightarrow> RxFrame \<Rightarrow> Broker \<Rightarrow> Broker option" where
  "handle_claim now frame b =
     (let src = h_Source (rx_Header frame); bus = rx_Bus frame;
          (b1, isOurClaim) = claim_virtual now frame b;
          (reg, dev, evictedSrc) = HandleAddressClaim (b_devices b1) bus src (rx_Data frame);
          b2 = b1\<lparr>b_devices := reg\<rparr>
      in case dev of
           None \<Rightarrow> Some b2
         | Some d \<Rightarrow> do {
             let b3 = b2\<lparr>b_devicesAdded := b_devicesAdded b2 + 1\<rparr>;
             let b4 = (case evictedSrc of None \<Rightarrow> b3 | Some old \<Rightarrow> drop_source bus old b3);
             b5 \<leftarrow> requestDeviceOnline now d (fanOutDevice d b4);
             Some (if isOurClaim then seed_product_info bus src b5
                   else if \<not> b_replicaMode b5 then sendISORequest b5 bus src 126996
                   else b5) })"

definition handle_iso_request :: "RxFrame \<Rightarrow> Broker \<Rightarrow> Broker" where
  "handle_iso_request frame b =
     (case b_virtualDevices b of
        None \<Rightarrow> b
      | Some m \<Rightarrow>
          if length (rx_Data frame) \<ge> 3 then
            let d = rx_Data frame;
                reqPGN = ucast (d ! 0) OR push_bit 8 (ucast (d ! 1)) OR push_bit 16 (ucast (d ! 2))
            in fold queueTx (HandleISORequest m (h_Destination (rx_Header frame)) reqPGN (h_Source (rx_Header frame))) b
          else b)"

definition handle_product :: "gotime \<Rightarrow> RxFrame \<Rightarrow> Broker \<Rightarrow> Broker option" where
  "handle_product now frame b =
     (let (reg, dev) = HandleProductInfo (b_devices b) (rx_Bus frame) (h_Source (rx_Header frame)) (rx_Data frame);
          b1 = b\<lparr>b_devices := reg\<rparr>
      in case dev of
           None \<Rightarrow> Some b1
         | Some d \<Rightarrow> requestDeviceOnline now d (fanOutDevice d b1))"

definition discover :: "gotime \<Rightarrow> RxFrame \<Rightarrow> bool \<Rightarrow> Broker \<Rightarrow> Broker option" where
  "discover now frame newSource b =
     (let pgn = h_PGN (rx_Header frame)
      in if pgn = 60928 then handle_claim now frame b
         else if pgn = 59904 then Some (handle_iso_request frame b)
         else if pgn = 126996 then handle_product now frame b
         else if newSource \<and> \<not> b_replicaMode b then Some (sendISORequest b (rx_Bus frame) (h_Source (rx_Header frame)) 60928)
         else Some b)"

definition engine_frame :: "gotime \<Rightarrow> RxFrame \<Rightarrow> Broker \<Rightarrow> Broker option" where
  "engine_frame now frame b =
     (case b_requests b of
        None \<Rightarrow> None
      | Some e \<Rightarrow> do {
          (e', reqs) \<leftarrow> OnFrame e now (rx_Bus frame) (h_Source (rx_Header frame)) (h_PGN (rx_Header frame)) (rx_Data frame);
          Some (dispatchRequests reqs (b\<lparr>b_requests := Some e'\<rparr>)) })"

definition guarded_requests :: "gotime \<Rightarrow> RxFrame \<Rightarrow> Broker \<Rightarrow> Broker option" where
  "guarded_requests now frame b =
     (case b_requestPGNs b of
        None \<Rightarrow> Some b
      | Some S \<Rightarrow> if h_PGN (rx_Header frame) \<in> S then engine_frame now frame b else Some b)"

definition ring_entry :: "(gotime \<Rightarrow> string) \<Rightarrow> RxFrame \<Rightarrow> u64 \<Rightarrow> ringEntry" where
  "ring_entry rfc frame seq =
     \<lparr>re_Seq = seq, re_Timestamp = rx_Timestamp frame, re_Header = rx_Header frame, re_Bus = rx_Bus frame,
      re_RawData = rx_Data frame,
      re_JSON = frame_json rfc seq (rx_Timestamp frame) (rx_Bus frame) (rx_Header frame) (rx_Data frame)\<rparr>"

definition append_frame :: "(gotime \<Rightarrow> string) \<Rightarrow> RxFrame \<Rightarrow> u64 \<Rightarrow> Broker \<Rightarrow> Broker" where
  "append_frame rfc frame seq b =
     b\<lparr>b_ring := (if b_replicaMode b then ring_append_replica (ring_entry rfc frame seq) (b_ring b)
                  else ring_append (ring_entry rfc frame seq) (b_ring b))\<rparr>"

definition send_journal :: "RxFrame \<Rightarrow> u64 \<Rightarrow> Broker \<Rightarrow> Broker" where
  "send_journal frame seq b =
     (case b_journal b of
        None \<Rightarrow> b
      | Some j \<Rightarrow>
          if length (jc_queue j) < jc_cap j
          then b\<lparr>b_journal := Some (j\<lparr>jc_queue := jc_queue j @ [frame\<lparr>rx_Seq := seq\<rparr>]\<rparr>)\<rparr>
          else b\<lparr>b_journalDrops := b_journalDrops b + 1\<rparr>)"

text \<open>The part of \<^verbatim>\<open>handleFrame\<close> after discovery and request rules.\<close>

definition store_frame :: "(gotime \<Rightarrow> string) \<Rightarrow> RxFrame \<Rightarrow> Broker \<Rightarrow> Broker" where
  "store_frame rfc frame b =
     (let seq = (if b_replicaMode b then rx_Seq frame else rg_head (b_ring b));
          hdr = rx_Header frame; bus = rx_Bus frame;
          b1 = append_frame rfc frame seq b;
          b2 = b1\<lparr>b_frameCount := b_frameCount b1 + 1, b_lastFrameNano := UnixNano (rx_Timestamp frame)\<rparr>;
          b3 = b2\<lparr>b_values := ValueStore_Record (b_values b2) bus (h_Source hdr) (h_PGN hdr) (rx_Timestamp frame) (rx_Data frame) seq\<rparr>;
          b4 = fanOut bus hdr (frame_json rfc seq (rx_Timestamp frame) bus hdr (rx_Data frame)) b3
      in send_journal frame seq (notifyConsumers b4))"

definition handleFrame :: "(gotime \<Rightarrow> string) \<Rightarrow> gotime \<Rightarrow> RxFrame \<Rightarrow> Broker \<Rightarrow> Broker option" where
  "handleFrame rfc now frame b =
     (let (reg, newSource) = RecordPacket (b_devices b) (rx_Bus frame) (h_Source (rx_Header frame))
                               (rx_Timestamp frame) (length (rx_Data frame))
      in do {
        b1 \<leftarrow> discover now frame newSource (b\<lparr>b_devices := reg\<rparr>);
        b2 \<leftarrow> guarded_requests now frame b1;
        Some (store_frame rfc frame b2) })"

section \<open>Sessions\<close>

definition CreateSession :: "Broker \<Rightarrow> gotime \<Rightarrow> string \<Rightarrow> duration \<Rightarrow> EventFilter option \<Rightarrow> Broker \<times> ClientSession \<times> u64" where
  "CreateSession b now sid bufferTimeout flt =
     (let timeout = (if bufferTimeout > b_maxBufferDuration b then b_maxBufferDuration b else bufferTimeout);
          f = (if EventFilter_IsEmpty flt then None else flt);
          seq = rg_head (b_ring b) - 1;
          s = (case gm_get (b_sessions b) sid of
                 Some s \<Rightarrow> s\<lparr>cs_BufferTimeout := timeout, cs_Filter := f, cs_LastActivity := now,
                            cs_Cursor := (if timeout = 0 then 0 else cs_Cursor s)\<rparr>
               | None \<Rightarrow> \<lparr>cs_ID = sid, cs_Cursor = 0, cs_BufferTimeout = timeout, cs_LastActivity = now, cs_Filter = f\<rparr>)
      in (b\<lparr>b_sessions := gm_put sid s (b_sessions b)\<rparr>, s, seq))"

definition GetSession :: "Broker \<Rightarrow> string \<Rightarrow> ClientSession option" where
  "GetSession b sid = gm_get (b_sessions b) sid"

definition TouchSession :: "Broker \<Rightarrow> gotime \<Rightarrow> string \<Rightarrow> Broker" where
  "TouchSession b now sid =
     (case gm_get (b_sessions b) sid of
        None \<Rightarrow> b
      | Some s \<Rightarrow> b\<lparr>b_sessions := gm_put sid (s\<lparr>cs_LastActivity := now\<rparr>) (b_sessions b)\<rparr>)"

definition AckSession :: "Broker \<Rightarrow> gotime \<Rightarrow> string \<Rightarrow> u64 \<Rightarrow> Broker \<times> broker_error option" where
  "AckSession b now sid seq =
     (case gm_get (b_sessions b) sid of
        None \<Rightarrow> (b, Some (SessionNotFound sid))
      | Some s \<Rightarrow> (b\<lparr>b_sessions := gm_put sid (s\<lparr>cs_Cursor := seq, cs_LastActivity := now\<rparr>) (b_sessions b)\<rparr>, None))"

definition expireSessions :: "gotime \<Rightarrow> Broker \<Rightarrow> Broker" where
  "expireSessions now b =
     b\<lparr>b_sessions := gm_del_if (\<lambda>_ s. time_Sub now (cs_LastActivity s) > cs_BufferTimeout s) (b_sessions b)\<rparr>"

section \<open>Periodic work\<close>

definition expireDevices :: "gotime \<Rightarrow> Broker \<Rightarrow> Broker" where
  "expireDevices now b =
     (if b_deviceIdleTimeout b = 0 then b
      else
        let (reg, evicted) = ExpireIdle (b_devices b) (now - b_deviceIdleTimeout b)
        in fold (\<lambda>key b. drop_source (dvk_Bus key) (dvk_Source key)
                    (b\<lparr>b_alerts := FireDeviceRemoved now (dvk_Source key) None (b_alerts b)\<rparr>))
             evicted (b\<lparr>b_devices := reg\<rparr>))"

definition retryProductInfo :: "Broker \<Rightarrow> Broker" where
  "retryProductInfo b =
     fold (\<lambda>bs b. sendISORequest b (dvk_Bus bs) (dvk_Source bs) 126996) (SourcesMissingProductInfo (b_devices b)) b"

definition heartbeat_virtual :: "gotime \<Rightarrow> Broker \<Rightarrow> Broker" where
  "heartbeat_virtual now b =
     (case b_virtualDevices b of
        None \<Rightarrow> b
      | Some m \<Rightarrow> let (m', txs) = Heartbeat m now in fold queueTx txs (b\<lparr>b_virtualDevices := Some m'\<rparr>))"

definition run_tick :: "gotime \<Rightarrow> Broker \<Rightarrow> Broker option" where
  "run_tick now b = do {
     b1 \<leftarrow> requestTick now (expireDevices now (expireSessions now b));
     Some (heartbeat_virtual now (if b_replicaMode b1 then b1 else retryProductInfo b1)) }"

definition run_start :: "Broker \<Rightarrow> Broker" where
  "run_start b = (if b_replicaMode b then b else sendISORequest b [] 0xFF 60928)"

definition start_virtual :: "gotime \<Rightarrow> Broker \<Rightarrow> Broker" where
  "start_virtual now b =
     (case b_virtualDevices b of
        None \<Rightarrow> b
      | Some m \<Rightarrow> let (m', txs) = StartAfterDiscovery m (b_devices b) now in fold queueTx txs (b\<lparr>b_virtualDevices := Some m'\<rparr>))"

section \<open>Statistics\<close>

record BrokerStats =
  st_FramesTotal :: u64
  st_LastFrameTime :: gotime
  st_RingEntries :: u64
  st_RingCapacity :: nat
  st_HeadSeq :: u64
  st_ActiveSessions :: nat
  st_ActiveSubscribers :: nat
  st_ActiveConsumers :: nat
  st_DeviceCount :: nat
  st_JournalDrops :: u64
  st_DevicesAdded :: u64
  st_DevicesRemoved :: u64
  st_ConsumerMaxLag :: u64

definition LastFrameTime :: "Broker \<Rightarrow> gotime" where
  "LastFrameTime b = (if b_lastFrameNano b \<noteq> 0 then b_lastFrameNano b + unixEpoch else zeroTime)"

definition Stats :: "Broker \<Rightarrow> BrokerStats" where
  "Stats b =
     (let head = rg_head (b_ring b); tail = rg_tail (b_ring b);
          maxLag = fold (\<lambda>(_, c) maxLag.
              if head > c_cursor c then (if head - c_cursor c > maxLag then head - c_cursor c else maxLag) else maxLag)
            (b_consumers b) 0
      in \<lparr>st_FramesTotal = b_frameCount b, st_LastFrameTime = LastFrameTime b, st_RingEntries = head - tail,
          st_RingCapacity = rg_ringMask (b_ring b) + 1, st_HeadSeq = head, st_ActiveSessions = length (b_sessions b),
          st_ActiveSubscribers = length (b_subscribers b), st_ActiveConsumers = length (b_consumers b),
          st_DeviceCount = length (DeviceRegistry_Snapshot (b_devices b)), st_JournalDrops = b_journalDrops b,
          st_DevicesAdded = b_devicesAdded b, st_DevicesRemoved = b_devicesRemoved b, st_ConsumerMaxLag = maxLag\<rparr>)"

definition broker_NewConsumer :: "Broker \<Rightarrow> nat \<Rightarrow> ConsumerConfig \<Rightarrow> Broker" where
  "broker_NewConsumer b ptr cfg = b\<lparr>b_consumers := gm_put ptr (NewConsumer (b_devices b) cfg) (b_consumers b)\<rparr>"

definition removeConsumer :: "Broker \<Rightarrow> nat \<Rightarrow> Broker" where
  "removeConsumer b ptr = b\<lparr>b_consumers := gm_del ptr (b_consumers b)\<rparr>"

definition SetAlerts :: "Broker \<Rightarrow> AlertManager option \<Rightarrow> Broker" where
  "SetAlerts b am = b\<lparr>b_alerts := am\<rparr>"

definition SetJournal :: "Broker \<Rightarrow> nat \<Rightarrow> Broker" where
  "SetJournal b cap = b\<lparr>b_journal := Some \<lparr>jc_cap = cap, jc_queue = []\<rparr>\<rparr>"

end
