(* ===== verification/BrokerInv.thy ===== *)
theory BrokerInv
  imports Broker
begin

text \<open>
  What the broker guarantees over every sequence of operations: bounded queues, a well-formed
  registry, values only of known devices, distinct virtual addresses, an exact prefilter in front of
  the request rules, contiguous sequence numbers, a silent replica, and the life of client sessions.
\<close>

section \<open>Histories of a broker\<close>

datatype broker_op =
  BFrame gotime RxFrame
| BTick gotime
| BStart
| BStartVirtual gotime
| BQueueTx TxRequest
| BSendISO string u8 u32
| BTakeTx
| BAddRule Rule
| BSubscribe nat "EventFilter option"
| BUnsubscribe nat
| BTakeMsg nat
| BCreateSession gotime string duration "EventFilter option"
| BTouch gotime string
| BAck gotime string u64
| BNewConsumer nat ConsumerConfig
| BRemoveConsumer nat
| BSetAlerts "AlertManager option"
| BSetJournal nat
| BTakeJournal

definition take_msg :: "Broker \<Rightarrow> nat \<Rightarrow> Broker" where
  "take_msg b ptr =
     (case gm_get (b_subscribers b) ptr of
        None \<Rightarrow> b
      | Some s \<Rightarrow> b\<lparr>b_subscribers := gm_put ptr (s\<lparr>sub_ch := tl (sub_ch s)\<rparr>) (b_subscribers b)\<rparr>)"

fun broker_step :: "(gotime \<Rightarrow> string) \<Rightarrow> broker_op \<Rightarrow> Broker \<Rightarrow> Broker option" where
  "broker_step rfc (BFrame now frame) b = handleFrame rfc now frame b"
| "broker_step rfc (BTick now) b = run_tick now b"
| "broker_step rfc BStart b = Some (run_start b)"
| "broker_step rfc (BStartVirtual now) b = Some (start_virtual now b)"
| "broker_step rfc (BQueueTx req) b = Some (fst (QueueTx b req))"
| "broker_step rfc (BSendISO bus dst pgn) b = Some (fst (SendISORequest b bus dst pgn))"
| "broker_step rfc BTakeTx b = Some (b\<lparr>b_txFrames := tl (b_txFrames b)\<rparr>)"
| "broker_step rfc (BAddRule r) b = Some (fst (AddRequestRule b r))"
| "broker_step rfc (BSubscribe ptr f) b = Some (Subscribe b ptr f)"
| "broker_step rfc (BUnsubscribe ptr) b = Some (unsubscribe b ptr)"
| "broker_step rfc (BTakeMsg ptr) b = Some (take_msg b ptr)"
| "broker_step rfc (BCreateSession now sid d f) b = Some (fst (CreateSession b now sid d f))"
| "broker_step rfc (BTouch now sid) b = Some (TouchSession b now sid)"
| "broker_step rfc (BAck now sid seq) b = Some (fst (AckSession b now sid seq))"
| "broker_step rfc (BNewConsumer ptr cfg) b = Some (broker_NewConsumer b ptr cfg)"
| "broker_step rfc (BRemoveConsumer ptr) b = Some (removeConsumer b ptr)"
| "broker_step rfc (BSetAlerts am) b = Some (SetAlerts b am)"
| "broker_step rfc (BSetJournal cap) b = Some (SetJournal b cap)"
| "broker_step rfc BTakeJournal b = Some (b\<lparr>b_journal := map_option (\<lambda>j. j\<lparr>jc_queue := tl (jc_queue j)\<rparr>) (b_journal b)\<rparr>)"

definition broker_run :: "(gotime \<Rightarrow> string) \<Rightarrow> broker_op list \<Rightarrow> Broker \<Rightarrow> Broker option" where
  "broker_run rfc ops b = fold_opt (broker_step rfc) ops b"

section \<open>Normal forms: which fields an operation touches\<close>

definition tx_push :: "TxRequest \<Rightarrow> TxRequest list \<Rightarrow> TxRequest list" where
  "tx_push req ts = (if length ts < 64 then ts @ [req] else ts)"

lemma tx_push_bound [simp]: "length ts \<le> 64 \<Longrightarrow> length (tx_push req ts) \<le> 64"
  by (simp add: tx_push_def)

lemma tx_pushes_bound [simp]: "length ts \<le> 64 \<Longrightarrow> length (fold tx_push reqs ts) \<le> 64"
  by (induction reqs arbitrary: ts) simp_all

lemma queueTx_nf: "queueTx req b = b\<lparr>b_txFrames := tx_push req (b_txFrames b)\<rparr>"
  by (simp add: queueTx_def tx_push_def)

lemma queueTxs_nf: "fold queueTx reqs b = b\<lparr>b_txFrames := fold tx_push reqs (b_txFrames b)\<rparr>"
  by (induction reqs arbitrary: b) (simp_all add: queueTx_nf)

lemma sendISORequest_nf: "sendISORequest b bus dst pgn = b\<lparr>b_txFrames := tx_push (iso_request b bus dst pgn) (b_txFrames b)\<rparr>"
  by (simp add: sendISORequest_def queueTx_nf)

lemma QueueTx_nf: "fst (QueueTx b req) = b\<lparr>b_txFrames := tx_push req (b_txFrames b)\<rparr>"
  by (simp add: QueueTx_def tx_push_def)

lemma SendISORequest_nf: "fst (SendISORequest b bus dst pgn) = b\<lparr>b_txFrames := tx_push (iso_request b bus dst pgn) (b_txFrames b)\<rparr>"
  by (simp add: SendISORequest_def QueueTx_def tx_push_def)

definition request_frames :: "u8 \<Rightarrow> Request \<Rightarrow> TxRequest list" where
  "request_frames src r =
     (case rq_Via r of
        ViaISORequest \<Rightarrow>
          [\<lparr>tx_Header = \<lparr>h_Priority = 6, h_PGN = 59904, h_Source = src, h_Destination = rq_Dst r\<rparr>,
            tx_Data = [ucast (rq_PGN r), ucast (drop_bit 8 (rq_PGN r)), ucast (drop_bit 16 (rq_PGN r))], tx_Bus = rq_Bus r\<rparr>]
      | ViaFrame \<Rightarrow>
          [\<lparr>tx_Header = \<lparr>h_Priority = (if rq_Priority r = 0 then 6 else rq_Priority r), h_PGN = rq_PGN r,
                          h_Source = src, h_Destination = rq_Dst r\<rparr>,
            tx_Data = rq_Data r, tx_Bus = rq_Bus r\<rparr>]
      | OtherVia _ \<Rightarrow> [])"

lemma isoRequestSource_cong [simp]:
  "isoRequestSource (b\<lparr>b_txFrames := t\<rparr>) = isoRequestSource b"
  "isoRequestSource (b\<lparr>b_requests := e\<rparr>) = isoRequestSource b"
  by (simp_all add: isoRequestSource_def)

lemma dispatch_nf: "dispatch_request r b = b\<lparr>b_txFrames := fold tx_push (request_frames (isoRequestSource b) r) (b_txFrames b)\<rparr>"
  by (simp add: dispatch_request_def request_frames_def Let_def sendISORequest_nf iso_request_def queueTx_nf split: Via.split)

lemma dispatchRequests_nf:
  "dispatchRequests reqs b =
     b\<lparr>b_txFrames := fold tx_push (concat (map (request_frames (isoRequestSource b)) reqs)) (b_txFrames b)\<rparr>"
  unfolding dispatchRequests_def
  by (induction reqs arbitrary: b) (simp_all add: dispatch_nf)

lemmas tx_nf = queueTx_nf queueTxs_nf sendISORequest_nf QueueTx_nf SendISORequest_nf dispatchRequests_nf

lemma fanOut_nf:
  "fanOut bus hdr msg b = b\<lparr>b_subscribers := b_subscribers (fanOut bus hdr msg b)\<rparr>"
  "fanOutDevice d b = b\<lparr>b_subscribers := b_subscribers (fanOutDevice d b)\<rparr>"
  "fanOutDeviceRemoved bus src b = b\<lparr>b_subscribers := b_subscribers (fanOutDeviceRemoved bus src b)\<rparr>"
  by (simp_all add: fanOut_def fanOutDevice_def fanOutDeviceRemoved_def)

section \<open>The invariant of the broker\<close>

definition subs_ok :: "(nat, subscriber) gomap \<Rightarrow> bool" where
  "subs_ok subs \<longleftrightarrow> (\<forall>(ptr, s) \<in> set subs. length (sub_ch s) \<le> 128)"

definition guard_ok :: "Engine option \<Rightarrow> u32 set option \<Rightarrow> bool" where
  "guard_ok requests pgns \<longleftrightarrow>
     (case requests of
        None \<Rightarrow> pgns = None
      | Some e \<Rightarrow> rules_ok e \<and> (case pgns of None \<Rightarrow> e_rules e = [] | Some S \<Rightarrow> S = InterestingPGNs e))"

definition values_known :: "ValueStore \<Rightarrow> DeviceRegistry \<Rightarrow> bool" where
  "values_known vs reg \<longleftrightarrow>
     (\<forall>k. gm_get vs k \<noteq> None \<longrightarrow> vk_Source k < 254 \<longrightarrow> gm_get reg \<lparr>dvk_Bus = vk_Bus k, dvk_Source = vk_Source k\<rparr> \<noteq> None)"

definition virtual_ok :: "VirtualDeviceManager option \<Rightarrow> bool" where
  "virtual_ok vm \<longleftrightarrow> (case vm of None \<Rightarrow> True | Some m \<Rightarrow> addresses_ok (vm_devices m))"

definition broker_ok :: "Broker \<Rightarrow> bool" where
  "broker_ok b \<longleftrightarrow> length (b_txFrames b) \<le> 64 \<and> subs_ok (b_subscribers b) \<and> registry_ok (b_devices b) \<and>
     values_known (b_values b) (b_devices b) \<and> virtual_ok (b_virtualDevices b) \<and> guard_ok (b_requests b) (b_requestPGNs b)"

lemma broker_ok_txs:
  "broker_ok b \<Longrightarrow> broker_ok (b\<lparr>b_txFrames := fold tx_push reqs (b_txFrames b)\<rparr>)"
  "broker_ok b \<Longrightarrow> broker_ok (b\<lparr>b_txFrames := tx_push req (b_txFrames b)\<rparr>)"
  by (auto simp: broker_ok_def)

lemma sub_send_bound: "length (sub_ch s) \<le> 128 \<Longrightarrow> length (sub_ch (sub_send m s)) \<le> 128"
  by (simp add: sub_send_def)

lemma broker_ok_fanOut:
  "broker_ok b \<Longrightarrow> broker_ok (fanOut bus hdr msg b)"
  "broker_ok b \<Longrightarrow> broker_ok (fanOutDevice d b)"
  "broker_ok b \<Longrightarrow> broker_ok (fanOutDeviceRemoved bus src b)"
  by (auto simp: broker_ok_def subs_ok_def fanOut_def fanOutDevice_def fanOutDeviceRemoved_def sub_send_bound)

lemma guard_ok_engine:
  assumes "guard_ok (Some e) pgns" "e_rules e' = e_rules e" "e_byInvalidate e' = e_byInvalidate e"
  shows "guard_ok (Some e') pgns"
  using assms by (auto simp: guard_ok_def rules_ok_def InterestingPGNs_def split: option.splits)

lemma broker_ok_engine:
  assumes "broker_ok b" "b_requests b = Some e" "e_rules e' = e_rules e" "e_byInvalidate e' = e_byInvalidate e"
  shows "broker_ok (dispatchRequests reqs (b\<lparr>b_requests := Some e'\<rparr>))"
  using assms guard_ok_engine [of e "b_requestPGNs b" e'] by (simp add: broker_ok_def dispatchRequests_nf)

lemma engine_rules:
  "OnDeviceOnline e now d = Some (e', reqs) \<Longrightarrow> e_rules e' = e_rules e \<and> e_byInvalidate e' = e_byInvalidate e"
  "Engine_Tick e now = Some (e', reqs) \<Longrightarrow> e_rules e' = e_rules e \<and> e_byInvalidate e' = e_byInvalidate e"
  "OnFrame e now bus src pgn data = Some (e', reqs) \<Longrightarrow> e_rules e' = e_rules e \<and> e_byInvalidate e' = e_byInvalidate e"
  using rr_step_rules [of "(now, Online d)" "(e, [])"] rr_step_rules [of "(now, ClockTick)" "(e, [])"]
    rr_step_rules [of "(now, FrameIn bus src pgn data)" "(e, [])"] by auto

lemma broker_ok_online: "broker_ok b \<Longrightarrow> requestDeviceOnline now d b = Some b' \<Longrightarrow> broker_ok b'"
  by (auto simp: requestDeviceOnline_def Option.bind_eq_Some_conv split: option.splits dest!: engine_rules(1) intro!: broker_ok_engine)

lemma broker_ok_requestTick: "broker_ok b \<Longrightarrow> requestTick now b = Some b' \<Longrightarrow> broker_ok b'"
  by (auto simp: requestTick_def Option.bind_eq_Some_conv split: option.splits dest!: engine_rules(2) intro!: broker_ok_engine)

lemma broker_ok_guarded: "broker_ok b \<Longrightarrow> guarded_requests now frame b = Some b' \<Longrightarrow> broker_ok b'"
  by (auto simp: guarded_requests_def engine_frame_def Option.bind_eq_Some_conv split: option.splits if_splits
      dest!: engine_rules(3) intro!: broker_ok_engine)

section \<open>Discovery keeps the invariant\<close>

lemma RecordPacket_get:
  "gm_get r k \<noteq> None \<Longrightarrow> gm_get (fst (RecordPacket r bus src ts n)) k \<noteq> None"
  "src < 254 \<Longrightarrow> gm_get (fst (RecordPacket r bus src ts n)) \<lparr>dvk_Bus = bus, dvk_Source = src\<rparr> \<noteq> None"
  by (auto simp: RecordPacket_def Let_def split: option.split)

text \<open>A claim removes at most the address it reports as evicted.\<close>

lemma HandleAddressClaim_get:
  assumes "HandleAddressClaim r bus src data = (r', dev, evicted)" "gm_get r k \<noteq> None"
  shows "gm_get r' k \<noteq> None \<or> (dvk_Bus k = bus \<and> evicted = Some (dvk_Source k) \<and> dev \<noteq> None)"
  using assms by (auto simp: HandleAddressClaim_def Let_def find_Some_iff split: if_splits option.splits prod.splits)

lemma HandleProductInfo_dom: "(\<exists>d. gm_get (fst (HandleProductInfo r bus src data)) k = Some d) \<longleftrightarrow> (\<exists>d. gm_get r k = Some d)"
  by (auto simp: HandleProductInfo_def Let_def split: if_splits option.splits)

lemma HandleProductInfo_get:
  "gm_get r k \<noteq> None \<Longrightarrow> gm_get (fst (HandleProductInfo r bus src data)) k \<noteq> None"
  by (auto simp: HandleProductInfo_def Let_def split: if_splits option.splits)

lemma values_known_mono:
  "values_known vs r \<Longrightarrow> (\<And>k. gm_get r k \<noteq> None \<Longrightarrow> gm_get r' k \<noteq> None) \<Longrightarrow> values_known vs r'"
  by (simp add: values_known_def)

lemma values_known_remove:
  assumes "values_known vs r" "\<And>k. gm_get r k \<noteq> None \<Longrightarrow> gm_get r' k \<noteq> None \<or> k = \<lparr>dvk_Bus = bus, dvk_Source = src\<rparr>"
  shows "values_known (RemoveSource vs bus src) r'"
  using assms by (auto simp: values_known_def RemoveSource_def gm_get_del_if_key)

lemma drop_source_nf:
  "drop_source bus src b = b\<lparr>b_devicesRemoved := b_devicesRemoved b + 1, b_values := RemoveSource (b_values b) bus src,
     b_subscribers := map (\<lambda>(ptr, s). (ptr, sub_send (MsgDeviceRemoved bus src) s)) (b_subscribers b),
     b_requests := map_option (\<lambda>e. OnDeviceOffline e bus src) (b_requests b)\<rparr>"
  by (cases b) (simp add: drop_source_def request_offline_def fanOutDeviceRemoved_def Let_def split: option.split)

lemma guard_ok_offline: "guard_ok e pgns \<Longrightarrow> guard_ok (map_option (\<lambda>e. OnDeviceOffline e bus src) e) pgns"
  by (cases e) (auto elim: guard_ok_engine simp: OnDeviceOffline_def Let_def)

lemma subs_ok_send: "subs_ok subs \<Longrightarrow> subs_ok (map (\<lambda>(ptr, s). (ptr, sub_send m s)) subs)"
  by (auto simp: subs_ok_def sub_send_bound)

lemma broker_ok_claim_virtual: "broker_ok b \<Longrightarrow> broker_ok (fst (claim_virtual now frame b))"
  using HandleBusClaim_ok [of _ "b_devices b" now "h_Source (rx_Header frame)" "LE_Uint64 (take 8 (rx_Data frame))"]
  by (auto simp: claim_virtual_def broker_ok_def virtual_ok_def queueTxs_nf split: option.split prod.split) (metis fst_conv)

lemma claim_virtual_same:
  "b_devices (fst (claim_virtual now frame b)) = b_devices b"
  "b_values (fst (claim_virtual now frame b)) = b_values b"
  by (auto simp: claim_virtual_def queueTxs_nf split: option.split prod.split)

lemma broker_ok_seed: "broker_ok b \<Longrightarrow> broker_ok (seed_product_info bus src b)"
  by (auto simp: seed_product_info_def broker_ok_def registry_ok_HandleProductInfo values_known_mono HandleProductInfo_get split: option.split)

lemma broker_ok_registry_claim:
  assumes ok: "broker_ok b" and c: "HandleAddressClaim (b_devices b) bus src data = (reg, dev, evicted)"
  shows "broker_ok (case evicted of None \<Rightarrow> b\<lparr>b_devices := reg\<rparr> | Some old \<Rightarrow> drop_source bus old (b\<lparr>b_devices := reg\<rparr>))"
proof -
  have reg: "registry_ok reg"
    using registry_ok_HandleAddressClaim [of "b_devices b" bus src data] ok c by (simp add: broker_ok_def)
  have "gm_get reg k \<noteq> None \<or> (\<exists>old. evicted = Some old \<and> k = \<lparr>dvk_Bus = bus, dvk_Source = old\<rparr>)"
    if "gm_get (b_devices b) k \<noteq> None" for k
    using HandleAddressClaim_get [OF c that] by (cases k) auto
  then show ?thesis
    using ok reg
    by (auto simp: broker_ok_def drop_source_nf subs_ok_send guard_ok_offline split: option.split
        intro!: values_known_mono [of _ "b_devices b" reg] values_known_remove [of "b_values b" "b_devices b" reg])
qed

lemma broker_ok_count [simp]:
  "broker_ok (b\<lparr>b_devicesAdded := n\<rparr>) = broker_ok b" "broker_ok (b\<lparr>b_alerts := am\<rparr>) = broker_ok b"
  "broker_ok (b\<lparr>b_sessions := ss\<rparr>) = broker_ok b" "broker_ok (b\<lparr>b_consumers := cs\<rparr>) = broker_ok b"
  "broker_ok (b\<lparr>b_journal := j\<rparr>) = broker_ok b" "broker_ok (b\<lparr>b_journalDrops := n\<rparr>) = broker_ok b"
  "broker_ok (b\<lparr>b_ring := r\<rparr>) = broker_ok b" "broker_ok (b\<lparr>b_frameCount := n\<rparr>) = broker_ok b"
  "broker_ok (b\<lparr>b_lastFrameNano := i\<rparr>) = broker_ok b"
  by (simp_all add: broker_ok_def)

lemma drop_source_added: "drop_source bus old (b\<lparr>b_devicesAdded := n\<rparr>) = (drop_source bus old b)\<lparr>b_devicesAdded := n\<rparr>"
  by (simp add: drop_source_nf)

lemma broker_ok_handle_claim:
  assumes ok: "broker_ok b" and h: "handle_claim now frame b = Some b'"
  shows "broker_ok b'"
proof -
  obtain b1 ours where cv: "claim_virtual now frame b = (b1, ours)"
    by fastforce
  obtain reg dev evicted where c: "HandleAddressClaim (b_devices b1) (rx_Bus frame) (h_Source (rx_Header frame)) (rx_Data frame) = (reg, dev, evicted)"
    using prod_cases3 by blast
  have b1: "broker_ok b1"
    using broker_ok_claim_virtual [OF ok, of now frame] cv by simp
  note cl = broker_ok_registry_claim [OF b1 c]
  show ?thesis
  proof (cases dev)
    case None
    then have "evicted = None"
      using c by (auto simp: HandleAddressClaim_def Let_def split: if_splits)
    then show ?thesis
      using h cv c None cl by (simp add: handle_claim_def)
  next
    case (Some d)
    let ?b4 = "case evicted of None \<Rightarrow> b1\<lparr>b_devices := reg, b_devicesAdded := b_devicesAdded b1 + 1\<rparr>
       | Some old \<Rightarrow> drop_source (rx_Bus frame) old (b1\<lparr>b_devices := reg, b_devicesAdded := b_devicesAdded b1 + 1\<rparr>)"
    obtain b5 where on: "requestDeviceOnline now d (fanOutDevice d ?b4) = Some b5"
      and b': "b' = (if ours then seed_product_info (rx_Bus frame) (h_Source (rx_Header frame)) b5
                   else if \<not> b_replicaMode b5 then sendISORequest b5 (rx_Bus frame) (h_Source (rx_Header frame)) 126996 else b5)"
      using h cv c Some by (auto simp: handle_claim_def Let_def Option.bind_eq_Some_conv)
    have "broker_ok ?b4"
      using cl by (cases evicted) (simp_all add: drop_source_added)
    then have "broker_ok b5"
      using broker_ok_online [OF broker_ok_fanOut(2) on] by blast
    then show ?thesis
      by (simp add: b' broker_ok_seed sendISORequest_nf broker_ok_txs)
  qed
qed

lemma broker_ok_discover:
  assumes ok: "broker_ok b" and d: "discover now frame newSource b = Some b'"
  shows "broker_ok b'"
proof -
  have "broker_ok (handle_iso_request frame b)"
    using ok by (auto simp: handle_iso_request_def Let_def queueTxs_nf broker_ok_txs split: option.split)
  moreover have "broker_ok b'" if "handle_product now frame b = Some b'" for b'
  proof -
    have "broker_ok (b\<lparr>b_devices := fst (HandleProductInfo (b_devices b) (rx_Bus frame) (h_Source (rx_Header frame)) (rx_Data frame))\<rparr>)"
      using ok by (auto simp: broker_ok_def registry_ok_HandleProductInfo values_known_mono HandleProductInfo_get)
    then show ?thesis
      using that by (auto simp: handle_product_def Let_def split: prod.splits option.splits dest: broker_ok_online [OF broker_ok_fanOut(2)])
  qed
  ultimately show ?thesis
    using d ok broker_ok_handle_claim [OF ok]
    by (auto simp: discover_def Let_def sendISORequest_nf broker_ok_txs split: if_splits)
qed

section \<open>What discovery leaves alone\<close>

definition stable :: "Broker \<Rightarrow> Broker \<Rightarrow> bool" where
  "stable b b' \<longleftrightarrow> b_ring b' = b_ring b \<and> b_replicaMode b' = b_replicaMode b \<and> b_sessions b' = b_sessions b \<and>
     b_consumers b' = b_consumers b \<and> b_journal b' = b_journal b \<and> b_journalDrops b' = b_journalDrops b \<and> b_frameCount b' = b_frameCount b \<and>
     b_maxBufferDuration b' = b_maxBufferDuration b \<and> b_deviceIdleTimeout b' = b_deviceIdleTimeout b \<and>
     b_requestPGNs b' = b_requestPGNs b \<and>
     (b_virtualDevices b = None \<longrightarrow> b_virtualDevices b' = None) \<and> (b_requests b = None \<longrightarrow> b_requests b' = None)"

lemma stable_refl [simp]: "stable b b"
  by (simp add: stable_def)

lemma stable_trans [trans]: "stable a b \<Longrightarrow> stable b c \<Longrightarrow> stable a c"
  by (simp add: stable_def)

lemma stable_updates [simp]:
  "stable b (b\<lparr>b_txFrames := t\<rparr>)" "stable b (b\<lparr>b_devices := r\<rparr>)" "stable b (b\<lparr>b_subscribers := s\<rparr>)" "stable b (b\<lparr>b_devicesAdded := n\<rparr>)"
  "stable b (sendISORequest b bus dst pgn)" "stable b (fanOutDevice d b)" "stable b (drop_source bus src b)"
  by (simp_all add: stable_def sendISORequest_nf fanOutDevice_def drop_source_nf)

lemma online_frame:
  assumes "requestDeviceOnline now d b = Some b'"
  shows "stable b b' \<and> b_devices b' = b_devices b"
  using assms by (auto simp: requestDeviceOnline_def stable_def dispatchRequests_nf Option.bind_eq_Some_conv split: option.splits)

lemma guarded_frame:
  assumes "guarded_requests now frame b = Some b'"
  shows "stable b b' \<and> b_devices b' = b_devices b \<and> b_values b' = b_values b"
  using assms by (auto simp: guarded_requests_def engine_frame_def stable_def dispatchRequests_nf Option.bind_eq_Some_conv split: option.splits if_splits)

lemma claim_virtual_stable: "stable b (fst (claim_virtual now frame b))"
  by (auto simp: claim_virtual_def stable_def queueTxs_nf split: option.split prod.split)

lemma claim_virtual_None: "b_virtualDevices b = None \<Longrightarrow> claim_virtual now frame b = (b, False)"
  by (simp add: claim_virtual_def)

lemma seed_stable: "stable b (seed_product_info bus src b)"
  by (auto simp: seed_product_info_def split: option.split)

text \<open>The registry after a claim: what \<^verbatim>\<open>HandleAddressClaim\<close> makes of it, with the product information of a virtual device filled in.\<close>

lemma handle_claim_frame:
  assumes h: "handle_claim now frame b = Some b'"
  shows "stable b b' \<and> (\<exists>pd. b_devices b' =
    (let r = fst (HandleAddressClaim (b_devices b) (rx_Bus frame) (h_Source (rx_Header frame)) (rx_Data frame))
     in case pd of None \<Rightarrow> r | Some p \<Rightarrow> fst (HandleProductInfo r (rx_Bus frame) (h_Source (rx_Header frame)) p)) \<and>
    (b_virtualDevices b = None \<longrightarrow> pd = None))"
proof -
  obtain b1 ours where cv: "claim_virtual now frame b = (b1, ours)"
    by fastforce
  obtain reg dev evicted where c: "HandleAddressClaim (b_devices b1) (rx_Bus frame) (h_Source (rx_Header frame)) (rx_Data frame) = (reg, dev, evicted)"
    using prod_cases3 by blast
  have d1: "b_devices b1 = b_devices b" and s1: "stable b b1"
    using claim_virtual_same(1) [of now frame b] claim_virtual_stable [of b now frame] cv by simp_all
  show ?thesis
  proof (cases dev)
    case None
    then have "b' = b1\<lparr>b_devices := reg\<rparr>"
      using h cv c by (simp add: handle_claim_def)
    then show ?thesis
      using c d1 stable_trans [OF s1 stable_updates(2)] by (auto intro!: exI [of _ None])
  next
    case (Some d)
    let ?b3 = "b1\<lparr>b_devices := reg, b_devicesAdded := b_devicesAdded b1 + 1\<rparr>"
    let ?b4 = "case evicted of None \<Rightarrow> ?b3 | Some old \<Rightarrow> drop_source (rx_Bus frame) old ?b3"
    obtain b5 where on: "requestDeviceOnline now d (fanOutDevice d ?b4) = Some b5"
      and b': "b' = (if ours then seed_product_info (rx_Bus frame) (h_Source (rx_Header frame)) b5
                   else if \<not> b_replicaMode b5 then sendISORequest b5 (rx_Bus frame) (h_Source (rx_Header frame)) 126996 else b5)"
      using h cv c Some by (auto simp: handle_claim_def Let_def Option.bind_eq_Some_conv)
    have "stable b ?b3"
      using s1 by (simp add: stable_def)
    also have "stable ?b3 ?b4"
      by (cases evicted) simp_all
    also have "stable ?b4 (fanOutDevice d ?b4)"
      by simp
    also have "stable (fanOutDevice d ?b4) b5"
      using online_frame [OF on] by simp
    also have "stable b5 b'"
      unfolding b' by (simp add: seed_stable)
    finally have st: "stable b b'" .
    have "b_devices b5 = reg"
      using online_frame [OF on] by (cases evicted) (simp_all add: fanOutDevice_def drop_source_nf)
    moreover have "ours = False" if "b_virtualDevices b = None"
      using cv that by (simp add: claim_virtual_None)
    ultimately have "\<exists>pd. b_devices b' = (case pd of None \<Rightarrow> reg | Some p \<Rightarrow> fst (HandleProductInfo reg (rx_Bus frame) (h_Source (rx_Header frame)) p)) \<and>
        (b_virtualDevices b = None \<longrightarrow> pd = None)"
      by (auto simp: b' seed_product_info_def sendISORequest_nf split: option.split
          intro: exI [of _ "None :: bytes option"] exI [of _ "Some p" for p :: bytes])
    then show ?thesis
      using st c d1 by (simp add: Let_def)
  qed
qed

lemma handle_product_frame:
  assumes "handle_product now frame b = Some b'"
  shows "stable b b' \<and> b_devices b' = fst (HandleProductInfo (b_devices b) (rx_Bus frame) (h_Source (rx_Header frame)) (rx_Data frame)) \<and>
    b_values b' = b_values b"
proof -
  obtain reg dev where p: "HandleProductInfo (b_devices b) (rx_Bus frame) (h_Source (rx_Header frame)) (rx_Data frame) = (reg, dev)"
    by fastforce
  show ?thesis
  proof (cases dev)
    case None
    then show ?thesis
      using assms p by (auto simp: handle_product_def)
  next
    case (Some d)
    let ?b1 = "b\<lparr>b_devices := reg\<rparr>"
    have on: "requestDeviceOnline now d (fanOutDevice d ?b1) = Some b'"
      using assms p Some by (simp add: handle_product_def)
    have "stable b ?b1" "stable ?b1 (fanOutDevice d ?b1)" "stable (fanOutDevice d ?b1) b'"
      using online_frame [OF on] by simp_all
    then have "stable b b'"
      by (meson stable_trans)
    moreover have "b_values b' = b_values b"
      using on by (auto simp: requestDeviceOnline_def dispatchRequests_nf Option.bind_eq_Some_conv fanOutDevice_def split: option.splits)
    ultimately show ?thesis
      using online_frame [OF on] p by (simp add: fanOutDevice_def)
  qed
qed

text \<open>The registry after a whole frame, given what discovery made of \<open>r1\<close>, the registry with the packet counted.\<close>

lemma discover_frame:
  assumes d: "discover now frame newSource b = Some b'"
  shows "stable b b' \<and> (\<exists>pd. b_devices b' =
    (let bus = rx_Bus frame; src = h_Source (rx_Header frame); pgn = h_PGN (rx_Header frame); data = rx_Data frame
     in if pgn = 60928 then
          (let r = fst (HandleAddressClaim (b_devices b) bus src data) in case pd of None \<Rightarrow> r | Some p \<Rightarrow> fst (HandleProductInfo r bus src p))
        else if pgn = 126996 then fst (HandleProductInfo (b_devices b) bus src data)
        else b_devices b) \<and> (b_virtualDevices b = None \<longrightarrow> pd = None))"
proof (cases "h_PGN (rx_Header frame) = 60928")
  case True
  then show ?thesis
    using d handle_claim_frame [of now frame b b'] by (simp add: discover_def Let_def)
next
  case no_claim: False
  show ?thesis
  proof (cases "h_PGN (rx_Header frame) = 126996")
    case True
    then show ?thesis
      using d handle_product_frame [of now frame b b'] by (auto simp: discover_def Let_def)
  next
    case False
    have "stable b (handle_iso_request frame b) \<and> b_devices (handle_iso_request frame b) = b_devices b"
      by (auto simp: handle_iso_request_def Let_def queueTxs_nf split: option.split)
    then show ?thesis
      using d no_claim False by (auto simp: discover_def Let_def sendISORequest_nf split: if_splits)
  qed
qed

lemma HandleAddressClaim_key:
  assumes "gm_get r \<lparr>dvk_Bus = bus, dvk_Source = src\<rparr> \<noteq> None"
  shows "gm_get (fst (HandleAddressClaim r bus src data)) \<lparr>dvk_Bus = bus, dvk_Source = src\<rparr> \<noteq> None"
  using assms by (auto simp: HandleAddressClaim_def Let_def split: option.split)

lemma discover_key:
  assumes "discover now frame newSource b = Some b'"
    and "gm_get (b_devices b) \<lparr>dvk_Bus = rx_Bus frame, dvk_Source = h_Source (rx_Header frame)\<rparr> \<noteq> None"
  shows "gm_get (b_devices b') \<lparr>dvk_Bus = rx_Bus frame, dvk_Source = h_Source (rx_Header frame)\<rparr> \<noteq> None"
  using discover_frame [OF assms(1)] assms(2) HandleAddressClaim_key [OF assms(2), of "rx_Data frame"]
  by (auto simp: Let_def HandleProductInfo_dom split: if_splits option.splits)

lemma values_known_record:
  assumes "values_known vs reg" "src < 254 \<Longrightarrow> gm_get reg \<lparr>dvk_Bus = bus, dvk_Source = src\<rparr> \<noteq> None"
  shows "values_known (ValueStore_Record vs bus src pgn ts data seq) reg"
  using assms by (auto simp: values_known_def ValueStore_Record_def)

lemma store_frame_nf:
  "b_txFrames (store_frame rfc f b) = b_txFrames b"
  "b_devices (store_frame rfc f b) = b_devices b"
  "b_virtualDevices (store_frame rfc f b) = b_virtualDevices b"
  "b_requests (store_frame rfc f b) = b_requests b"
  "b_requestPGNs (store_frame rfc f b) = b_requestPGNs b"
  "b_replicaMode (store_frame rfc f b) = b_replicaMode b"
  "b_sessions (store_frame rfc f b) = b_sessions b"
  "b_frameCount (store_frame rfc f b) = b_frameCount b + 1"
  "b_values (store_frame rfc f b) = ValueStore_Record (b_values b) (rx_Bus f) (h_Source (rx_Header f)) (h_PGN (rx_Header f))
     (rx_Timestamp f) (rx_Data f) (if b_replicaMode b then rx_Seq f else rg_head (b_ring b))"
  "b_ring (store_frame rfc f b) = (if b_replicaMode b then ring_append_replica (ring_entry rfc f (rx_Seq f)) (b_ring b)
     else ring_append (ring_entry rfc f (rg_head (b_ring b))) (b_ring b))"
  "b_subscribers (store_frame rfc f b) = map (\<lambda>(ptr, s). (ptr,
     if EventFilter_matches (sub_filter s) (rx_Bus f) (rx_Header f) (b_devices b)
     then sub_send (MsgFrame (frame_json rfc (if b_replicaMode b then rx_Seq f else rg_head (b_ring b)) (rx_Timestamp f) (rx_Bus f) (rx_Header f) (rx_Data f))) s
     else s)) (b_subscribers b)"
  by (simp_all add: store_frame_def Let_def send_journal_def notifyConsumers_def fanOut_def append_frame_def split: option.split)

lemma subs_ok_cond: "subs_ok subs \<Longrightarrow> subs_ok (map (\<lambda>(ptr, s). (ptr, if P s then sub_send m s else s)) subs)"
  by (auto simp: subs_ok_def sub_send_bound)

lemma broker_ok_store:
  assumes "broker_ok b" "h_Source (rx_Header f) < 254 \<Longrightarrow> gm_get (b_devices b) \<lparr>dvk_Bus = rx_Bus f, dvk_Source = h_Source (rx_Header f)\<rparr> \<noteq> None"
  shows "broker_ok (store_frame rfc f b)"
  using assms by (simp add: broker_ok_def store_frame_nf subs_ok_cond values_known_record)

lemma handleFrame_cases:
  assumes "handleFrame rfc now frame b = Some b'"
  obtains b1 b2 where "discover now frame (snd (RecordPacket (b_devices b) (rx_Bus frame) (h_Source (rx_Header frame)) (rx_Timestamp frame) (length (rx_Data frame))))
        (b\<lparr>b_devices := fst (RecordPacket (b_devices b) (rx_Bus frame) (h_Source (rx_Header frame)) (rx_Timestamp frame) (length (rx_Data frame)))\<rparr>) = Some b1"
    "guarded_requests now frame b1 = Some b2" "b' = store_frame rfc frame b2"
  using assms by (auto simp: handleFrame_def Option.bind_eq_Some_conv split: prod.splits)

lemma broker_ok_packet:
  "broker_ok b \<Longrightarrow> broker_ok (b\<lparr>b_devices := fst (RecordPacket (b_devices b) bus src ts n)\<rparr>)"
  by (auto simp: broker_ok_def registry_ok_RecordPacket values_known_mono RecordPacket_get)

lemma broker_ok_handleFrame:
  assumes ok: "broker_ok b" and h: "handleFrame rfc now frame b = Some b'"
  shows "broker_ok b'"
  using h
proof (rule handleFrame_cases)
  fix b1 b2
  let ?k = "\<lparr>dvk_Bus = rx_Bus frame, dvk_Source = h_Source (rx_Header frame)\<rparr>"
  assume d: "discover now frame (snd (RecordPacket (b_devices b) (rx_Bus frame) (h_Source (rx_Header frame)) (rx_Timestamp frame) (length (rx_Data frame))))
        (b\<lparr>b_devices := fst (RecordPacket (b_devices b) (rx_Bus frame) (h_Source (rx_Header frame)) (rx_Timestamp frame) (length (rx_Data frame)))\<rparr>) = Some b1"
    and g: "guarded_requests now frame b1 = Some b2" and b': "b' = store_frame rfc frame b2"
  have "broker_ok b2"
    by (rule broker_ok_guarded [OF broker_ok_discover [OF broker_ok_packet [OF ok] d] g])
  moreover have "gm_get (b_devices b2) ?k \<noteq> None" if "h_Source (rx_Header frame) < 254"
    using discover_key [OF d] RecordPacket_get(2) [OF that] guarded_frame [OF g] by simp
  ultimately show ?thesis
    unfolding b' by (rule broker_ok_store)
qed

section \<open>The other operations\<close>

definition expire_one :: "gotime \<Rightarrow> deviceKey \<Rightarrow> Broker \<Rightarrow> Broker" where
  "expire_one now key b =
     drop_source (dvk_Bus key) (dvk_Source key) (b\<lparr>b_alerts := FireDeviceRemoved now (dvk_Source key) None (b_alerts b)\<rparr>)"

lemma expire_loop:
  "b_txFrames (fold (expire_one now) ks b) = b_txFrames b"
  "b_devices (fold (expire_one now) ks b) = b_devices b"
  "b_virtualDevices (fold (expire_one now) ks b) = b_virtualDevices b"
  "b_requestPGNs (fold (expire_one now) ks b) = b_requestPGNs b"
  "b_values (fold (expire_one now) ks b) = fold (\<lambda>k vs. RemoveSource vs (dvk_Bus k) (dvk_Source k)) ks (b_values b)"
  "stable b (fold (expire_one now) ks b)"
  "subs_ok (b_subscribers b) \<Longrightarrow> subs_ok (b_subscribers (fold (expire_one now) ks b))"
  "guard_ok (b_requests b) pgns \<Longrightarrow> guard_ok (b_requests (fold (expire_one now) ks b)) pgns"
  by (induction ks arbitrary: b) (auto simp: expire_one_def drop_source_nf subs_ok_send guard_ok_offline stable_def)

lemma get_RemoveSources:
  "gm_get (fold (\<lambda>k vs. RemoveSource vs (dvk_Bus k) (dvk_Source k)) ks vs) k =
     (if \<lparr>dvk_Bus = vk_Bus k, dvk_Source = vk_Source k\<rparr> \<in> set ks then None else gm_get vs k)"
proof (induction ks arbitrary: vs)
  case (Cons key ks)
  show ?case
    unfolding fold_Cons comp_def Cons.IH by (cases key) (auto simp: RemoveSource_def gm_get_del_if_key)
qed simp

lemma ExpireIdle_evicted:
  assumes "gm_wf r" "gm_get r k \<noteq> None" "gm_get (fst (ExpireIdle r cutoff)) k = None"
  shows "k \<in> set (snd (ExpireIdle r cutoff))"
  using assms by (force simp: ExpireIdle_def gm_get_del_if gm_get_iff split: if_splits)

lemma expireDevices_nf:
  "expireDevices now b =
     (if b_deviceIdleTimeout b = 0 then b
      else fold (expire_one now) (snd (ExpireIdle (b_devices b) (now - b_deviceIdleTimeout b)))
             (b\<lparr>b_devices := fst (ExpireIdle (b_devices b) (now - b_deviceIdleTimeout b))\<rparr>))"
  by (simp add: expireDevices_def expire_one_def [abs_def] split: prod.split)

lemma broker_ok_expireDevices:
  assumes ok: "broker_ok b"
  shows "broker_ok (expireDevices now b)"
proof -
  let ?x = "ExpireIdle (b_devices b) (now - b_deviceIdleTimeout b)"
  have wf: "gm_wf (b_devices b)" and vk: "values_known (b_values b) (b_devices b)"
    using ok by (simp_all add: broker_ok_def registry_ok_def)
  have "values_known (fold (\<lambda>k vs. RemoveSource vs (dvk_Bus k) (dvk_Source k)) (snd ?x) (b_values b)) (fst ?x)"
    using vk ExpireIdle_evicted [OF wf] unfolding values_known_def get_RemoveSources by (metis (no_types, lifting))
  then show ?thesis
    using ok registry_ok_ExpireIdle [of "b_devices b" "now - b_deviceIdleTimeout b"]
    by (auto simp: expireDevices_nf broker_ok_def expire_loop(1-7) intro!: expire_loop(8))
qed

lemma retryProductInfo_nf: "\<exists>reqs. retryProductInfo b = b\<lparr>b_txFrames := fold tx_push reqs (b_txFrames b)\<rparr>"
proof -
  have "\<exists>reqs. fold (\<lambda>bs b. sendISORequest b (dvk_Bus bs) (dvk_Source bs) 126996) ks c = c\<lparr>b_txFrames := fold tx_push reqs (b_txFrames c)\<rparr>" for ks c
  proof (induction ks arbitrary: c)
    case Nil
    show ?case
      by (rule exI [of _ "[]"]) simp
  next
    case (Cons k ks)
    obtain reqs where "fold (\<lambda>bs b. sendISORequest b (dvk_Bus bs) (dvk_Source bs) 126996) ks (sendISORequest c (dvk_Bus k) (dvk_Source k) 126996) =
        (sendISORequest c (dvk_Bus k) (dvk_Source k) 126996)\<lparr>b_txFrames := fold tx_push reqs (b_txFrames (sendISORequest c (dvk_Bus k) (dvk_Source k) 126996))\<rparr>"
      using Cons.IH by blast
    then show ?case
      by (intro exI [of _ "iso_request c (dvk_Bus k) (dvk_Source k) 126996 # reqs"]) (simp add: sendISORequest_nf)
  qed
  then show ?thesis
    by (simp add: retryProductInfo_def)
qed

lemma virtual_ok_step: "virtual_ok (Some m) \<Longrightarrow> virtual_ok (Some (vd_step op m))"
  by (simp add: virtual_ok_def addresses_ok_step)

lemma broker_ok_virtual:
  "broker_ok b \<Longrightarrow> broker_ok (heartbeat_virtual now b)"
  "broker_ok b \<Longrightarrow> broker_ok (start_virtual now b)"
  using virtual_ok_step [of _ "VBeat now"] virtual_ok_step [of _ "VStart (b_devices b) now"]
  by (auto simp: heartbeat_virtual_def start_virtual_def broker_ok_def queueTxs_nf split: option.split prod.split) (metis fst_conv)+

lemma broker_ok_tick: "broker_ok b \<Longrightarrow> run_tick now b = Some b' \<Longrightarrow> broker_ok b'"
proof -
  assume ok: "broker_ok b" and t: "run_tick now b = Some b'"
  obtain b1 where b1: "requestTick now (expireDevices now (expireSessions now b)) = Some b1"
    and b': "b' = heartbeat_virtual now (if b_replicaMode b1 then b1 else retryProductInfo b1)"
    using t by (auto simp: run_tick_def Option.bind_eq_Some_conv)
  have "broker_ok b1"
    using ok by (intro broker_ok_requestTick [OF _ b1] broker_ok_expireDevices) (simp add: expireSessions_def)
  moreover obtain reqs where "retryProductInfo b1 = b1\<lparr>b_txFrames := fold tx_push reqs (b_txFrames b1)\<rparr>"
    using retryProductInfo_nf by blast
  ultimately show ?thesis
    unfolding b' by (intro broker_ok_virtual) (simp add: broker_ok_txs)
qed

lemma guard_ok_AddRequestRule:
  assumes "guard_ok (b_requests b) (b_requestPGNs b)"
  shows "guard_ok (b_requests (fst (AddRequestRule b r))) (b_requestPGNs (fst (AddRequestRule b r)))"
proof -
  have "rules_ok (case b_requests b of None \<Rightarrow> NewEngine 0 | Some e \<Rightarrow> e)"
    using assms by (auto simp: guard_ok_def rules_ok_new split: option.splits)
  then show ?thesis
    using assms
    by (auto simp: AddRequestRule_def Let_def refreshRequestPGNs_def guard_ok_def NewEngine_def
        split: option.splits sum.splits intro: rules_ok_AddRule)
qed

lemma AddRequestRule_same:
  "b_txFrames (fst (AddRequestRule b r)) = b_txFrames b" "b_subscribers (fst (AddRequestRule b r)) = b_subscribers b"
  "b_devices (fst (AddRequestRule b r)) = b_devices b" "b_values (fst (AddRequestRule b r)) = b_values b"
  "b_virtualDevices (fst (AddRequestRule b r)) = b_virtualDevices b" "b_ring (fst (AddRequestRule b r)) = b_ring b"
  "b_replicaMode (fst (AddRequestRule b r)) = b_replicaMode b" "b_frameCount (fst (AddRequestRule b r)) = b_frameCount b"
  "b_sessions (fst (AddRequestRule b r)) = b_sessions b"
  by (simp_all add: AddRequestRule_def Let_def refreshRequestPGNs_def split: option.splits sum.splits)

lemma fold_Add_steps: "fold (\<lambda>vdc m. VirtualDeviceManager_Add m vdc) cfgs m = fold vd_step (map VAdd cfgs) m"
  by (induction cfgs arbitrary: m) simp_all

lemma rules_ok_add_valid: "rules_ok e \<Longrightarrow> rules_ok (fold add_valid_rule rs e)"
proof (induction rs arbitrary: e)
  case (Cons r rs)
  have "rules_ok (add_valid_rule r e)"
    using Cons.prems by (auto simp: add_valid_rule_def split: sum.split intro: rules_ok_AddRule)
  then show ?case
    using Cons.IH by simp
qed simp

lemma NewBroker_cases:
  assumes "NewBroker cfg = Some b"
  obtains n where "b = configure_rules cfg (configure_virtual cfg (new_broker_state cfg n))"
    "int n AND (int n - 1) = 0" "n = (if bc_RingSize cfg = 0 then 65536 else nat (bc_RingSize cfg))" "0 < n"
proof -
  define z where "z = (if bc_RingSize cfg = 0 then 65536 else bc_RingSize cfg)"
  have "NewBroker cfg = (if z AND (z - 1) \<noteq> 0 then None
      else Some (configure_rules cfg (configure_virtual cfg (new_broker_state cfg (nat z)))))"
    by (simp only: NewBroker_def z_def Let_def)
  then have b: "b = configure_rules cfg (configure_virtual cfg (new_broker_state cfg (nat z)))" and z: "z AND (z - 1) = 0"
    using assms by (auto split: if_splits)
  have "\<not> z < 0"
  proof
    assume "z < 0"
    then have "z AND (z - 1) < 0"
      by simp
    then show False
      using z by simp
  qed
  moreover have "z \<noteq> 0"
    by (simp add: z_def)
  ultimately have "int (nat z) = z" "0 < nat z" "nat z = (if bc_RingSize cfg = 0 then 65536 else nat (bc_RingSize cfg))"
    by (simp_all add: z_def)
  then show thesis
    using that [of "nat z"] b z by simp
qed

lemma broker_ok_base: "broker_ok (new_broker_state cfg n)"
  by (simp add: new_broker_state_def broker_ok_def Let_def registry_ok_new subs_ok_def values_known_def virtual_ok_def guard_ok_def NewValueStore_def)

lemma broker_ok_new:
  assumes "NewBroker cfg = Some b"
  shows "broker_ok b"
  using assms
proof (rule NewBroker_cases)
  fix n
  assume b: "b = configure_rules cfg (configure_virtual cfg (new_broker_state cfg n))"
  have "addresses_ok (vm_devices (fold (\<lambda>vdc m. VirtualDeviceManager_Add m vdc) cfgs (NewVirtualDeviceManager x y)))" for cfgs x y
    unfolding fold_Add_steps by (rule addresses_ok_fold) (simp add: NewVirtualDeviceManager_def addresses_ok_def)
  then have "broker_ok (configure_virtual cfg (new_broker_state cfg n))"
    using broker_ok_base [of cfg n] by (simp add: configure_virtual_def broker_ok_def virtual_ok_def)
  moreover have "rules_ok (fold add_valid_rule (bc_RequestRules cfg) (NewEngine g))" for g
    by (rule rules_ok_add_valid [OF rules_ok_new])
  ultimately show ?thesis
    by (simp add: b configure_rules_def refreshRequestPGNs_def broker_ok_def guard_ok_def)
qed

lemma set_gm_put: "x \<in> set (gm_put k v m) \<Longrightarrow> x = (k, v) \<or> x \<in> set m"
  unfolding gm_put_def by (induction m) (auto split: if_splits)

lemma set_gm_del: "x \<in> set (gm_del k m) \<Longrightarrow> x \<in> set m"
  by (auto simp: gm_del_def AList.delete_eq)

lemma subs_ok_tail:
  assumes "subs_ok subs" "gm_get subs ptr = Some s"
  shows "subs_ok (gm_put ptr (s\<lparr>sub_ch := tl (sub_ch s)\<rparr>) subs)"
proof -
  have "length (sub_ch s) \<le> 128"
    using assms gm_get_in [OF assms(2)] by (auto simp: subs_ok_def)
  then show ?thesis
    using assms(1) by (fastforce simp: subs_ok_def dest: set_gm_put)
qed

lemma broker_ok_step:
  assumes ok: "broker_ok b" and s: "broker_step rfc op b = Some b'"
  shows "broker_ok b'"
proof (cases op)
  case (BFrame now frame)
  then show ?thesis
    using broker_ok_handleFrame [OF ok] s by simp
next
  case (BTick now)
  then show ?thesis
    using broker_ok_tick [OF ok] s by simp
next
  case (BSubscribe ptr f)
  then show ?thesis
    using ok s by (auto simp: Subscribe_def Let_def broker_ok_def subs_ok_def dest!: set_gm_put)
next
  case (BUnsubscribe ptr)
  then show ?thesis
    using ok s by (auto simp: unsubscribe_def broker_ok_def subs_ok_def dest!: set_gm_del)
next
  case (BTakeMsg ptr)
  then show ?thesis
    using ok s by (auto simp: take_msg_def broker_ok_def subs_ok_tail split: option.splits)
next
  case (BAddRule r)
  then show ?thesis
    using ok s by (auto simp: broker_ok_def AddRequestRule_same guard_ok_AddRequestRule)
next
  case BTakeTx
  then show ?thesis
    using ok s by (auto simp: broker_ok_def)
qed (use ok s in \<open>auto simp: broker_ok_txs run_start_def sendISORequest_nf broker_ok_virtual QueueTx_nf SendISORequest_nf
      CreateSession_def TouchSession_def AckSession_def Let_def broker_NewConsumer_def removeConsumer_def SetAlerts_def SetJournal_def
      split: option.splits\<close>)

lemma broker_ok_run: "broker_ok b \<Longrightarrow> broker_run rfc ops b = Some b' \<Longrightarrow> broker_ok b'"
  unfolding broker_run_def by (induction ops arbitrary: b) (auto split: option.splits dest: broker_ok_step)

section \<open>Frames and the ring\<close>

definition frames_of :: "broker_op list \<Rightarrow> RxFrame list" where
  "frames_of ops = concat (map (\<lambda>op. case op of BFrame now f \<Rightarrow> [f] | _ \<Rightarrow> []) ops)"

lemma handleFrame_stable:
  assumes "handleFrame rfc now frame b = Some b'"
  shows "b_replicaMode b' = b_replicaMode b \<and> b_sessions b' = b_sessions b \<and>
    b_ring b' = (if b_replicaMode b then ring_append_replica (ring_entry rfc frame (rx_Seq frame)) (b_ring b)
      else ring_append (ring_entry rfc frame (rg_head (b_ring b))) (b_ring b)) \<and>
    b_frameCount b' = b_frameCount b + 1 \<and> (b_virtualDevices b = None \<longrightarrow> b_virtualDevices b' = None) \<and> (b_requests b = None \<longrightarrow> b_requests b' = None)"
  using assms
proof (rule handleFrame_cases)
  fix b1 b2
  assume d: "discover now frame (snd (RecordPacket (b_devices b) (rx_Bus frame) (h_Source (rx_Header frame)) (rx_Timestamp frame) (length (rx_Data frame))))
        (b\<lparr>b_devices := fst (RecordPacket (b_devices b) (rx_Bus frame) (h_Source (rx_Header frame)) (rx_Timestamp frame) (length (rx_Data frame)))\<rparr>) = Some b1"
    and g: "guarded_requests now frame b1 = Some b2" and b': "b' = store_frame rfc frame b2"
  have "stable b b2"
    using stable_trans [OF stable_trans [OF stable_updates(2) conjunct1 [OF discover_frame [OF d]]] conjunct1 [OF guarded_frame [OF g]]] .
  then have "b_replicaMode b2 = b_replicaMode b" "b_sessions b2 = b_sessions b" "b_ring b2 = b_ring b" "b_frameCount b2 = b_frameCount b"
    "b_virtualDevices b = None \<longrightarrow> b_virtualDevices b2 = None" "b_requests b = None \<longrightarrow> b_requests b2 = None"
    by (auto simp: stable_def)
  then show ?thesis
    unfolding b' store_frame_nf by simp
qed

lemma run_tick_stable:
  assumes "run_tick now b = Some b'"
  shows "b_ring b' = b_ring b \<and> b_replicaMode b' = b_replicaMode b \<and> b_sessions b' = b_sessions (expireSessions now b) \<and>
    b_frameCount b' = b_frameCount b"
proof -
  obtain b1 where b1: "requestTick now (expireDevices now (expireSessions now b)) = Some b1"
    and b': "b' = heartbeat_virtual now (if b_replicaMode b1 then b1 else retryProductInfo b1)"
    using assms by (auto simp: run_tick_def Option.bind_eq_Some_conv)
  have "stable (expireSessions now b) (expireDevices now (expireSessions now b))"
    using stable_trans [OF stable_updates(2) expire_loop(6)] by (simp add: expireDevices_nf)
  moreover have "stable (expireDevices now (expireSessions now b)) b1"
    using b1 by (auto simp: requestTick_def stable_def dispatchRequests_nf Option.bind_eq_Some_conv split: option.splits)
  moreover have "stable b1 b'"
    using retryProductInfo_nf [of b1]
    by (auto simp: b' heartbeat_virtual_def stable_def queueTxs_nf split: option.split prod.split)
  ultimately have "stable (expireSessions now b) b'"
    by (meson stable_trans)
  then show ?thesis
    by (simp add: stable_def expireSessions_def)
qed

lemma other_step_stable:
  assumes "broker_step rfc op b = Some b'" "\<forall>now f. op \<noteq> BFrame now f" "\<forall>now. op \<noteq> BTick now"
  shows "b_ring b' = b_ring b \<and> b_replicaMode b' = b_replicaMode b \<and> b_frameCount b' = b_frameCount b"
  using assms
  by (cases op) (auto simp: run_start_def sendISORequest_nf start_virtual_def queueTxs_nf QueueTx_nf SendISORequest_nf AddRequestRule_same Let_def
      Subscribe_def unsubscribe_def take_msg_def CreateSession_def TouchSession_def AckSession_def broker_NewConsumer_def removeConsumer_def
      SetAlerts_def SetJournal_def split: option.splits prod.splits if_splits)

lemma step_ring:
  assumes "broker_step rfc op b = Some b'"
  shows "b_replicaMode b' = b_replicaMode b \<and>
    b_ring b' = fold (\<lambda>f r. if b_replicaMode b then ring_append_replica (ring_entry rfc f (rx_Seq f)) r else ring_append (ring_entry rfc f (rg_head r)) r)
      (frames_of [op]) (b_ring b)"
proof (cases "\<exists>now f. op = BFrame now f")
  case True
  then show ?thesis
    using assms handleFrame_stable by (auto simp: frames_of_def)
next
  case False
  then have "frames_of [op] = []"
    by (auto simp: frames_of_def split: broker_op.split)
  then show ?thesis
    using assms False run_tick_stable other_step_stable [OF assms] by (cases "\<exists>now. op = BTick now") auto
qed

lemma frames_of_Cons: "frames_of (op # ops) = frames_of [op] @ frames_of ops"
  by (simp add: frames_of_def)

lemma run_ring:
  assumes "broker_run rfc ops b = Some b'"
  shows "b_replicaMode b' = b_replicaMode b \<and>
    b_ring b' = fold (\<lambda>f r. if b_replicaMode b then ring_append_replica (ring_entry rfc f (rx_Seq f)) r else ring_append (ring_entry rfc f (rg_head r)) r)
      (frames_of ops) (b_ring b)"
  using assms unfolding broker_run_def
proof (induction ops arbitrary: b)
  case Nil
  then show ?case
    by (simp add: frames_of_def)
next
  case (Cons op ops)
  then obtain b1 where b1: "broker_step rfc op b = Some b1" "fold_opt (broker_step rfc) ops b1 = Some b'"
    by (auto split: option.splits)
  then show ?case
    using Cons.IH [OF b1(2)] step_ring [OF b1(1)] by (simp add: frames_of_Cons [of op ops])
qed

lemma ring_entry_stamp: "(ring_entry rfc f q)\<lparr>re_Seq := q\<rparr> = ring_entry rfc f q"
  by (simp add: ring_entry_def)

lemma ring_frames_hold:
  assumes "k < 63" "unat h + length fs < 2 ^ 64"
  shows "ring_holds k h (map (\<lambda>i. ring_entry rfc (fs ! i) (h + of_nat i)) [0..<length fs])
    (fold (\<lambda>f r. ring_append (ring_entry rfc f (rg_head r)) r) fs (new_ring (2 ^ k) h))"
  using assms(2)
proof (induction fs rule: rev_induct)
  case Nil
  then show ?case
    by (simp add: ring_holds_new assms(1))
next
  case (snoc f fs)
  let ?r = "fold (\<lambda>f r. ring_append (ring_entry rfc f (rg_head r)) r) fs (new_ring (2 ^ k) h)"
  have R: "ring_holds k h (map (\<lambda>i. ring_entry rfc (fs ! i) (h + of_nat i)) [0..<length fs]) ?r"
    using snoc by simp
  have "unat (rg_head ?r) = unat (h + of_nat (length fs))"
    using R snoc.prems by (simp add: ring_holds_def unat_offset)
  then have hd: "rg_head ?r = h + of_nat (length fs)"
    by (simp only: word_unat_eq_iff)
  have "ring_holds k h (map (\<lambda>i. ring_entry rfc (fs ! i) (h + of_nat i)) [0..<length fs] @ [(ring_entry rfc f (rg_head ?r))\<lparr>re_Seq := rg_head ?r\<rparr>])
      (ring_append (ring_entry rfc f (rg_head ?r)) ?r)"
    using snoc.prems by (intro ring_holds_append [OF R]) simp
  then show ?case
    unfolding map_nth_snoc [of "\<lambda>i f. ring_entry rfc f (h + of_nat i)" fs f] by (simp add: hd ring_entry_stamp)
qed

text \<open>A positive number that has no bit in common with its predecessor is a power of two.\<close>

lemma power_of_two: "0 < n \<Longrightarrow> int n AND (int n - 1) = 0 \<Longrightarrow> \<exists>k. n = 2 ^ k"
proof (induction n rule: less_induct)
  case (less n)
  show ?case
  proof (cases "even n")
    case True
    then obtain m where m: "n = 2 * m"
      by blast
    have "int n AND (int n - 1) = 2 * (int m AND (int m - 1))"
    proof -
      have "(int n - 1) div 2 = int m - 1" "int n div 2 = int m"
        using m by simp_all
      then show ?thesis
        using m by (subst and_rec) simp
    qed
    then have "\<exists>k. m = 2 ^ k"
      using less m by simp
    then show ?thesis
      using m by (metis power_Suc)
  next
    case False
    then obtain m where m: "n = 2 * m + 1"
      by (metis oddE)
    then have "(int n - 1) div 2 = int m" "int n div 2 = int m"
      by simp_all
    then have "int n AND (int n - 1) = 2 * int m"
      using m by (subst and_rec) simp
    then have "n = 2 ^ 0"
      using less.prems m by simp
    then show ?thesis ..
  qed
qed

end
