(* ===== verification/BrokerProps.thy ===== *)
theory BrokerProps
  imports BrokerInv
begin

text \<open>
  The guarantees of the broker, over every history of operations from \<^verbatim>\<open>NewBroker\<close> on, with the
  lemmas on replicas, sessions and registries they need.
\<close>

section \<open>Queues, values, prefilter\<close>


text \<open>
  C16: Stored values belong to known devices. After any history, every value in the value store whose
  source is an ordinary address comes from a device of the registry: expired and evicted devices take
  their values with them.
\<close>

theorem values_of_known_devices:
  assumes "NewBroker cfg = Some b0" "broker_run rfc ops b0 = Some b"
    and "gm_get (b_values b) k = Some v" "vk_Source k < 254"
  shows "DeviceRegistry_Get (b_devices b) (vk_Bus k) (vk_Source k) \<noteq> None"
  using broker_ok_run [OF broker_ok_new [OF assms(1)] assms(2)] assms(3,4)
  by (auto simp: broker_ok_def values_known_def DeviceRegistry_Get_def)

text \<open>
  C15: The prefilter of the request rules is transparent. In every reachable broker with a request
  engine, skipping the engine for frames whose PGN is not in the precomputed set gives the same
  result as running it on every frame.
\<close>

theorem prefilter_transparent:
  assumes "NewBroker cfg = Some b0" "broker_run rfc ops b0 = Some b" "b_requests b = Some e"
  shows "guarded_requests now frame b = engine_frame now frame b"
proof -
  have g: "guard_ok (Some e) (b_requestPGNs b)"
    using broker_ok_run [OF broker_ok_new [OF assms(1)] assms(2)] assms(3) by (simp add: broker_ok_def)
  then have "rules_ok e"
    by (simp add: guard_ok_def)
  have skip: "engine_frame now frame b = Some b" if "h_PGN (rx_Header frame) \<notin> InterestingPGNs e"
    using uninteresting_frame [OF \<open>rules_ok e\<close> that] assms(3)
    by (cases b) (simp add: engine_frame_def dispatchRequests_def)
  show ?thesis
  proof (cases "b_requestPGNs b")
    case None
    then have "InterestingPGNs e = {}"
      using g by (simp add: guard_ok_def InterestingPGNs_def)
    then show ?thesis
      using None skip by (simp add: guarded_requests_def)
  next
    case (Some S)
    then show ?thesis
      using g skip by (simp add: guarded_requests_def guard_ok_def)
  qed
qed

section \<open>Sequence numbers\<close>

lemma NewBroker_ring:
  assumes "NewBroker cfg = Some b" "bc_RingSize cfg < 2 ^ 63"
  obtains k where "k < 63" "b_ring b = new_ring (2 ^ k) (if bc_InitialHead cfg > 0 then bc_InitialHead cfg else 1)"
    "b_replicaMode b = bc_ReplicaMode cfg" "2 ^ k = (if bc_RingSize cfg = 0 then 65536 else nat (bc_RingSize cfg))"
  using assms(1)
proof (rule NewBroker_cases)
  fix n
  assume b: "b = configure_rules cfg (configure_virtual cfg (new_broker_state cfg n))"
    and n: "int n AND (int n - 1) = 0" "n = (if bc_RingSize cfg = 0 then 65536 else nat (bc_RingSize cfg))" "0 < n"
  obtain k where k: "n = 2 ^ k"
    using power_of_two [OF n(3,1)] by blast
  have "n < 2 ^ 63"
    using assms(2) n(2,3) by (auto split: if_splits)
  then have "k < 63"
    unfolding k by (rule power_less_imp_less_exp [rotated]) simp
  moreover have "b_ring b = new_ring n (if bc_InitialHead cfg > 0 then bc_InitialHead cfg else 1)" "b_replicaMode b = bc_ReplicaMode cfg"
    by (simp_all add: b configure_rules_def configure_virtual_def new_broker_state_def refreshRequestPGNs_def Let_def)
  ultimately show thesis
    using that k n(2) by blast
qed

text \<open>
  C10: Frames are numbered consecutively and the ring holds the last ones. After any history of a
  broker that is not a replica, the \<open>i\<close>-th frame handled has the number \<open>InitialHead + i\<close> (counting
  from 1 by default): reading number \<open>q\<close> gives that frame with its header, bus, payload, timestamp
  and JSON if it is among the last \<open>RingSize\<close>, and nothing otherwise.
\<close>

theorem frames_numbered_consecutively:
  assumes "NewBroker cfg = Some b0" "broker_run rfc ops b0 = Some b" "\<not> bc_ReplicaMode cfg" "bc_RingSize cfg < 2 ^ 63"
    and "h = (if bc_InitialHead cfg > 0 then bc_InitialHead cfg else 1)" "fs = frames_of ops" "unat h + length fs < 2 ^ 64"
    and "n = (if bc_RingSize cfg = 0 then 65536 else nat (bc_RingSize cfg))"
  shows "readEntry (b_ring b) q =
    (if unat h \<le> unat q \<and> unat q < unat h + length fs \<and> unat h + length fs \<le> unat q + n
     then Some (ring_entry rfc (fs ! (unat q - unat h)) q) else None)"
proof -
  obtain k where "k < 63" "b_ring b0 = new_ring (2 ^ k) (if bc_InitialHead cfg > 0 then bc_InitialHead cfg else 1)"
    "b_replicaMode b0 = bc_ReplicaMode cfg" "2 ^ k = (if bc_RingSize cfg = 0 then 65536 else nat (bc_RingSize cfg))"
    by (rule NewBroker_ring [OF assms(1,4)])
  then have k: "k < 63" "b_ring b0 = new_ring (2 ^ k) h" "b_replicaMode b0 = bc_ReplicaMode cfg" and n: "2 ^ k = n"
    unfolding assms(5,8) by blast+
  let ?l = "map (\<lambda>i. ring_entry rfc (fs ! i) (h + of_nat i)) [0..<length fs]"
  have "b_ring b = fold (\<lambda>f r. ring_append (ring_entry rfc f (rg_head r)) r) fs (new_ring (2 ^ k) h)"
    using run_ring [OF assms(2)] k assms(3,6) by simp
  then have R: "ring_holds k h ?l (b_ring b)"
    using ring_frames_hold [OF k(1) assms(7), of rfc] by simp
  then have b: "unat (rg_tail (b_ring b)) = max (unat h) (unat h + length fs - n)" "unat (rg_head (b_ring b)) = unat h + length fs"
    using n by (auto simp: ring_holds_def)
  show ?thesis
  proof (cases "rg_tail (b_ring b) \<le> q \<and> q < rg_head (b_ring b)")
    case True
    then have q: "unat h \<le> unat q" "unat q < unat h + length fs" "unat h + length fs \<le> unat q + n"
      using b by (auto simp: word_le_nat_alt word_less_nat_alt)
    then have "unat (h + of_nat (unat q - unat h)) = unat q"
      using assms(7) by (subst unat_offset) auto
    then have "h + of_nat (unat q - unat h) = q"
      by (simp only: word_unat_eq_iff)
    then show ?thesis
      using ring_log.read_holds [OF R, of q] True q by (simp add: ringRange_def)
  next
    case False
    then have "\<not> (unat h \<le> unat q \<and> unat q < unat h + length fs \<and> unat h + length fs \<le> unat q + n)"
      using b by (auto simp: word_le_nat_alt word_less_nat_alt)
    then show ?thesis
      using ring_log.read_outside [OF R, of q] False by (auto simp: ringRange_def not_le not_less)
  qed
qed

section \<open>Replicas\<close>

definition silent :: "Broker \<Rightarrow> bool" where
  "silent b \<longleftrightarrow> b_replicaMode b \<and> b_virtualDevices b = None \<and> b_requests b = None \<and> b_requestPGNs b = None \<and> b_txFrames b = []"

fun sends_explicitly :: "broker_op \<Rightarrow> bool" where
  "sends_explicitly (BQueueTx _) = True"
| "sends_explicitly (BSendISO _ _ _) = True"
| "sends_explicitly _ = False"

lemma silent_new:
  assumes "NewBroker cfg = Some b" "bc_ReplicaMode cfg"
  shows "silent b"
  using assms(1)
  by (rule NewBroker_cases) (simp add: silent_def configure_rules_def configure_virtual_def new_broker_state_def assms(2) Let_def)

lemma silent_drop: "silent b \<Longrightarrow> silent (drop_source bus src b)"
  by (simp add: silent_def drop_source_nf)

lemma silent_online: "silent b \<Longrightarrow> requestDeviceOnline now d b = Some b' \<Longrightarrow> b' = b"
  by (simp add: silent_def requestDeviceOnline_def)

lemma silent_online_keeps: "requestDeviceOnline now d b = Some b' \<Longrightarrow> silent b \<Longrightarrow> silent b'"
  by (auto dest: silent_online)

lemma silent_fan: "silent b \<Longrightarrow> silent (fanOutDevice d b)"
  by (simp add: silent_def fanOutDevice_def)

lemma silent_claim:
  assumes "silent b" "handle_claim now frame b = Some b'"
  shows "silent b'"
proof -
  obtain reg dev evicted where c: "HandleAddressClaim (b_devices b) (rx_Bus frame) (h_Source (rx_Header frame)) (rx_Data frame) = (reg, dev, evicted)"
    using prod_cases3 by blast
  let ?b3 = "b\<lparr>b_devices := reg, b_devicesAdded := b_devicesAdded b + 1\<rparr>"
  let ?b4 = "case evicted of None \<Rightarrow> ?b3 | Some old \<Rightarrow> drop_source (rx_Bus frame) old ?b3"
  have cv: "claim_virtual now frame b = (b, False)" and s3: "silent ?b3" "silent (b\<lparr>b_devices := reg\<rparr>)"
    using assms(1) by (simp_all add: claim_virtual_None silent_def)
  have s4: "silent (fanOutDevice d ?b4)" for d
    using s3 by (cases evicted) (simp_all add: silent_drop silent_fan)
  show ?thesis
  proof (cases dev)
    case None
    then show ?thesis
      using assms(2) cv c s3 by (simp add: handle_claim_def)
  next
    case (Some d)
    obtain b5 where on: "requestDeviceOnline now d (fanOutDevice d ?b4) = Some b5"
      and b': "b' = (if \<not> b_replicaMode b5 then sendISORequest b5 (rx_Bus frame) (h_Source (rx_Header frame)) 126996 else b5)"
      using assms(2) cv c Some by (auto simp: handle_claim_def Let_def Option.bind_eq_Some_conv)
    show ?thesis
      using silent_online [OF s4 on] s4 [of d] b' by (simp add: silent_def)
  qed
qed

lemma silent_frame:
  assumes "silent b" "handleFrame rfc now frame b = Some b'"
  shows "silent b'"
  using assms(2)
proof (rule handleFrame_cases)
  fix b1 b2
  let ?b = "b\<lparr>b_devices := fst (RecordPacket (b_devices b) (rx_Bus frame) (h_Source (rx_Header frame)) (rx_Timestamp frame) (length (rx_Data frame)))\<rparr>"
  assume d: "discover now frame (snd (RecordPacket (b_devices b) (rx_Bus frame) (h_Source (rx_Header frame)) (rx_Timestamp frame) (length (rx_Data frame)))) ?b = Some b1"
    and g: "guarded_requests now frame b1 = Some b2" and b': "b' = store_frame rfc frame b2"
  have s: "silent ?b"
    using assms(1) by (simp add: silent_def)
  have "silent b1" if "handle_product now frame ?b = Some b1"
  proof -
    have "silent (?b\<lparr>b_devices := r\<rparr>)" for r
      using s by (simp add: silent_def)
    then show ?thesis
      using that by (auto simp: handle_product_def Let_def split: prod.splits option.splits intro: silent_online_keeps silent_fan)
  qed
  moreover have "handle_iso_request frame ?b = ?b"
    using s by (simp add: handle_iso_request_def silent_def)
  ultimately have "silent b1"
    using d s silent_claim [OF s, of now frame b1] by (auto simp: discover_def Let_def silent_def split: if_splits)
  then show ?thesis
    using g by (simp add: b' silent_def store_frame_nf guarded_requests_def)
qed

lemma silent_tick:
  assumes "silent b" "run_tick now b = Some b'"
  shows "silent b'"
proof -
  let ?b = "expireDevices now (expireSessions now b)"
  have "silent (fold (expire_one now) ks c)" if "silent c" for ks c
    using that by (induction ks arbitrary: c) (simp_all add: expire_one_def silent_drop silent_def [of "b_alerts_update _ _"] silent_def [of "_ :: Broker"] drop_source_nf)
  then have s: "silent ?b"
    using assms(1) by (simp add: expireDevices_nf expireSessions_def silent_def)
  then have "requestTick now ?b = Some ?b"
    by (simp add: requestTick_def silent_def)
  then show ?thesis
    using assms(2) s by (simp add: run_tick_def heartbeat_virtual_def silent_def)
qed

lemma silent_step:
  assumes "silent b" "broker_step rfc op b = Some b'" "\<not> sends_explicitly op"
  shows "silent b'"
proof (cases op)
  case (BFrame now frame)
  then show ?thesis
    using assms silent_frame by simp
next
  case (BTick now)
  then show ?thesis
    using assms silent_tick by simp
qed (use assms in \<open>auto simp: silent_def run_start_def start_virtual_def AddRequestRule_def Subscribe_def unsubscribe_def take_msg_def
      CreateSession_def TouchSession_def AckSession_def Let_def broker_NewConsumer_def removeConsumer_def SetAlerts_def SetJournal_def
      split: option.splits\<close>)

text \<open>
  C18: A replica never transmits. As long as nobody asks it to send, a broker in replica mode has
  nothing queued for the CAN bus: no ISO requests, no request rules, no virtual devices, whatever
  frames it receives and however often its ticker runs.
\<close>

theorem replica_never_transmits:
  assumes "NewBroker cfg = Some b0" "bc_ReplicaMode cfg" "broker_run rfc ops b0 = Some b" "list_all (\<lambda>op. \<not> sends_explicitly op) ops"
  shows "b_txFrames b = []"
proof -
  have "silent c \<Longrightarrow> fold_opt (broker_step rfc) ops c = Some b \<Longrightarrow> silent b" for c
    using assms(4) by (induction ops arbitrary: c) (auto split: option.splits dest: silent_step)
  then show ?thesis
    using silent_new [OF assms(1,2)] assms(3) by (auto simp: broker_run_def silent_def)
qed

section \<open>The registry of a broker without virtual devices\<close>

lemma handleFrame_registry:
  assumes "handleFrame rfc now frame b = Some b'" "b_virtualDevices b = None"
  shows "b_devices b' = registry_frame frame (b_devices b)"
  using assms(1)
proof (rule handleFrame_cases)
  fix b1 b2
  assume d: "discover now frame (snd (RecordPacket (b_devices b) (rx_Bus frame) (h_Source (rx_Header frame)) (rx_Timestamp frame) (length (rx_Data frame))))
        (b\<lparr>b_devices := fst (RecordPacket (b_devices b) (rx_Bus frame) (h_Source (rx_Header frame)) (rx_Timestamp frame) (length (rx_Data frame)))\<rparr>) = Some b1"
    and g: "guarded_requests now frame b1 = Some b2" and b': "b' = store_frame rfc frame b2"
  have "b_devices b' = b_devices b1"
    using guarded_frame [OF g] by (simp add: b' store_frame_nf)
  then show ?thesis
    using discover_frame [OF d] assms(2) by (auto simp: registry_frame_def Let_def)
qed

lemma frames_registry:
  assumes "broker_run rfc (map (BFrame now) fs) b = Some b'" "b_virtualDevices b = None"
  shows "b_devices b' = fold registry_frame fs (b_devices b)"
  using assms unfolding broker_run_def
proof (induction fs arbitrary: b)
  case (Cons f fs)
  then obtain b1 where "handleFrame rfc now f b = Some b1" "fold_opt (broker_step rfc) (map (BFrame now) fs) b1 = Some b'"
    by (auto split: option.splits)
  then show ?case
    using Cons handleFrame_registry handleFrame_stable by auto
qed simp

lemma no_engine_online: "b_requests b = None \<Longrightarrow> requestDeviceOnline now d b = Some b"
  by (simp add: requestDeviceOnline_def)

lemma no_engine_fields:
  "b_requests (fanOutDevice d b) = b_requests b"
  "b_requests (drop_source bus src b) = map_option (\<lambda>e. OnDeviceOffline e bus src) (b_requests b)"
  by (simp_all add: fanOutDevice_def drop_source_nf)

lemma no_engine_claim:
  assumes "b_requests b = None"
  shows "handle_claim now frame b \<noteq> None"
proof -
  obtain b1 ours where cv: "claim_virtual now frame b = (b1, ours)"
    by fastforce
  obtain reg dev evicted where c: "HandleAddressClaim (b_devices b1) (rx_Bus frame) (h_Source (rx_Header frame)) (rx_Data frame) = (reg, dev, evicted)"
    using prod_cases3 by blast
  have "b_requests b1 = None"
    using claim_virtual_stable [of b now frame] cv assms by (simp add: stable_def)
  then show ?thesis
    using cv c by (cases dev; cases evicted) (simp_all add: handle_claim_def Let_def no_engine_online no_engine_fields)
qed

text \<open>Without request rules no frame makes the broker panic.\<close>

lemma no_engine_handles:
  assumes "b_requests b = None" "b_requestPGNs b = None"
  obtains b' where "handleFrame rfc now frame b = Some b'"
proof -
  let ?p = "RecordPacket (b_devices b) (rx_Bus frame) (h_Source (rx_Header frame)) (rx_Timestamp frame) (length (rx_Data frame))"
  let ?b = "b\<lparr>b_devices := fst ?p\<rparr>"
  have "handle_product now frame ?b \<noteq> None"
    using assms(1) by (auto simp: handle_product_def Let_def no_engine_online no_engine_fields split: prod.split option.split)
  then have "discover now frame (snd ?p) ?b \<noteq> None"
    using no_engine_claim [of ?b now frame] assms(1) by (simp add: discover_def Let_def)
  then obtain b1 where d: "discover now frame (snd ?p) ?b = Some b1"
    by blast
  then have "b_requestPGNs b1 = None"
    using discover_frame [OF d] assms(2) by (auto simp: stable_def)
  then show thesis
    using that [of "store_frame rfc frame b1"] d by (simp add: handleFrame_def guarded_requests_def case_prod_beta)
qed

lemma silent_frames_run:
  assumes "silent b"
  shows "\<exists>b'. broker_run rfc (map (BFrame now) fs) b = Some b'"
  using assms unfolding broker_run_def
proof (induction fs arbitrary: b)
  case (Cons f fs)
  obtain b1 where b1: "handleFrame rfc now f b = Some b1"
    using Cons.prems by (auto simp: silent_def elim: no_engine_handles)
  then show ?case
    using Cons.IH [OF silent_frame [OF Cons.prems b1]] by simp
qed simp

text \<open>
  C17: A replica learns the devices of its source. When the frames that \<^verbatim>\<open>SynthesizeFrames\<close> makes of
  the registry of any reachable broker are handled by a fresh replica, it handles all of them, and
  then knows exactly the devices with a NAME, with the same identity and product information.
\<close>

theorem replica_learns_devices:
  assumes "NewBroker cfg = Some b0" "broker_run rfc ops b0 = Some b" "NewBroker rcfg = Some r0" "bc_ReplicaMode rcfg"
  shows "\<exists>r. broker_run rfc (map (BFrame now) (SynthesizeFrames (b_devices b) ts)) r0 = Some r \<and>
    map_option no_stats (DeviceRegistry_Get (b_devices r) bus src) =
      (case DeviceRegistry_Get (b_devices b) bus src of
         Some d \<Rightarrow> if d_NAME d = 0 then None else Some (no_stats (published d))
       | None \<Rightarrow> None)"
proof -
  have s: "silent r0"
    by (rule silent_new [OF assms(3,4)])
  obtain r where r: "broker_run rfc (map (BFrame now) (SynthesizeFrames (b_devices b) ts)) r0 = Some r"
    using silent_frames_run [OF s] by blast
  have "b_devices r0 = NewDeviceRegistry"
    using assms(3) by (rule NewBroker_cases)
      (simp add: configure_rules_def configure_virtual_def new_broker_state_def refreshRequestPGNs_def Let_def)
  then have "b_devices r = fold registry_frame (SynthesizeFrames (b_devices b) ts) NewDeviceRegistry"
    using frames_registry [OF r] s by (simp add: silent_def)
  moreover have "registry_ok (b_devices b)"
    using broker_ok_run [OF broker_ok_new [OF assms(1)] assms(2)] by (simp add: broker_ok_def)
  ultimately show ?thesis
    using r synthesized_rebuild [of "b_devices b" ts bus src] by auto
qed

section \<open>Sessions\<close>

lemma step_sessions:
  assumes "broker_step rfc op b = Some b'"
  shows "b_sessions b' =
    (case op of
       BTick now \<Rightarrow> b_sessions (expireSessions now b)
     | BCreateSession now sid d f \<Rightarrow> b_sessions (fst (CreateSession b now sid d f))
     | BTouch now sid \<Rightarrow> b_sessions (TouchSession b now sid)
     | BAck now sid seq \<Rightarrow> b_sessions (fst (AckSession b now sid seq))
     | _ \<Rightarrow> b_sessions b)"
proof (cases op)
  case (BFrame now frame)
  then show ?thesis
    using assms handleFrame_stable by auto
next
  case (BTick now)
  then show ?thesis
    using assms run_tick_stable by auto
qed (use assms in \<open>auto simp: run_start_def sendISORequest_nf start_virtual_def queueTxs_nf QueueTx_nf SendISORequest_nf AddRequestRule_same
      Subscribe_def Let_def unsubscribe_def take_msg_def broker_NewConsumer_def removeConsumer_def SetAlerts_def SetJournal_def
      split: option.splits prod.splits if_splits\<close>)

text \<open>The operations that leave session \<open>sid\<close>, last active at \<open>t\<close> with timeout \<open>d\<close>, alone.\<close>

fun keeps_session :: "string \<Rightarrow> gotime \<Rightarrow> duration \<Rightarrow> broker_op \<Rightarrow> bool" where
  "keeps_session sid t d (BTick now) \<longleftrightarrow> now \<le> t + d"
| "keeps_session sid t d (BTouch now s) \<longleftrightarrow> (s = sid \<longrightarrow> t \<le> now)"
| "keeps_session sid t d (BCreateSession _ s _ _) \<longleftrightarrow> s \<noteq> sid"
| "keeps_session sid t d (BAck _ s _) \<longleftrightarrow> s \<noteq> sid"
| "keeps_session sid t d _ \<longleftrightarrow> True"

definition session_at :: "u64 \<Rightarrow> gotime \<Rightarrow> duration \<Rightarrow> ClientSession option \<Rightarrow> bool" where
  "session_at seq t d s \<longleftrightarrow>
     (case s of None \<Rightarrow> False | Some s \<Rightarrow> cs_Cursor s = seq \<and> cs_BufferTimeout s = d \<and> t \<le> cs_LastActivity s)"

definition sessions_wf :: "Broker \<Rightarrow> bool" where
  "sessions_wf b \<longleftrightarrow> gm_wf (b_sessions b)"

lemma sessions_wf_step: "broker_step rfc op b = Some b' \<Longrightarrow> sessions_wf b \<Longrightarrow> sessions_wf b'"
  using step_sessions [of rfc op b b']
  by (cases op) (auto simp: sessions_wf_def expireSessions_def CreateSession_def TouchSession_def AckSession_def Let_def split: option.splits)

lemma session_not_expired:
  assumes "t \<le> la" "now \<le> t + d" "0 \<le> d"
  shows "\<not> time_Sub now la > d"
  using assms by (auto simp: time_Sub_def minDuration_def maxDuration_def)

lemma session_kept_step:
  assumes "session_at seq t d (GetSession b sid)" "sessions_wf b" "0 \<le> d" "keeps_session sid t d op" "broker_step rfc op b = Some b'"
  shows "session_at seq t d (GetSession b' sid)"
proof (cases op)
  case (BTick now)
  obtain s where s: "gm_get (b_sessions b) sid = Some s" "cs_BufferTimeout s = d" "t \<le> cs_LastActivity s"
    using assms(1) by (auto simp: session_at_def GetSession_def split: option.splits)
  then have "\<not> time_Sub now (cs_LastActivity s) > cs_BufferTimeout s"
    using session_not_expired [of t "cs_LastActivity s" now d] assms(3,4) BTick by simp
  then show ?thesis
    using step_sessions [OF assms(5)] assms(1,2) s BTick
    by (simp add: session_at_def GetSession_def expireSessions_def sessions_wf_def gm_get_del_if)
qed (use step_sessions [OF assms(5)] assms in \<open>auto simp: session_at_def GetSession_def CreateSession_def TouchSession_def AckSession_def Let_def split: option.splits if_splits\<close>)

lemma sessions_wf_run: "broker_run rfc ops b = Some b' \<Longrightarrow> sessions_wf b \<Longrightarrow> sessions_wf b'"
  unfolding broker_run_def by (induction ops arbitrary: b) (auto split: option.splits dest: sessions_wf_step)

lemma sessions_wf_new: "NewBroker cfg = Some b \<Longrightarrow> sessions_wf b"
  by (erule NewBroker_cases)
     (simp add: sessions_wf_def configure_rules_def configure_virtual_def new_broker_state_def refreshRequestPGNs_def Let_def)


text \<open>
  C20: Unknown sessions are refused. An ACK fails with \<^verbatim>\<open>SessionNotFoundError\<close> exactly if no session of
  that name was created, or it was inactive for longer than its timeout when the ticker last ran; a
  failed ACK changes nothing. In particular, after a run of the ticker at \<open>now\<close> every session left is
  within its timeout.
\<close>

theorem expired_session_refused:
  assumes "NewBroker cfg = Some b0" "broker_run rfc ops b0 = Some b" "run_tick now b = Some b1"
  shows "AckSession b1 t sid seq = (b1, Some (SessionNotFound sid)) \<longleftrightarrow>
    (case GetSession b sid of None \<Rightarrow> True | Some s \<Rightarrow> time_Sub now (cs_LastActivity s) > cs_BufferTimeout s)"
proof -
  have "gm_wf (b_sessions b)"
    using sessions_wf_run [OF assms(2) sessions_wf_new [OF assms(1)]] by (simp add: sessions_wf_def)
  moreover have "b_sessions b1 = b_sessions (expireSessions now b)"
    using run_tick_stable [OF assms(3)] by simp
  ultimately show ?thesis
    by (auto simp: AckSession_def GetSession_def expireSessions_def gm_get_del_if split: option.splits)
qed

section \<open>Witnesses\<close>

definition sample_cfg :: BrokerConfig where
  "sample_cfg = \<lparr>bc_RingSize = 4, bc_MaxBufferDuration = 0, bc_JournalDir = [], bc_ReplicaMode = False, bc_InitialHead = 0,
     bc_DeviceIdleTimeout = 0, bc_VirtualDevices = [], bc_ClaimHeartbeat = 0, bc_ProductInfoHeartbeat = 0,
     bc_RequestRules = [sample_rule], bc_RequestGlobalMinInterval = 0\<rparr>"

definition sample_frame :: "u32 \<Rightarrow> RxFrame" where
  "sample_frame pgn = \<lparr>rx_Timestamp = 1000, rx_Header = \<lparr>h_Priority = 6, h_PGN = pgn, h_Source = 7, h_Destination = 255\<rparr>,
     rx_Data = [1, 2, 3], rx_Bus = ''can0'', rx_Seq = 0\<rparr>"

definition sample_rfc :: "gotime \<Rightarrow> string" where
  "sample_rfc t = FormatInt t"

definition sample_ops :: "broker_op list" where
  "sample_ops = [BStart, BSubscribe 1 None, BFrame 1000 (sample_frame 127508), BFrame 1001 (sample_frame 127509),
     BCreateSession 1002 ''cl'' 500 None]"

definition sample_broker0 :: Broker where
  "sample_broker0 = the (NewBroker sample_cfg)"

definition sample_broker :: Broker where
  "sample_broker = the (broker_run sample_rfc sample_ops sample_broker0)"

lemma sample_broker0_new: "NewBroker sample_cfg = Some sample_broker0"
  by code_simp

lemma sample_broker_run: "broker_run sample_rfc sample_ops sample_broker0 = Some sample_broker"
  by code_simp


theorem values_of_known_devices_witness:
  "gm_get (b_values sample_broker) \<lparr>vk_Bus = ''can0'', vk_Source = 7, vk_PGN = 127508\<rparr> \<noteq> None \<and>
   DeviceRegistry_Get (b_devices sample_broker) ''can0'' 7 \<noteq> None"
proof
  show v: "gm_get (b_values sample_broker) \<lparr>vk_Bus = ''can0'', vk_Source = 7, vk_PGN = 127508\<rparr> \<noteq> None"
    by code_simp
  then show "DeviceRegistry_Get (b_devices sample_broker) ''can0'' 7 \<noteq> None"
    using values_of_known_devices [OF sample_broker0_new sample_broker_run, of "\<lparr>vk_Bus = ''can0'', vk_Source = 7, vk_PGN = 127508\<rparr>"] by fastforce
qed

theorem prefilter_transparent_witness:
  "b_requests sample_broker \<noteq> None \<and>
   guarded_requests 2000 (sample_frame 127508) sample_broker = engine_frame 2000 (sample_frame 127508) sample_broker"
proof
  show "b_requests sample_broker \<noteq> None"
    by code_simp
  then show "guarded_requests 2000 (sample_frame 127508) sample_broker = engine_frame 2000 (sample_frame 127508) sample_broker"
    using prefilter_transparent [OF sample_broker0_new sample_broker_run] by auto
qed

theorem frames_numbered_consecutively_witness:
  "readEntry (b_ring sample_broker) 2 = Some (ring_entry sample_rfc (sample_frame 127509) 2) \<and> readEntry (b_ring sample_broker) 3 = None"
proof -
  have "frames_of sample_ops = [sample_frame 127508, sample_frame 127509]"
    by (simp add: frames_of_def sample_ops_def)
  then show ?thesis
    using frames_numbered_consecutively [OF sample_broker0_new sample_broker_run _ _ refl refl _ refl, of 2]
      frames_numbered_consecutively [OF sample_broker0_new sample_broker_run _ _ refl refl _ refl, of 3]
    by (simp add: sample_cfg_def)
qed

definition sample_rcfg :: BrokerConfig where
  "sample_rcfg = sample_cfg\<lparr>bc_ReplicaMode := True\<rparr>"

definition sample_replica0 :: Broker where
  "sample_replica0 = the (NewBroker sample_rcfg)"

lemma sample_replica0_new: "NewBroker sample_rcfg = Some sample_replica0"
  by code_simp

definition sample_replica :: Broker where
  "sample_replica = the (broker_run sample_rfc [BStart, BFrame 1000 (sample_frame 127508), BTick 2000] sample_replica0)"

theorem replica_never_transmits_witness:
  "broker_run sample_rfc [BStart, BFrame 1000 (sample_frame 127508), BTick 2000] sample_replica0 = Some sample_replica \<and> b_txFrames sample_replica = []"
proof
  show r: "broker_run sample_rfc [BStart, BFrame 1000 (sample_frame 127508), BTick 2000] sample_replica0 = Some sample_replica"
    by code_simp
  show "b_txFrames sample_replica = []"
    by (rule replica_never_transmits [OF sample_replica0_new _ r]) (simp_all add: sample_rcfg_def)
qed

definition claim_ops :: "broker_op list" where
  "claim_ops = [BFrame 1000 ((sample_frame 60928)\<lparr>rx_Data := [1, 0, 0, 0, 0, 0, 0, 0]\<rparr>)]"

definition claim_broker :: Broker where
  "claim_broker = the (broker_run sample_rfc claim_ops sample_broker0)"

theorem replica_learns_devices_witness:
  "\<exists>r. broker_run sample_rfc (map (BFrame 5) (SynthesizeFrames (b_devices claim_broker) 5)) sample_replica0 = Some r \<and>
     map_option d_NAME (DeviceRegistry_Get (b_devices r) ''can0'' 7) = Some 1"
proof -
  have run: "broker_run sample_rfc claim_ops sample_broker0 = Some claim_broker"
    by code_simp
  obtain d where d: "DeviceRegistry_Get (b_devices claim_broker) ''can0'' 7 = Some d" "d_NAME d = 1"
  proof -
    have "map_option d_NAME (DeviceRegistry_Get (b_devices claim_broker) ''can0'' 7) = Some 1"
      by code_simp
    then show thesis
      using that by auto
  qed
  obtain r where r: "broker_run sample_rfc (map (BFrame 5) (SynthesizeFrames (b_devices claim_broker) 5)) sample_replica0 = Some r"
    "map_option no_stats (DeviceRegistry_Get (b_devices r) ''can0'' 7) = Some (no_stats (published d))"
    using replica_learns_devices [OF sample_broker0_new run sample_replica0_new, of 5 5 "''can0''" 7] d by (auto simp: sample_rcfg_def)
  then obtain d' where d': "DeviceRegistry_Get (b_devices r) ''can0'' 7 = Some d'" "no_stats d' = no_stats (published d)"
    by auto
  have "d_NAME (no_stats d') = 1"
    unfolding d'(2) using d(2) by (simp add: no_stats_def published_def)
  then show ?thesis
    using r(1) d'(1) by (auto simp: no_stats_def)
qed

definition acked_broker :: Broker where
  "acked_broker = fst (AckSession sample_broker 1010 ''cl'' 2)"


theorem expired_session_refused_witness:
  "snd (AckSession (the (run_tick 2000 sample_broker)) 2001 ''cl'' 1) = Some (SessionNotFound ''cl'')"
proof -
  have "run_tick 2000 sample_broker \<noteq> None"
    by code_simp
  then obtain b where b: "run_tick 2000 sample_broker = Some b"
    by blast
  have "case GetSession sample_broker ''cl'' of None \<Rightarrow> True | Some s \<Rightarrow> time_Sub 2000 (cs_LastActivity s) > cs_BufferTimeout s"
    by code_simp
  then show ?thesis
    using expired_session_refused [OF sample_broker0_new sample_broker_run b, of 2001 "''cl''" 1] b by simp
qed

end
