(* ===== verification/FilterParse.thy ===== *)
theory FilterParse
  imports Float64
begin

text \<open>
  The display filter language (\<^verbatim>\<open>filter/parse.go\<close>): AST, lexer and recursive descent parser. The lexer
  works on the rest of the input and its position, the parser on the rest of the tokens. The parser's
  functions carry fuel; \<open>parse_fuel\<close> is enough for every token list (\<open>parser_terminates\<close>), so \<open>parse\<close>
  never runs out of it.
\<close>

section \<open>Syntax trees\<close>

record fieldRef =
  fr_name :: string
  fr_subName :: string

datatype compOp = opEq | opNe | opLt | opGt | opLe | opGe

fun compOp_String :: "compOp \<Rightarrow> string" where
  "compOp_String opEq = ''==''"
| "compOp_String opNe = ''!=''"
| "compOp_String opLt = ''<''"
| "compOp_String opGt = ''>''"
| "compOp_String opLe = ''<=''"
| "compOp_String opGe = ''>=''"

datatype literal = LInt int | LFloat f64 | LString string

datatype node =
  orNode node node
| andNode node node
| notNode node
| compNode fieldRef compOp literal

section \<open>Lexer\<close>

datatype tokenType =
  tokEOF | tokIdent | tokInt | tokFloat | tokString | tokLParen | tokRParen | tokDot
| tokEq | tokNe | tokLt | tokGt | tokLe | tokGe | tokAnd | tokOr | tokNot

record token =
  t_typ :: tokenType
  t_val :: string
  t_pos :: int

datatype parse_error =
  UnexpectedCharacter char nat
| UnterminatedString nat
| UnexpectedToken string int
| ExpectedRParen int
| ExpectedFieldName int string
| ExpectedSubField int
| ExpectedOperator int string
| ExpectedValue int string
| InvalidInteger string num_error
| InvalidFloat string num_error

definition isDigit :: "char \<Rightarrow> bool" where
  "isDigit c \<longleftrightarrow> is_digit_char c"

definition isIdentStart :: "char \<Rightarrow> bool" where
  "isIdentStart c \<longleftrightarrow> 97 \<le> bcode c \<and> bcode c \<le> 122 \<or> 65 \<le> bcode c \<and> bcode c \<le> 90 \<or> c = CHR ''_''"

definition isIdentPart :: "char \<Rightarrow> bool" where
  "isIdentPart c \<longleftrightarrow> isIdentStart c \<or> isDigit c"

text \<open>\<^verbatim>\<open>unicode.IsSpace\<close> of a single byte.\<close>

definition isSpaceByte :: "char \<Rightarrow> bool" where
  "isSpaceByte c \<longleftrightarrow> bcode c \<in> {9, 10, 11, 12, 13, 32, 0x85, 0xA0}"

definition mk_token :: "tokenType \<Rightarrow> string \<Rightarrow> nat \<Rightarrow> token" where
  "mk_token ty v start = \<lparr>t_typ = ty, t_val = v, t_pos = int start\<rparr>"

text \<open>The body of a string, after the opening quote: its value and the input after the closing quote.\<close>

fun string_body :: "char \<Rightarrow> string \<Rightarrow> (string \<times> string) option" where
  "string_body quote [] = None"
| "string_body quote [c] = (if c = quote then Some ([], []) else None)"
| "string_body quote (c # d # s) =
     (if c = CHR 0x5C then map_option (\<lambda>(v, rest). (d # v, rest)) (string_body quote s)
      else if c = quote then Some ([], d # s)
      else map_option (\<lambda>(v, rest). (c # v, rest)) (string_body quote (d # s)))"

definition number_text :: "string \<Rightarrow> string" where
  "number_text s =
     (let sign = (if s \<noteq> [] \<and> hd s = CHR ''-'' then [CHR ''-''] else [])
      in sign @ takeWhile (\<lambda>c. isDigit c \<or> c = CHR ''.'') (drop (length sign) s))"

definition number_token :: "string \<Rightarrow> nat \<Rightarrow> token" where
  "number_token v start = mk_token (if CHR ''.'' \<in> set v then tokFloat else tokInt) v start"

definition ident_token :: "string \<Rightarrow> nat \<Rightarrow> token" where
  "ident_token v start =
     mk_token (if v = ''and'' then tokAnd else if v = ''or'' then tokOr else if v = ''not'' then tokNot else tokIdent) v start"

text \<open>
  One token from a non-empty rest of the input that does not start with white space: the token and
  how many characters it takes.
\<close>

definition symbol_token :: "char \<Rightarrow> char \<Rightarrow> (tokenType \<times> string) option" where
  "symbol_token ch pk =
     (if ch = CHR ''('' then Some (tokLParen, ''('')
      else if ch = CHR '')'' then Some (tokRParen, '')'')
      else if ch = CHR ''.'' then Some (tokDot, ''.'')
      else if ch = CHR ''!'' \<and> pk = CHR ''='' then Some (tokNe, ''!='')
      else if ch = CHR ''!'' then Some (tokNot, ''!'')
      else if ch = CHR ''='' \<and> pk = CHR ''='' then Some (tokEq, ''=='')
      else if ch = CHR ''<'' \<and> pk = CHR ''='' then Some (tokLe, ''<='')
      else if ch = CHR ''<'' then Some (tokLt, ''<'')
      else if ch = CHR ''>'' \<and> pk = CHR ''='' then Some (tokGe, ''>='')
      else if ch = CHR ''>'' then Some (tokGt, ''>'')
      else if ch = CHR ''&'' \<and> pk = CHR ''&'' then Some (tokAnd, ''&&'')
      else if ch = CHR ''|'' \<and> pk = CHR ''|'' then Some (tokOr, ''||'')
      else None)"

definition peek :: "string \<Rightarrow> char" where
  "peek s = (case tl s of [] \<Rightarrow> CHR 0x00 | c # _ \<Rightarrow> c)"

definition one_token :: "nat \<Rightarrow> string \<Rightarrow> parse_error + token \<times> nat" where
  "one_token pos s =
     (let ch = hd s
      in case symbol_token ch (peek s) of
           Some (ty, v) \<Rightarrow> Inr (mk_token ty v pos, length v)
         | None \<Rightarrow>
             if ch = CHR 0x22 \<or> ch = CHR 0x27 then
               (case string_body ch (tl s) of
                  None \<Rightarrow> Inl (UnterminatedString pos)
                | Some (v, rest) \<Rightarrow> Inr (mk_token tokString v pos, length s - length rest))
             else if ch = CHR ''-'' \<or> isDigit ch then
               let v = number_text s in Inr (number_token v pos, length v)
             else if isIdentStart ch then
               let v = takeWhile isIdentPart s in Inr (ident_token v pos, length v)
             else Inl (UnexpectedCharacter ch pos))"

lemma string_body_length: "string_body q s = Some (v, rest) \<Longrightarrow> length rest < length s"
  by (induction q s arbitrary: v rule: string_body.induct) (fastforce split: if_splits)+

lemma number_text_pos:
  assumes "s \<noteq> []" "hd s = CHR ''-'' \<or> isDigit (hd s)"
  shows "0 < length (number_text s)"
  using assms by (cases s) (auto simp: number_text_def Let_def)

lemma symbol_token_pos: "symbol_token ch pk = Some (ty, v) \<Longrightarrow> 0 < length v"
proof -
  have "case symbol_token ch pk of None \<Rightarrow> True | Some (ty, v) \<Rightarrow> 0 < length v"
    unfolding symbol_token_def by (simp only: option.case prod.case list.size One_nat_def simp_thms zero_less_Suc add_Suc_right split: if_split)
  then show "symbol_token ch pk = Some (ty, v) \<Longrightarrow> 0 < length v"
    by simp
qed

lemma ident_text_pos: "s \<noteq> [] \<Longrightarrow> isIdentStart (hd s) \<Longrightarrow> 0 < length (takeWhile isIdentPart s)"
  by (cases s) (simp_all add: isIdentPart_def)

lemma one_token_pos:
  assumes "s \<noteq> []" "one_token pos s = Inr (t, n)"
  shows "0 < n"
proof (cases "symbol_token (hd s) (peek s)")
  case None
  have "length rest < length s" if "string_body (hd s) (tl s) = Some (v, rest)" for v rest
    using string_body_length [OF that] by simp
  then show ?thesis
    using assms None number_text_pos [OF assms(1)] ident_text_pos [OF assms(1)]
    by (simp add: one_token_def Let_def split: if_split_asm option.splits prod.splits) (metis zero_less_diff, force, force)
next
  case (Some x)
  then show ?thesis
    using assms symbol_token_pos [of "hd s" "peek s"] by (cases x) (auto simp: one_token_def)
qed

function scan :: "nat \<Rightarrow> string \<Rightarrow> parse_error + token list" where
  "scan pos s =
     (let ws = length (takeWhile isSpaceByte s); pos' = pos + ws; s' = drop ws s
      in if s' = [] then Inr [mk_token tokEOF [] pos']
         else case one_token pos' s' of
                Inl e \<Rightarrow> Inl e
              | Inr (t, n) \<Rightarrow>
                  (case scan (pos' + n) (drop n s') of Inl e \<Rightarrow> Inl e | Inr ts \<Rightarrow> Inr (t # ts)))"
  by pat_completeness auto

termination
proof (relation "measure (\<lambda>(pos, s). length s)")
  fix pos s ws pos' s' x t n
  assume "(ws :: nat) = length (takeWhile isSpaceByte s)" "pos' = pos + ws" "s' = drop ws s" "s' \<noteq> []"
    and "one_token pos' s' = Inr x" "(t, n) = x"
  then have "0 < n" "s \<noteq> []"
    using one_token_pos [of s' pos' t n] by auto
  then show "((pos' + n, drop n s'), (pos, s)) \<in> measure (\<lambda>(pos, s). length s)"
    using \<open>s' = drop ws s\<close> by simp
qed simp

definition lex :: "string \<Rightarrow> parse_error + token list" where
  "lex input = scan 0 input"

section \<open>Parser\<close>

definition current :: "token list \<Rightarrow> token" where
  "current ts = (case ts of [] \<Rightarrow> \<lparr>t_typ = tokEOF, t_val = [], t_pos = - 1\<rparr> | t # _ \<Rightarrow> t)"

definition advance :: "token list \<Rightarrow> token list" where
  "advance ts = tl ts"

type_synonym 'a presult = "parse_error + 'a \<times> token list"

definition parseCompOp :: "token list \<Rightarrow> compOp presult" where
  "parseCompOp ts =
     (case t_typ (current ts) of
        tokEq \<Rightarrow> Inr (opEq, advance ts)
      | tokNe \<Rightarrow> Inr (opNe, advance ts)
      | tokLt \<Rightarrow> Inr (opLt, advance ts)
      | tokGt \<Rightarrow> Inr (opGt, advance ts)
      | tokLe \<Rightarrow> Inr (opLe, advance ts)
      | tokGe \<Rightarrow> Inr (opGe, advance ts)
      | _ \<Rightarrow> Inl (ExpectedOperator (t_pos (current ts)) (t_val (current ts))))"

definition parseValue :: "token list \<Rightarrow> literal presult" where
  "parseValue ts =
     (let t = current ts
      in case t_typ t of
           tokInt \<Rightarrow>
             (case ParseInt64 (t_val t) of Inl e \<Rightarrow> Inl (InvalidInteger (t_val t) e) | Inr v \<Rightarrow> Inr (LInt v, advance ts))
         | tokFloat \<Rightarrow>
             (case ParseFloat64 (t_val t) of Inl e \<Rightarrow> Inl (InvalidFloat (t_val t) e) | Inr v \<Rightarrow> Inr (LFloat v, advance ts))
         | tokString \<Rightarrow> Inr (LString (t_val t), advance ts)
         | _ \<Rightarrow> Inl (ExpectedValue (t_pos t) (t_val t)))"

definition parse_field :: "token list \<Rightarrow> fieldRef presult" where
  "parse_field ts =
     (if t_typ (current ts) \<noteq> tokIdent then Inl (ExpectedFieldName (t_pos (current ts)) (t_val (current ts)))
      else
        let name = t_val (current ts); ts1 = advance ts
        in if t_typ (current ts1) = tokDot then
             let ts2 = advance ts1
             in if t_typ (current ts2) \<noteq> tokIdent then Inl (ExpectedSubField (t_pos (current ts2)))
                else Inr (\<lparr>fr_name = name, fr_subName = t_val (current ts2)\<rparr>, advance ts2)
           else Inr (\<lparr>fr_name = name, fr_subName = []\<rparr>, ts1))"

definition parseComparison :: "token list \<Rightarrow> node presult" where
  "parseComparison ts =
     (case parse_field ts of
        Inl e \<Rightarrow> Inl e
      | Inr (field, ts1) \<Rightarrow>
          (case parseCompOp ts1 of
             Inl e \<Rightarrow> Inl e
           | Inr (cop, ts2) \<Rightarrow>
               (case parseValue ts2 of
                  Inl e \<Rightarrow> Inl e
                | Inr (val, ts3) \<Rightarrow> Inr (compNode field cop val, ts3))))"

text \<open>\<open>None\<close>: out of fuel. \<open>orLoop\<close> and \<open>andLoop\<close> are the loops of \<^verbatim>\<open>parseOr\<close> and \<^verbatim>\<open>parseAnd\<close>.\<close>

fun parseOr :: "nat \<Rightarrow> token list \<Rightarrow> node presult option"
  and orLoop :: "nat \<Rightarrow> node \<Rightarrow> token list \<Rightarrow> node presult option"
  and parseAnd :: "nat \<Rightarrow> token list \<Rightarrow> node presult option"
  and andLoop :: "nat \<Rightarrow> node \<Rightarrow> token list \<Rightarrow> node presult option"
  and parseUnary :: "nat \<Rightarrow> token list \<Rightarrow> node presult option"
  and parsePrimary :: "nat \<Rightarrow> token list \<Rightarrow> node presult option"
where
  "parseOr 0 ts = None"
| "parseOr (Suc n) ts =
     (case parseAnd n ts of
        None \<Rightarrow> None
      | Some (Inl e) \<Rightarrow> Some (Inl e)
      | Some (Inr (left, ts1)) \<Rightarrow> orLoop n left ts1)"
| "orLoop 0 left ts = None"
| "orLoop (Suc n) left ts =
     (if t_typ (current ts) = tokOr then
        (case parseAnd n (advance ts) of
           None \<Rightarrow> None
         | Some (Inl e) \<Rightarrow> Some (Inl e)
         | Some (Inr (right, ts1)) \<Rightarrow> orLoop n (orNode left right) ts1)
      else Some (Inr (left, ts)))"
| "parseAnd 0 ts = None"
| "parseAnd (Suc n) ts =
     (case parseUnary n ts of
        None \<Rightarrow> None
      | Some (Inl e) \<Rightarrow> Some (Inl e)
      | Some (Inr (left, ts1)) \<Rightarrow> andLoop n left ts1)"
| "andLoop 0 left ts = None"
| "andLoop (Suc n) left ts =
     (if t_typ (current ts) = tokAnd then
        (case parseUnary n (advance ts) of
           None \<Rightarrow> None
         | Some (Inl e) \<Rightarrow> Some (Inl e)
         | Some (Inr (right, ts1)) \<Rightarrow> andLoop n (andNode left right) ts1)
      else Some (Inr (left, ts)))"
| "parseUnary 0 ts = None"
| "parseUnary (Suc n) ts =
     (if t_typ (current ts) = tokNot then
        (case parseUnary n (advance ts) of
           None \<Rightarrow> None
         | Some (Inl e) \<Rightarrow> Some (Inl e)
         | Some (Inr (e, ts1)) \<Rightarrow> Some (Inr (notNode e, ts1)))
      else parsePrimary n ts)"
| "parsePrimary 0 ts = None"
| "parsePrimary (Suc n) ts =
     (if t_typ (current ts) = tokLParen then
        (case parseOr n (advance ts) of
           None \<Rightarrow> None
         | Some (Inl e) \<Rightarrow> Some (Inl e)
         | Some (Inr (e, ts1)) \<Rightarrow>
             if t_typ (current ts1) \<noteq> tokRParen then Some (Inl (ExpectedRParen (t_pos (current ts1))))
             else Some (Inr (e, advance ts1)))
      else Some (parseComparison ts))"

definition parse_fuel :: "token list \<Rightarrow> nat" where
  "parse_fuel ts = 6 * length ts + 4"

definition parse :: "string \<Rightarrow> (parse_error + node) option" where
  "parse input =
     (case lex input of
        Inl e \<Rightarrow> Some (Inl e)
      | Inr ts \<Rightarrow>
          (case parseOr (parse_fuel ts) ts of
             None \<Rightarrow> None
           | Some (Inl e) \<Rightarrow> Some (Inl e)
           | Some (Inr (n, ts1)) \<Rightarrow>
               if t_typ (current ts1) \<noteq> tokEOF then Some (Inl (UnexpectedToken (t_val (current ts1)) (t_pos (current ts1))))
               else Some (Inr n)))"

section \<open>The parser terminates\<close>

lemma advance_shrinks: "t_typ (current ts) \<noteq> tokEOF \<Longrightarrow> length (advance ts) < length ts"
  by (cases ts) (auto simp: current_def advance_def)

lemma parse_field_shrinks: "parse_field ts = Inr (x, ts') \<Longrightarrow> length ts' < length ts"
  using advance_shrinks [of ts] advance_shrinks [of "advance ts"] advance_shrinks [of "advance (advance ts)"]
  by (auto simp: parse_field_def Let_def split: if_splits)

lemma parseCompOp_shrinks: "parseCompOp ts = Inr (x, ts') \<Longrightarrow> length ts' < length ts"
  using advance_shrinks [of ts] by (auto simp: parseCompOp_def split: tokenType.splits)

lemma parseValue_shrinks: "parseValue ts = Inr (x, ts') \<Longrightarrow> length ts' < length ts"
  using advance_shrinks [of ts] by (auto simp: parseValue_def Let_def split: tokenType.splits sum.splits)

lemma parseComparison_shrinks: "parseComparison ts = Inr (x, ts') \<Longrightarrow> length ts' < length ts"
  by (auto simp: parseComparison_def split: sum.splits dest!: parse_field_shrinks parseCompOp_shrinks parseValue_shrinks)

text \<open>A call that ends, with less than \<open>k\<close> tokens left if it succeeds.\<close>

definition ends_below :: "nat \<Rightarrow> node presult option \<Rightarrow> bool" where
  "ends_below k r = (case r of None \<Rightarrow> False | Some (Inl _) \<Rightarrow> True | Some (Inr (_, ts)) \<Rightarrow> length ts < k)"

lemma ends_below_simps [simp]:
  "\<not> ends_below k None" "ends_below k (Some (Inl e))" "ends_below k (Some (Inr (x, ts))) \<longleftrightarrow> length ts < k"
  by (simp_all add: ends_below_def)

lemma ends_below_cases:
  assumes "ends_below k r"
  obtains e where "r = Some (Inl e)" | x ts where "r = Some (Inr (x, ts))" "length ts < k"
  using assms by (auto simp: ends_below_def split: option.splits sum.splits)

lemma ends_below_mono: "ends_below k r \<Longrightarrow> k \<le> m \<Longrightarrow> ends_below m r"
  by (auto simp: ends_below_def split: option.splits sum.splits)

lemma parser_ends:
  "(\<forall>ts. 6 * length ts + 4 \<le> n \<longrightarrow> ends_below (length ts) (parseOr n ts)) \<and>
   (\<forall>ts l. 6 * length ts + 1 \<le> n \<longrightarrow> ends_below (Suc (length ts)) (orLoop n l ts)) \<and>
   (\<forall>ts. 6 * length ts + 3 \<le> n \<longrightarrow> ends_below (length ts) (parseAnd n ts)) \<and>
   (\<forall>ts l. 6 * length ts + 1 \<le> n \<longrightarrow> ends_below (Suc (length ts)) (andLoop n l ts)) \<and>
   (\<forall>ts. 6 * length ts + 2 \<le> n \<longrightarrow> ends_below (length ts) (parseUnary n ts)) \<and>
   (\<forall>ts. 6 * length ts + 1 \<le> n \<longrightarrow> ends_below (length ts) (parsePrimary n ts))"
proof (induction n)
  case (Suc n)
  then have orI: "\<And>ts. 6 * length ts + 4 \<le> n \<Longrightarrow> ends_below (length ts) (parseOr n ts)"
    and orLI: "\<And>ts l. 6 * length ts + 1 \<le> n \<Longrightarrow> ends_below (Suc (length ts)) (orLoop n l ts)"
    and andI: "\<And>ts. 6 * length ts + 3 \<le> n \<Longrightarrow> ends_below (length ts) (parseAnd n ts)"
    and andLI: "\<And>ts l. 6 * length ts + 1 \<le> n \<Longrightarrow> ends_below (Suc (length ts)) (andLoop n l ts)"
    and unI: "\<And>ts. 6 * length ts + 2 \<le> n \<Longrightarrow> ends_below (length ts) (parseUnary n ts)"
    and prI: "\<And>ts. 6 * length ts + 1 \<le> n \<Longrightarrow> ends_below (length ts) (parsePrimary n ts)"
    by blast+
  have or: "ends_below (length ts) (parseOr (Suc n) ts)" if "6 * length ts + 4 \<le> Suc n" for ts
    by (rule ends_below_cases [OF andI [of ts]]) (use that orLI in \<open>auto intro!: ends_below_mono [OF orLI]\<close>)
  have orL: "ends_below (Suc (length ts)) (orLoop (Suc n) l ts)" if "6 * length ts + 1 \<le> Suc n" for ts l
  proof (cases "t_typ (current ts) = tokOr")
    case True
    then have a: "length (advance ts) < length ts"
      by (intro advance_shrinks) simp
    show ?thesis
      by (rule ends_below_cases [OF andI [of "advance ts"]]) (use that a True in \<open>auto intro!: ends_below_mono [OF orLI]\<close>)
  qed simp
  have and1: "ends_below (length ts) (parseAnd (Suc n) ts)" if "6 * length ts + 3 \<le> Suc n" for ts
    by (rule ends_below_cases [OF unI [of ts]]) (use that in \<open>auto intro!: ends_below_mono [OF andLI]\<close>)
  have andL: "ends_below (Suc (length ts)) (andLoop (Suc n) l ts)" if "6 * length ts + 1 \<le> Suc n" for ts l
  proof (cases "t_typ (current ts) = tokAnd")
    case True
    then have a: "length (advance ts) < length ts"
      by (intro advance_shrinks) simp
    show ?thesis
      by (rule ends_below_cases [OF unI [of "advance ts"]]) (use that a True in \<open>auto intro!: ends_below_mono [OF andLI]\<close>)
  qed simp
  have un: "ends_below (length ts) (parseUnary (Suc n) ts)" if "6 * length ts + 2 \<le> Suc n" for ts
  proof (cases "t_typ (current ts) = tokNot")
    case True
    then have a: "length (advance ts) < length ts"
      by (intro advance_shrinks) simp
    show ?thesis
      by (rule ends_below_cases [OF unI [of "advance ts"]]) (use that a True in auto)
  qed (use that prI in simp)
  have pr: "ends_below (length ts) (parsePrimary (Suc n) ts)" if "6 * length ts + 1 \<le> Suc n" for ts
  proof (cases "t_typ (current ts) = tokLParen")
    case True
    then have a: "length (advance ts) < length ts"
      by (intro advance_shrinks) simp
    show ?thesis
      by (rule ends_below_cases [OF orI [of "advance ts"]]) (use that a True in \<open>auto simp: advance_def\<close>)
  next
    case False
    then show ?thesis
      by (cases "parseComparison ts") (auto dest: parseComparison_shrinks)
  qed
  show ?case
    using or orL and1 andL un pr by blast
qed simp

text \<open>
  C26: Compiling a filter always ends. For every input string the parser comes to a verdict, a syntax
  tree or an error, with the fuel it is given (six units per token and four more).
\<close>

theorem filter_parse_terminates: "\<exists>r. parse input = Some r"
proof (cases "lex input")
  case (Inr ts)
  have "ends_below (length ts) (parseOr (parse_fuel ts) ts)"
    using parser_ends [of "parse_fuel ts"] by (simp add: parse_fuel_def)
  then show ?thesis
    by (rule ends_below_cases) (auto simp: parse_def Inr)
qed (simp add: parse_def)

end
