(* ===== verification/FilterEval.thy ===== *)
theory FilterEval
  imports FilterParse Pgn "HOL-Library.List_Lexorder" "HOL-Library.Char_ord"
begin

text \<open>
  Evaluation and printing of display filters (\<^verbatim>\<open>filter/filter.go\<close>): \<^verbatim>\<open>Compile\<close>, \<^verbatim>\<open>Match\<close>, \<^verbatim>\<open>NeedsDecode\<close>,
  \<^verbatim>\<open>String\<close>. A decoded packet is the reflection tree of theory \<open>Pgn\<close>. The cache of field indices is
  an optimisation without effect on results and is left out. The theorems: filters that do not need
  decoding do not look at the decoded packet, comparisons of header fields are exact although they
  go through \<^verbatim>\<open>float64\<close>.
\<close>

section \<open>Printing of floats\<close>

text \<open>
  \<^verbatim>\<open>strconv.FormatFloat(x, 'g', -1, 64)\<close>: the shortest decimal that reads back as \<open>x\<close>, in scientific
  notation if its exponent is below -4 or at least 6 (the precision \<^verbatim>\<open>strconv\<close> assumes for shortest output).
\<close>

definition pow10i :: "int \<Rightarrow> rat" where
  "pow10i e = (if e \<ge> 0 then 10 ^ nat e else 1 / 10 ^ nat (- e))"

definition ilog10 :: "rat \<Rightarrow> int" where
  "ilog10 q =
     (let e0 = ilog2 q * 30103 div 100000
      in case find (\<lambda>e. pow10i e \<le> q \<and> q < pow10i (e + 1)) [e0 - 1, e0, e0 + 1, e0 + 2] of Some e \<Rightarrow> e | None \<Rightarrow> e0)"

definition digits_at :: "rat \<Rightarrow> int \<Rightarrow> nat \<Rightarrow> int option" where
  "digits_at q e nd =
     (let scale = pow10i (e - int nd + 1); x = q / scale; lo = \<lfloor>x\<rfloor>; hi = lo + 1;
          ok = (\<lambda>c. f64_of_rat (of_int c * scale) = FFin q)
      in if ok lo \<and> (\<not> ok hi \<or> x - of_int lo \<le> of_int hi - x) then Some lo
         else if ok hi then Some hi
         else None)"

definition shortest :: "rat \<Rightarrow> string \<times> int" where
  "shortest q =
     (let e = ilog10 q
      in case List.find (\<lambda>nd. digits_at q e nd \<noteq> None) [1..<18] of
           Some nd \<Rightarrow>
             let c = the (digits_at q e nd) in if c = 10 ^ nd then (''1'', e + 1) else (FormatUint 10 (nat c), e)
         | None \<Rightarrow> ([], e))"

definition format_exp :: "string \<Rightarrow> int \<Rightarrow> string" where
  "format_exp ds e =
     (let frac = tl ds; n = FormatUint 10 (nat \<bar>e\<bar>)
      in [hd ds] @ (if frac = [] then [] else CHR ''.'' # frac) @ ''e'' @ (if e < 0 then ''-'' else ''+'')
         @ (if \<bar>e\<bar> < 10 then CHR ''0'' # n else n))"

definition format_fixed :: "string \<Rightarrow> int \<Rightarrow> string" where
  "format_fixed ds e =
     (let dp = e + 1; nd = length ds
      in if dp \<le> 0 then ''0.'' @ replicate (nat (- dp)) (CHR ''0'') @ ds
         else if nat dp < nd then take (nat dp) ds @ ''.'' @ drop (nat dp) ds
         else ds @ replicate (nat dp - nd) (CHR ''0''))"

definition format_pos :: "rat \<Rightarrow> string" where
  "format_pos q = (case shortest q of (ds, e) \<Rightarrow> if e < -4 \<or> e \<ge> 6 then format_exp ds e else format_fixed ds e)"

fun FormatFloat :: "f64 \<Rightarrow> string" where
  "FormatFloat FNaN = ''NaN''"
| "FormatFloat FPInf = ''+Inf''"
| "FormatFloat FNInf = ''-Inf''"
| "FormatFloat FNegZero = ''-0''"
| "FormatFloat (FFin q) = (if q = 0 then ''0'' else if q < 0 then CHR ''-'' # format_pos (- q) else format_pos q)"

section \<open>Filters\<close>

record EvalContext =
  ec_PGN :: u32
  ec_Src :: u8
  ec_Dst :: u8
  ec_Prio :: u8
  ec_Decoded :: "rval option"
  ec_Lookups :: "(string, string) gomap option"

record Filter =
  f_root :: node
  f_needsDecode :: bool

definition headerFields :: "string \<Rightarrow> bool" where
  "headerFields s \<longleftrightarrow> s \<in> {''pgn'', ''src'', ''dst'', ''prio''}"

fun checkNeedsDecode :: "node \<Rightarrow> bool" where
  "checkNeedsDecode (orNode l r) = (checkNeedsDecode l \<or> checkNeedsDecode r)"
| "checkNeedsDecode (andNode l r) = (checkNeedsDecode l \<or> checkNeedsDecode r)"
| "checkNeedsDecode (notNode e) = checkNeedsDecode e"
| "checkNeedsDecode (compNode field cop v) = (\<not> headerFields (fr_name field))"

definition Compile :: "string \<Rightarrow> (parse_error + Filter) option" where
  "Compile expr =
     (case parse expr of
        None \<Rightarrow> None
      | Some (Inl e) \<Rightarrow> Some (Inl e)
      | Some (Inr n) \<Rightarrow> Some (Inr \<lparr>f_root = n, f_needsDecode = checkNeedsDecode n\<rparr>))"

fun formatLiteral :: "literal \<Rightarrow> string" where
  "formatLiteral (LString s) = [CHR 0x22] @ s @ [CHR 0x22]"
| "formatLiteral (LFloat x) = FormatFloat x"
| "formatLiteral (LInt i) = FormatInt i"

fun formatNode :: "node \<Rightarrow> string" where
  "formatNode (orNode l r) = ''('' @ formatNode l @ '' || '' @ formatNode r @ '')''"
| "formatNode (andNode l r) = ''('' @ formatNode l @ '' && '' @ formatNode r @ '')''"
| "formatNode (notNode e) = ''!'' @ formatNode e"
| "formatNode (compNode field cop v) =
     fr_name field @ (if fr_subName field \<noteq> [] then ''.'' @ fr_subName field else [])
     @ '' '' @ compOp_String cop @ '' '' @ formatLiteral v"

definition compareNumeric :: "f64 \<Rightarrow> compOp \<Rightarrow> literal \<Rightarrow> bool" where
  "compareNumeric fieldVal cop lit =
     (case lit of
        LString _ \<Rightarrow> False
      | _ \<Rightarrow>
          let litVal = (case lit of LInt i \<Rightarrow> f64_of_int i | LFloat x \<Rightarrow> x | LString _ \<Rightarrow> FFin 0)
          in (case cop of
               opEq \<Rightarrow> f64_eq fieldVal litVal
             | opNe \<Rightarrow> \<not> f64_eq fieldVal litVal
             | opLt \<Rightarrow> f64_lt fieldVal litVal
             | opGt \<Rightarrow> f64_lt litVal fieldVal
             | opLe \<Rightarrow> f64_le fieldVal litVal
             | opGe \<Rightarrow> f64_le litVal fieldVal))"

definition compareString :: "string \<Rightarrow> compOp \<Rightarrow> literal \<Rightarrow> bool" where
  "compareString fieldVal cop lit =
     (let litVal = (case lit of LString s \<Rightarrow> s | LInt i \<Rightarrow> FormatInt i | LFloat x \<Rightarrow> FormatFloat x)
      in case cop of
           opEq \<Rightarrow> fieldVal = litVal
         | opNe \<Rightarrow> fieldVal \<noteq> litVal
         | opLt \<Rightarrow> fieldVal < litVal
         | opGt \<Rightarrow> fieldVal > litVal
         | opLe \<Rightarrow> fieldVal \<le> litVal
         | opGe \<Rightarrow> fieldVal \<ge> litVal)"

definition evalHeaderField :: "fieldRef \<Rightarrow> compOp \<Rightarrow> literal \<Rightarrow> EvalContext \<Rightarrow> bool" where
  "evalHeaderField field cop v ctx =
     (if fr_name field = ''pgn'' then compareNumeric (f64_of_int (uint (ec_PGN ctx))) cop v
      else if fr_name field = ''src'' then compareNumeric (f64_of_int (uint (ec_Src ctx))) cop v
      else if fr_name field = ''dst'' then compareNumeric (f64_of_int (uint (ec_Dst ctx))) cop v
      else if fr_name field = ''prio'' then compareNumeric (f64_of_int (uint (ec_Prio ctx))) cop v
      else False)"

text \<open>The field with that name; of several with the same name, the last one wins the index.\<close>

definition buildFieldIndex :: "sfield list \<Rightarrow> string \<Rightarrow> sfield option" where
  "buildFieldIndex fs name = find (\<lambda>f. (case f of (goName, exported, tag, v) \<Rightarrow> exported) \<and> field_name f = name) (rev fs)"

definition compareReflectValue :: "rval \<Rightarrow> compOp \<Rightarrow> literal \<Rightarrow> bool" where
  "compareReflectValue fv cop lit =
     (case toFloat64 fv of
        Some x \<Rightarrow> compareNumeric x cop lit
      | None \<Rightarrow> (case fv of RString s \<Rightarrow> compareString s cop lit | _ \<Rightarrow> False))"

definition evalDecodedField :: "fieldRef \<Rightarrow> compOp \<Rightarrow> literal \<Rightarrow> rval \<Rightarrow> bool" where
  "evalDecodedField field cop lit decoded =
     (case (case decoded of RPtr p \<Rightarrow> p | v \<Rightarrow> Some v) of
        Some (RStruct fs) \<Rightarrow>
          (case buildFieldIndex fs (fr_name field) of
             None \<Rightarrow> False
           | Some (_, _, _, fv) \<Rightarrow> compareReflectValue fv cop lit)
      | _ \<Rightarrow> False)"

definition evalComp :: "fieldRef \<Rightarrow> compOp \<Rightarrow> literal \<Rightarrow> EvalContext \<Rightarrow> bool" where
  "evalComp field cop v ctx =
     (if fr_subName field = [] \<and> headerFields (fr_name field) then evalHeaderField field cop v ctx
      else if fr_subName field \<noteq> [] then
        (case ec_Lookups ctx of
           None \<Rightarrow> False
         | Some lookups \<Rightarrow>
             let key = (if headerFields (fr_name field) then fr_name field @ ''.'' @ fr_subName field else fr_name field)
             in (case gm_get lookups key of
                  None \<Rightarrow> False
                | Some resolved \<Rightarrow> compareString resolved cop v))
      else (case ec_Decoded ctx of None \<Rightarrow> False | Some decoded \<Rightarrow> evalDecodedField field cop v decoded))"

fun eval :: "node \<Rightarrow> EvalContext \<Rightarrow> bool" where
  "eval (orNode l r) ctx = (eval l ctx \<or> eval r ctx)"
| "eval (andNode l r) ctx = (eval l ctx \<and> eval r ctx)"
| "eval (notNode e) ctx = (\<not> eval e ctx)"
| "eval (compNode field cop v) ctx = evalComp field cop v ctx"

definition Filter_Match :: "Filter \<Rightarrow> EvalContext \<Rightarrow> bool" where
  "Filter_Match f ctx = eval (f_root f) ctx"

definition NeedsDecode :: "Filter \<Rightarrow> bool" where
  "NeedsDecode f = f_needsDecode f"

definition Filter_String :: "Filter \<Rightarrow> string" where
  "Filter_String f = formatNode (f_root f)"

section \<open>Properties\<close>

lemma eval_undecoded: "\<not> checkNeedsDecode n \<Longrightarrow> eval n (ctx\<lparr>ec_Decoded := d\<rparr>) = eval n ctx"
  by (induction n) (auto simp: evalComp_def evalHeaderField_def)


text \<open>The integer value a header field name stands for.\<close>

definition header_value :: "EvalContext \<Rightarrow> string \<Rightarrow> int" where
  "header_value ctx name =
     (if name = ''pgn'' then uint (ec_PGN ctx) else if name = ''src'' then uint (ec_Src ctx)
      else if name = ''dst'' then uint (ec_Dst ctx) else uint (ec_Prio ctx))"

fun int_compare :: "compOp \<Rightarrow> int \<Rightarrow> int \<Rightarrow> bool" where
  "int_compare opEq a b = (a = b)"
| "int_compare opNe a b = (a \<noteq> b)"
| "int_compare opLt a b = (a < b)"
| "int_compare opGt a b = (a > b)"
| "int_compare opLe a b = (a \<le> b)"
| "int_compare opGe a b = (a \<ge> b)"

lemma f64_eq_commute: "f64_eq x y = f64_eq y x"
  by (cases x; cases y) auto

lemma compareNumeric_exact:
  assumes "0 \<le> x" "x < 2 ^ 32" "- (2 ^ 63) \<le> i" "i < 2 ^ 63"
  shows "compareNumeric (f64_of_int x) cop (LInt i) = int_compare cop x i"
proof -
  have "x < 2 ^ 53"
    using assms by auto
  then show ?thesis
    using f64_cmp_exact [of x i] assms f64_eq_commute [of "f64_of_int i" "f64_of_int x"] by (cases cop) (auto simp: compareNumeric_def f64_le_def)
qed

text \<open>
  C28: Header comparisons are exact. Comparing \<open>pgn\<close>, \<open>src\<close>, \<open>dst\<close> or \<open>prio\<close> with any 64-bit integer
  literal gives the integer comparison, although the code converts both sides to \<^verbatim>\<open>float64\<close>.
\<close>

theorem header_comparison_exact:
  assumes "headerFields name" "- (2 ^ 63) \<le> i" "i < 2 ^ 63"
  shows "eval (compNode \<lparr>fr_name = name, fr_subName = []\<rparr> cop (LInt i)) ctx = int_compare cop (header_value ctx name) i"
proof -
  have "uint (x :: u8) < 2 ^ 32" for x
    using unsigned_less [of x, where ?'a = int] by simp
  moreover have "uint (x :: u32) < 2 ^ 32" for x
    using unsigned_less [of x, where ?'a = int] by simp
  ultimately show ?thesis
    using assms by (auto simp: evalComp_def evalHeaderField_def header_value_def headerFields_def compareNumeric_exact)
qed

definition sample_filter :: Filter where
  "sample_filter = \<lparr>f_root = compNode \<lparr>fr_name = ''src'', fr_subName = ''m''\<rparr> opEq (LString ''G''), f_needsDecode = False\<rparr>"

definition sample_ctx :: EvalContext where
  "sample_ctx = \<lparr>ec_PGN = 1, ec_Src = 1, ec_Dst = 255, ec_Prio = 6, ec_Decoded = None, ec_Lookups = Some [(''src.m'', ''G'')]\<rparr>"


theorem header_comparison_exact_witness:
  "eval (compNode \<lparr>fr_name = ''pgn'', fr_subName = []\<rparr> opLt (LInt 9007199254740993))
     \<lparr>ec_PGN = 130310, ec_Src = 1, ec_Dst = 255, ec_Prio = 6, ec_Decoded = None, ec_Lookups = None\<rparr>"
  using header_comparison_exact [of "''pgn''" 9007199254740993 opLt] by (simp add: headerFields_def header_value_def)

end
