(* ===== verification/FilterRoundtrip.thy ===== *)
theory FilterRoundtrip
  imports FilterEval
begin

text \<open>
  The printed form of a display filter, \<^verbatim>\<open>Filter.String\<close>, compiles to the same filter: printing is a
  right inverse of parsing on syntax trees whose names are identifiers, whose integers fit 64 bits and
  whose strings hold neither a quote nor a backslash. The proof goes through the token list of a tree:
  the printed text lexes to it (\<open>lexes_node\<close>), the parser reads the tree back from it (\<open>parseUnary_node\<close>).
\<close>

section \<open>Printable trees and their tokens\<close>

definition reserved :: "string \<Rightarrow> bool" where
  "reserved s \<longleftrightarrow> s \<in> {''and'', ''or'', ''not''}"

definition ident_ok :: "string \<Rightarrow> bool" where
  "ident_ok s \<longleftrightarrow> s \<noteq> [] \<and> isIdentStart (hd s) \<and> list_all isIdentPart s \<and> \<not> reserved s"

fun literal_ok :: "literal \<Rightarrow> bool" where
  "literal_ok (LInt i) \<longleftrightarrow> - (2 ^ 63) \<le> i \<and> i < 2 ^ 63"
| "literal_ok (LString s) \<longleftrightarrow> CHR 0x22 \<notin> set s \<and> CHR 0x5C \<notin> set s"
| "literal_ok (LFloat x) \<longleftrightarrow> False"

fun printable :: "node \<Rightarrow> bool" where
  "printable (orNode l r) \<longleftrightarrow> printable l \<and> printable r"
| "printable (andNode l r) \<longleftrightarrow> printable l \<and> printable r"
| "printable (notNode e) \<longleftrightarrow> printable e"
| "printable (compNode field cop v) \<longleftrightarrow>
     ident_ok (fr_name field) \<and> (fr_subName field = [] \<or> ident_ok (fr_subName field)) \<and> literal_ok v"

type_synonym kind = "tokenType \<times> string"

definition kind_of :: "token \<Rightarrow> kind" where
  "kind_of t = (t_typ t, t_val t)"

fun op_tok :: "compOp \<Rightarrow> tokenType" where
  "op_tok opEq = tokEq" | "op_tok opNe = tokNe" | "op_tok opLt = tokLt"
| "op_tok opGt = tokGt" | "op_tok opLe = tokLe" | "op_tok opGe = tokGe"

fun literal_kind :: "literal \<Rightarrow> kind" where
  "literal_kind (LInt i) = (tokInt, FormatInt i)"
| "literal_kind (LString s) = (tokString, s)"
| "literal_kind (LFloat x) = (tokFloat, FormatFloat x)"

definition field_kinds :: "fieldRef \<Rightarrow> kind list" where
  "field_kinds f = (tokIdent, fr_name f) # (if fr_subName f \<noteq> [] then [(tokDot, ''.''), (tokIdent, fr_subName f)] else [])"

fun node_kinds :: "node \<Rightarrow> kind list" where
  "node_kinds (orNode l r) = [(tokLParen, ''('')] @ node_kinds l @ [(tokOr, ''||'')] @ node_kinds r @ [(tokRParen, '')'')]"
| "node_kinds (andNode l r) = [(tokLParen, ''('')] @ node_kinds l @ [(tokAnd, ''&&'')] @ node_kinds r @ [(tokRParen, '')'')]"
| "node_kinds (notNode e) = (tokNot, ''!'') # node_kinds e"
| "node_kinds (compNode field cop v) = field_kinds field @ [(op_tok cop, compOp_String cop), literal_kind v]"

section \<open>Lexing the printed text\<close>

declare scan.simps [simp del]

text \<open>\<open>s\<close> lexes to tokens of the kinds \<open>ks\<close> wherever it is followed by text in \<open>F\<close>.\<close>

definition lexes :: "(string \<Rightarrow> bool) \<Rightarrow> string \<Rightarrow> kind list \<Rightarrow> bool" where
  "lexes F s ks \<longleftrightarrow>
     (\<forall>pos r. F r \<longrightarrow>
        (\<exists>ts. map kind_of ts = ks \<and>
              scan pos (s @ r) = (case scan (pos + length s) r of Inl e \<Rightarrow> Inl e | Inr us \<Rightarrow> Inr (ts @ us))))"

lemma lexesD:
  assumes "lexes F s ks" "F r"
  obtains ts where "map kind_of ts = ks"
    and "scan pos (s @ r) = (case scan (pos + length s) r of Inl e \<Rightarrow> Inl e | Inr us \<Rightarrow> Inr (ts @ us))"
  using assms unfolding lexes_def by blast

lemma lexes_append:
  assumes "lexes F s ks" "lexes G s' ks'" "\<And>r. G r \<Longrightarrow> F (s' @ r)"
  shows "lexes G (s @ s') (ks @ ks')"
  unfolding lexes_def
proof (intro allI impI)
  fix pos r
  assume "G r"
  obtain ts where ts: "map kind_of ts = ks"
    "scan pos (s @ s' @ r) = (case scan (pos + length s) (s' @ r) of Inl e \<Rightarrow> Inl e | Inr us \<Rightarrow> Inr (ts @ us))"
    by (rule lexesD [OF assms(1) assms(3) [OF \<open>G r\<close>]])
  obtain ts' where ts': "map kind_of ts' = ks'"
    "scan (pos + length s) (s' @ r) = (case scan (pos + length s + length s') r of Inl e \<Rightarrow> Inl e | Inr us \<Rightarrow> Inr (ts' @ us))"
    by (rule lexesD [OF assms(2) \<open>G r\<close>])
  show "\<exists>us. map kind_of us = ks @ ks' \<and>
      scan pos ((s @ s') @ r) = (case scan (pos + length (s @ s')) r of Inl e \<Rightarrow> Inl e | Inr vs \<Rightarrow> Inr (us @ vs))"
    by (rule exI [of _ "ts @ ts'"]) (use ts ts' in \<open>simp add: add.assoc split: sum.split\<close>)
qed

lemma lexes_one:
  assumes "\<And>pos r. F r \<Longrightarrow> \<exists>t. one_token pos (s @ r) = Inr (t, length s) \<and> kind_of t = k"
    and "s \<noteq> []" "\<not> isSpaceByte (hd s)"
  shows "lexes F s [k]"
  unfolding lexes_def
proof (intro allI impI)
  fix pos r
  assume "F r"
  then obtain t where t: "one_token pos (s @ r) = Inr (t, length s)" "kind_of t = k"
    using assms(1) by blast
  have "takeWhile isSpaceByte (s @ r) = []"
    using assms(2,3) by (cases s) auto
  then show "\<exists>ts. map kind_of ts = [k] \<and>
      scan pos (s @ r) = (case scan (pos + length s) r of Inl e \<Rightarrow> Inl e | Inr us \<Rightarrow> Inr (ts @ us))"
    by (intro exI [of _ "[t]"]) (use t assms(2) in \<open>simp add: scan.simps [of pos "s @ r"] Let_def split: sum.split\<close>)
qed

lemma scan_blank: "scan pos (CHR '' '' # s) = scan (Suc pos) s"
proof -
  have "isSpaceByte (CHR '' '')"
    by (simp add: isSpaceByte_def bcode_def)
  then show ?thesis
    by (simp only: scan.simps [of pos] scan.simps [of "Suc pos"] takeWhile.simps if_True list.size drop_Suc_Cons Let_def
        add_Suc_right add_Suc add.right_neutral)
qed

lemma lexes_blank: "lexes (\<lambda>r. True) '' '' []"
  by (auto simp: lexes_def scan_blank split: sum.split)

section \<open>The single tokens\<close>

definition before_blank :: "string \<Rightarrow> bool" where
  "before_blank r \<longleftrightarrow> r \<noteq> [] \<and> hd r = CHR '' ''"

definition after_node :: "string \<Rightarrow> bool" where
  "after_node r \<longleftrightarrow> r = [] \<or> hd r = CHR '' '' \<or> hd r = CHR '')''"

lemma peek_Cons: "peek (c # s) = (case s of [] \<Rightarrow> CHR 0x00 | d # _ \<Rightarrow> d)"
  by (simp add: peek_def)

lemma lexes_symbols:
  "lexes (\<lambda>r. True) ''('' [(tokLParen, ''('')]"
  "lexes (\<lambda>r. True) '')'' [(tokRParen, '')'')]"
  "lexes (\<lambda>r. True) ''.'' [(tokDot, ''.'')]"
  "lexes (\<lambda>r. True) ''||'' [(tokOr, ''||'')]"
  "lexes (\<lambda>r. True) ''&&'' [(tokAnd, ''&&'')]"
  by (rule lexes_one; simp add: one_token_def Let_def symbol_token_def peek_Cons mk_token_def kind_of_def isSpaceByte_def bcode_def)+

lemma lexes_not: "lexes (\<lambda>r. r \<noteq> [] \<and> hd r \<noteq> CHR ''='') ''!'' [(tokNot, ''!'')]"
  by (rule lexes_one; auto simp: one_token_def Let_def symbol_token_def peek_Cons mk_token_def kind_of_def isSpaceByte_def bcode_def split: list.split)

lemma lexes_op: "lexes before_blank (compOp_String cop) [(op_tok cop, compOp_String cop)]"
  by (rule lexes_one; cases cop; auto simp: before_blank_def one_token_def Let_def symbol_token_def peek_Cons mk_token_def kind_of_def isSpaceByte_def bcode_def split: list.split)

text \<open>Letters, digits, the minus sign and quotes are no symbols.\<close>

lemma symbol_token_None:
  assumes "isIdentPart c \<or> c \<in> {CHR ''-'', CHR 0x22}"
  shows "symbol_token c pk = None"
proof -
  have "c \<notin> {CHR ''('', CHR '')'', CHR ''.'', CHR ''!'', CHR ''='', CHR ''<'', CHR ''>'', CHR ''&'', CHR ''|''}"
    using assms by (auto simp: isIdentPart_def isIdentStart_def isDigit_def is_digit_char_def bcode_def)
  then show ?thesis
    by (simp add: symbol_token_def)
qed

lemma takeWhile_stop: "list_all P s \<Longrightarrow> r = [] \<or> \<not> P (hd r) \<Longrightarrow> takeWhile P (s @ r) = s"
  by (induction s) (cases r; auto)+

lemma lexes_ident:
  assumes "ident_ok s"
  shows "lexes (\<lambda>r. r = [] \<or> \<not> isIdentPart (hd r)) s [(tokIdent, s)]"
proof (rule lexes_one)
  show "s \<noteq> []" "\<not> isSpaceByte (hd s)"
    using assms by (auto simp: ident_ok_def isIdentStart_def isSpaceByte_def bcode_def)
  fix pos r
  assume "r = [] \<or> \<not> isIdentPart (hd r)"
  then have tw: "takeWhile isIdentPart (s @ r) = s"
    using assms by (intro takeWhile_stop) (simp_all add: ident_ok_def)
  have h: "s \<noteq> []" "isIdentStart (hd s)" "\<not> reserved s"
    using assms by (auto simp: ident_ok_def)
  then have "hd s \<noteq> CHR 0x22" "hd s \<noteq> CHR 0x27" "hd s \<noteq> CHR ''-''" "\<not> isDigit (hd s)"
    by (auto simp: isIdentStart_def isDigit_def is_digit_char_def bcode_def)
  then show "\<exists>t. one_token pos (s @ r) = Inr (t, length s) \<and> kind_of t = (tokIdent, s)"
    using h tw symbol_token_None [of "hd s" "peek (s @ r)"]
    by (simp add: one_token_def Let_def isIdentPart_def ident_token_def mk_token_def kind_of_def reserved_def)
qed

lemma FormatInt_shape:
  obtains sign n where "FormatInt i = sign @ FormatUint 10 n" "sign = [] \<or> sign = ''-''"
proof (cases "i < 0")
  case True
  then show ?thesis
    by (intro that [of "''-''"]) (simp_all add: FormatInt_def)
next
  case False
  then show ?thesis
    by (intro that [of "[]"]) (simp_all add: FormatInt_def)
qed

lemma FormatUint_isDigit: "list_all isDigit (FormatUint 10 n)"
  using FormatUint_digits [of 10 n] by (auto simp: list_all_iff isDigit_def is_digit_char_def)

lemma number_text_Format:
  assumes "after_node r"
  shows "number_text (FormatInt i @ r) = FormatInt i"
proof -
  obtain sign n where f: "FormatInt i = sign @ FormatUint 10 n" "sign = [] \<or> sign = ''-''"
    by (rule FormatInt_shape)
  have "takeWhile (\<lambda>c. isDigit c \<or> c = CHR ''.'') (FormatUint 10 n @ r) = FormatUint 10 n"
    using FormatUint_isDigit [of n] assms
    by (intro takeWhile_stop) (auto simp: list_all_iff after_node_def isDigit_def is_digit_char_def bcode_def)
  moreover have "hd (FormatUint 10 n @ r) \<noteq> CHR ''-''"
    using hd_FormatUint_digit [of n] by (auto simp: bcode_def)
  ultimately show ?thesis
    using f by (auto simp: number_text_def)
qed

lemma lexes_int: "lexes after_node (FormatInt i) [(tokInt, FormatInt i)]"
proof (rule lexes_one)
  obtain sign n where f: "FormatInt i = sign @ FormatUint 10 n" "sign = [] \<or> sign = ''-''"
    by (rule FormatInt_shape)
  have h: "hd (FormatInt i) = CHR ''-'' \<or> isDigit (hd (FormatInt i))"
    using f FormatUint_isDigit [of n] by (cases "FormatUint 10 n") auto
  then show "\<not> isSpaceByte (hd (FormatInt i))"
    by (auto simp: isSpaceByte_def isDigit_def is_digit_char_def bcode_def)
  show ne: "FormatInt i \<noteq> []"
    using f by auto
  have dot: "CHR ''.'' \<notin> set (FormatInt i)"
    using f FormatUint_isDigit [of n] by (auto simp: list_all_iff isDigit_def is_digit_char_def bcode_def)
  have q: "hd (FormatInt i) \<noteq> CHR 0x22" "hd (FormatInt i) \<noteq> CHR 0x27"
    using h by (auto simp: isDigit_def is_digit_char_def bcode_def)
  fix pos r
  assume "after_node r"
  then show "\<exists>t. one_token pos (FormatInt i @ r) = Inr (t, length (FormatInt i)) \<and> kind_of t = (tokInt, FormatInt i)"
    using h q ne dot number_text_Format [of r i] symbol_token_None [of "hd (FormatInt i)" "peek (FormatInt i @ r)"]
    by (auto simp: one_token_def Let_def isIdentPart_def number_token_def mk_token_def kind_of_def)
qed

lemma string_body_plain:
  "CHR 0x22 \<notin> set s \<Longrightarrow> CHR 0x5C \<notin> set s \<Longrightarrow> string_body (CHR 0x22) (s @ CHR 0x22 # r) = Some (s, r)"
proof (induction s)
  case Nil
  then show ?case
    by (cases r) auto
next
  case (Cons c s)
  then show ?case
    by (cases s) (auto split: list.splits)
qed

lemma lexes_string:
  assumes "CHR 0x22 \<notin> set s" "CHR 0x5C \<notin> set s"
  shows "lexes (\<lambda>r. True) ([CHR 0x22] @ s @ [CHR 0x22]) [(tokString, s)]"
  by (rule lexes_one)
    (use assms in \<open>auto simp: one_token_def symbol_token_None string_body_plain mk_token_def kind_of_def isSpaceByte_def bcode_def\<close>)

lemma lexes_mono: "lexes F s ks \<Longrightarrow> (\<And>r. G r \<Longrightarrow> F r) \<Longrightarrow> lexes G s ks"
  by (simp add: lexes_def)

lemma lexes_literal: "literal_ok v \<Longrightarrow> lexes after_node (formatLiteral v) [literal_kind v]"
  by (cases v) (auto simp del: append.simps intro: lexes_int lexes_mono [OF lexes_string])

section \<open>The printed text lexes to the tokens of the tree\<close>

lemma formatNode_hd:
  "printable n \<Longrightarrow> formatNode n \<noteq> [] \<and> (isIdentStart (hd (formatNode n)) \<or> hd (formatNode n) \<in> {CHR ''('', CHR ''!''})"
  by (cases n) (auto simp: ident_ok_def)

lemma lexes_field:
  assumes "ident_ok (fr_name f)" "fr_subName f = [] \<or> ident_ok (fr_subName f)"
  shows "lexes before_blank (fr_name f @ (if fr_subName f \<noteq> [] then ''.'' @ fr_subName f else [])) (field_kinds f)"
proof (cases "fr_subName f = []")
  case True
  then show ?thesis
    by (auto simp: field_kinds_def before_blank_def isIdentPart_def isIdentStart_def isDigit_def is_digit_char_def bcode_def
        intro: lexes_mono [OF lexes_ident [OF assms(1)]])
next
  case False
  then have "ident_ok (fr_subName f)"
    using assms by simp
  then have "lexes before_blank (''.'' @ fr_subName f) ([(tokDot, ''.'')] @ [(tokIdent, fr_subName f)])"
    by (intro lexes_append [OF lexes_symbols(3) lexes_mono [OF lexes_ident]])
      (auto simp: before_blank_def isIdentPart_def isIdentStart_def isDigit_def is_digit_char_def bcode_def)
  then have "lexes before_blank (fr_name f @ ''.'' @ fr_subName f) ([(tokIdent, fr_name f)] @ [(tokDot, ''.''), (tokIdent, fr_subName f)])"
    by (intro lexes_append [OF lexes_ident [OF assms(1)]])
      (auto simp: isIdentPart_def isIdentStart_def isDigit_def is_digit_char_def bcode_def)
  then show ?thesis
    using False by (simp add: field_kinds_def)
qed

lemma lexes_comp:
  assumes "printable (compNode f cop v)"
  shows "lexes after_node (formatNode (compNode f cop v)) (node_kinds (compNode f cop v))"
proof -
  have v: "lexes after_node ('' '' @ formatLiteral v) ([] @ [literal_kind v])"
    using assms by (intro lexes_append [OF lexes_blank lexes_literal]) simp_all
  have "lexes after_node (compOp_String cop @ '' '' @ formatLiteral v) ([(op_tok cop, compOp_String cop)] @ [] @ [literal_kind v])"
    by (rule lexes_append [OF lexes_op v]) (simp add: before_blank_def)
  then have "lexes after_node ('' '' @ compOp_String cop @ '' '' @ formatLiteral v)
      ([] @ [(op_tok cop, compOp_String cop)] @ [] @ [literal_kind v])"
    by (intro lexes_append [OF lexes_blank]) simp_all
  then have "lexes after_node ((fr_name f @ (if fr_subName f \<noteq> [] then ''.'' @ fr_subName f else [])) @ '' '' @ compOp_String cop @ '' '' @ formatLiteral v)
      (field_kinds f @ [] @ [(op_tok cop, compOp_String cop)] @ [] @ [literal_kind v])"
    using assms by (intro lexes_append [OF lexes_field]) (simp_all add: before_blank_def)
  then show ?thesis
    by simp
qed

lemma lexes_binary:
  assumes "lexes after_node l kl" "lexes after_node r kr" "lexes (\<lambda>r. True) opr [k]"
  shows "lexes after_node (''('' @ l @ '' '' @ opr @ '' '' @ r @ '')'') ([(tokLParen, ''('')] @ kl @ [k] @ kr @ [(tokRParen, '')'')])"
proof -
  have "lexes after_node (r @ '')'') (kr @ [(tokRParen, '')'')])"
    by (rule lexes_append [OF assms(2) lexes_mono [OF lexes_symbols(2)]]) (simp_all add: after_node_def)
  then have "lexes after_node (opr @ '' '' @ r @ '')'') ([k] @ [] @ kr @ [(tokRParen, '')'')])"
    by (intro lexes_append [OF assms(3)] lexes_append [OF lexes_blank]) simp_all
  then have "lexes after_node ('' '' @ opr @ '' '' @ r @ '')'') ([] @ [k] @ [] @ kr @ [(tokRParen, '')'')])"
    by (intro lexes_append [OF lexes_blank]) simp_all
  then have "lexes after_node (l @ '' '' @ opr @ '' '' @ r @ '')'') (kl @ [] @ [k] @ [] @ kr @ [(tokRParen, '')'')])"
    by (intro lexes_append [OF assms(1)]) (simp_all add: after_node_def)
  then have "lexes after_node (''('' @ l @ '' '' @ opr @ '' '' @ r @ '')'') ([(tokLParen, ''('')] @ kl @ [] @ [k] @ [] @ kr @ [(tokRParen, '')'')])"
    by (intro lexes_append [OF lexes_symbols(1)]) simp_all
  then show ?thesis
    by simp
qed

lemma lexes_node: "printable n \<Longrightarrow> lexes after_node (formatNode n) (node_kinds n)"
proof (induction n)
  case (orNode l r)
  then show ?case
    using lexes_binary [of "formatNode l" "node_kinds l" "formatNode r" "node_kinds r" "''||''" "(tokOr, ''||'')"] lexes_symbols(4)
    by simp
next
  case (andNode l r)
  then show ?case
    using lexes_binary [of "formatNode l" "node_kinds l" "formatNode r" "node_kinds r" "''&&''" "(tokAnd, ''&&'')"] lexes_symbols(5)
    by simp
next
  case (notNode e)
  have "lexes after_node (''!'' @ formatNode e) ([(tokNot, ''!'')] @ node_kinds e)"
    using notNode formatNode_hd [of e]
    by (intro lexes_append [OF lexes_not]) (auto simp: isIdentStart_def bcode_def)
  then show ?case
    by simp
next
  case (compNode f cop v)
  then show ?case
    by (rule lexes_comp)
qed

section \<open>The parser reads the tree back\<close>

lemma map_Cons_E:
  assumes "map f xs = k # ks"
  obtains x xs' where "xs = x # xs'" "f x = k" "map f xs' = ks"
  using assms by (cases xs) auto

lemma map_append_E:
  assumes "map f xs = ks @ ks'"
  obtains ys zs where "xs = ys @ zs" "map f ys = ks" "map f zs = ks'"
  using assms by (auto simp: map_eq_append_conv)

lemma parse_field_kinds:
  assumes "map kind_of ts = field_kinds f" "t_typ (current us) \<noteq> tokDot"
  shows "parse_field (ts @ us) = Inr (f, us)"
  using assms
  by (cases "fr_subName f = []")
    (auto simp: field_kinds_def parse_field_def current_def advance_def kind_of_def Let_def elim!: map_Cons_E)

lemma parseCompOp_kind:
  "kind_of t = (op_tok cop, s) \<Longrightarrow> parseCompOp (t # us) = Inr (cop, us)"
  by (cases cop) (auto simp: parseCompOp_def current_def advance_def kind_of_def)

lemma parseValue_kind:
  "kind_of t = literal_kind v \<Longrightarrow> literal_ok v \<Longrightarrow> parseValue (t # us) = Inr (v, us)"
  by (cases v) (auto simp: parseValue_def current_def advance_def kind_of_def ParseInt64_Format)

lemma parseComparison_kinds:
  assumes "map kind_of ts = node_kinds (compNode f cop v)" "literal_ok v"
  shows "parseComparison (ts @ us) = Inr (compNode f cop v, us)"
proof -
  obtain fs t1 t2 where ts: "ts = fs @ [t1, t2]" "map kind_of fs = field_kinds f"
    "kind_of t1 = (op_tok cop, compOp_String cop)" "kind_of t2 = literal_kind v"
    using assms by (auto elim!: map_append_E map_Cons_E)
  have "t_typ (current (t1 # t2 # us)) \<noteq> tokDot"
    using ts(3) by (cases cop) (auto simp: current_def kind_of_def)
  then show ?thesis
    using ts assms(2) parse_field_kinds [of fs f "t1 # t2 # us"] parseCompOp_kind [of t1 cop _ "t2 # us"] parseValue_kind [of t2 v us]
    by (simp add: parseComparison_def)
qed

lemma field_first: "map kind_of ts = node_kinds (compNode f cop v) \<Longrightarrow> t_typ (current (ts @ us)) = tokIdent"
  by (cases ts) (auto simp: field_kinds_def current_def kind_of_def)

lemma current_kind [simp]: "kind_of t = (ty, s) \<Longrightarrow> t_typ (current (t # us)) = ty"
  by (simp add: current_def kind_of_def)

lemma advance_Cons [simp]: "advance (t # us) = us"
  by (simp add: advance_def)

lemma parse_binary:
  assumes ts: "ts = lp # ls @ t # rs @ [rp]" "kind_of lp = (tokLParen, s1)" "kind_of rp = (tokRParen, s2)"
    and t: "t_typ t = tokOr \<and> n = orNode l r \<or> t_typ t = tokAnd \<and> n = andNode l r"
    and l: "\<And>m us. 6 * length ls \<le> m \<Longrightarrow> parseUnary m (ls @ us) = Some (Inr (l, us))"
    and r: "\<And>m us. 6 * length rs \<le> m \<Longrightarrow> parseUnary m (rs @ us) = Some (Inr (r, us))"
    and m: "6 * length ts \<le> m"
  shows "parseUnary m (ts @ us) = Some (Inr (n, us))"
proof -
  obtain k where k: "m = Suc (Suc (Suc (Suc (Suc (Suc (Suc (Suc k)))))))" "6 * length ls \<le> Suc k" "6 * length rs \<le> Suc k"
    using m ts(1) by (intro that [of "m - 8"]) auto
  have tt: "t_typ (current (t # us)) = t_typ t" for us
    by (simp add: current_def)
  have "parseOr (Suc (Suc (Suc (Suc (Suc (Suc k)))))) (ls @ t # rs @ rp # us) = Some (Inr (n, rp # us))"
    using t l [of "Suc (Suc (Suc (Suc k)))" "t # rs @ rp # us"] r [of "Suc (Suc (Suc k))" "rp # us"] r [of "Suc (Suc k)" "rp # us"]
      k(2,3) ts(3) tt by (auto simp: parseOr.simps(2) parseAnd.simps(2))
  then show ?thesis
    using k(1) ts by (simp add: parseUnary.simps(2) parsePrimary.simps(2))
qed

lemma parseUnary_node:
  "map kind_of ts = node_kinds n \<Longrightarrow> printable n \<Longrightarrow> 6 * length ts \<le> m \<Longrightarrow> parseUnary m (ts @ us) = Some (Inr (n, us))"
proof (induction n arbitrary: ts us m)
  case (orNode l r)
  obtain lp tl t tr rp where ts: "ts = lp # tl @ t # tr @ [rp]" "kind_of lp = (tokLParen, ''('')" "map kind_of tl = node_kinds l"
    "kind_of t = (tokOr, ''||'')" "map kind_of tr = node_kinds r" "kind_of rp = (tokRParen, '')'')"
    using orNode.prems(1) by (auto elim!: map_append_E map_Cons_E)
  show ?case
  proof (rule parse_binary [OF ts(1,2,6)])
    show "t_typ t = tokOr \<and> orNode l r = orNode l r \<or> t_typ t = tokAnd \<and> orNode l r = andNode l r"
      using ts(4) by (simp add: kind_of_def)
  qed (use orNode ts in auto)
next
  case (andNode l r)
  obtain lp tl t tr rp where ts: "ts = lp # tl @ t # tr @ [rp]" "kind_of lp = (tokLParen, ''('')" "map kind_of tl = node_kinds l"
    "kind_of t = (tokAnd, ''&&'')" "map kind_of tr = node_kinds r" "kind_of rp = (tokRParen, '')'')"
    using andNode.prems(1) by (auto elim!: map_append_E map_Cons_E)
  show ?case
  proof (rule parse_binary [OF ts(1,2,6)])
    show "t_typ t = tokOr \<and> andNode l r = orNode l r \<or> t_typ t = tokAnd \<and> andNode l r = andNode l r"
      using ts(4) by (simp add: kind_of_def)
  qed (use andNode ts in auto)
next
  case (notNode e)
  obtain t ts' where ts: "ts = t # ts'" "kind_of t = (tokNot, ''!'')" "map kind_of ts' = node_kinds e"
    using notNode.prems(1) by (auto elim!: map_Cons_E)
  obtain k where "m = Suc k" "6 * length ts' \<le> k"
    using notNode.prems(3) ts(1) by (intro that [of "m - 1"]) auto
  then show ?case
    using notNode.IH [OF ts(3), of k us] notNode.prems(2) ts by simp
next
  case (compNode f cop v)
  have "1 \<le> length ts"
    using compNode.prems(1) by (cases ts) auto
  then obtain k where k: "m = Suc (Suc k)"
    using compNode.prems(3) by (intro that [of "m - 2"]) linarith
  show ?case
    using k field_first [OF compNode.prems(1), of us] parseComparison_kinds [OF compNode.prems(1), of us] compNode.prems(2) by simp
qed

text \<open>
  C25: Printing is undone by compiling. For every syntax tree with identifier names, 64-bit integers and
  strings without quotes and backslashes, compiling the text that \<^verbatim>\<open>Filter.String\<close> prints gives the same
  filter, whatever the nesting of its operators.
\<close>

theorem filter_string_compiles_back:
  assumes "printable n"
  shows "Compile (Filter_String \<lparr>f_root = n, f_needsDecode = d\<rparr>) = Some (Inr \<lparr>f_root = n, f_needsDecode = checkNeedsDecode n\<rparr>)"
proof -
  obtain ts where ts: "map kind_of ts = node_kinds n" "scan 0 (formatNode n @ []) =
      (case scan (0 + length (formatNode n)) [] of Inl e \<Rightarrow> Inl e | Inr us \<Rightarrow> Inr (ts @ us))"
    by (rule lexesD [OF lexes_node [OF assms], of "[]" 0]) (simp add: after_node_def)
  define eof where "eof = mk_token tokEOF [] (length (formatNode n))"
  have l: "lex (formatNode n) = Inr (ts @ [eof])" "t_typ (current [eof]) = tokEOF"
    using ts(2) by (simp_all add: lex_def scan.simps [of _ "[]"] eof_def current_def mk_token_def)
  obtain k where k: "parse_fuel (ts @ [eof]) = Suc (Suc (Suc k))" "6 * length ts \<le> Suc k"
    by (rule that [of "6 * length ts + 7"]) (simp_all add: parse_fuel_def)
  have "parse (formatNode n) = Some (Inr n)"
    using l k parseUnary_node [OF ts(1) assms k(2), of "[eof]"] by (simp add: parse_def)
  then show ?thesis
    by (simp add: Compile_def Filter_String_def)
qed

theorem filter_string_compiles_back_witness:
  "let n = orNode (notNode (compNode \<lparr>fr_name = ''src'', fr_subName = ''m''\<rparr> opNe (LString ''G''))) (compNode \<lparr>fr_name = ''pgn'', fr_subName = []\<rparr> opGe (LInt (- 5)))
   in Compile (Filter_String \<lparr>f_root = n, f_needsDecode = True\<rparr>) = Some (Inr \<lparr>f_root = n, f_needsDecode = False\<rparr>)"
proof -
  have "ident_ok ''src''" "ident_ok ''m''" "ident_ok ''pgn''"
    by code_simp+
  then show ?thesis
    using filter_string_compiles_back [of "orNode (notNode (compNode \<lparr>fr_name = ''src'', fr_subName = ''m''\<rparr> opNe (LString ''G'')))
       (compNode \<lparr>fr_name = ''pgn'', fr_subName = []\<rparr> opGe (LInt (- 5)))" True]
    by (simp add: Let_def headerFields_def)
qed

end
