(* ===== verification/JournalFormat.thy ===== *)
theory JournalFormat
  imports Devices "HOL-Library.Monad_Syntax"
begin

text \<open>
  The journal file format (\<^verbatim>\<open>journal/format.go\<close>, and the tables of \<^verbatim>\<open>journal/reader.go\<close>): constants,
  varints (\<^verbatim>\<open>encoding/binary\<close>), CRC-32C (\<^verbatim>\<open>hash/crc32\<close>), length-prefixed strings, device tables, and
  writes into a block buffer. The lemmas: each encoder is inverted by its decoder.
\<close>

section \<open>Constants\<close>

datatype CompressionType = CompressionNone | CompressionZstd | CompressionZstdDict

fun compression_byte :: "CompressionType \<Rightarrow> u8" where
  "compression_byte CompressionNone = 0"
| "compression_byte CompressionZstd = 1"
| "compression_byte CompressionZstdDict = 2"

definition compression_of :: "u8 \<Rightarrow> CompressionType option" where
  "compression_of b =
     (if b = 0 then Some CompressionNone else if b = 1 then Some CompressionZstd
      else if b = 2 then Some CompressionZstdDict else None)"

definition Magic :: bytes where
  "Magic = [0x4C, 0x50, 0x4A]"

definition Version :: u8 where
  "Version = 1"

definition Version2 :: u8 where
  "Version2 = 2"

definition FileHeaderSize :: nat where
  "FileHeaderSize = 16"

definition BlockTrailerLen :: nat where
  "BlockTrailerLen = 10"

definition BlockIndexMagic :: bytes where
  "BlockIndexMagic = [0x4C, 0x50, 0x4A, 0x49]"

definition BlockHeaderLen :: nat where
  "BlockHeaderLen = 12"

definition BlockHeaderLenDict :: nat where
  "BlockHeaderLenDict = 16"

definition BlockDataOffsetV1 :: nat where
  "BlockDataOffsetV1 = 8"

definition BlockDataOffsetV2 :: nat where
  "BlockDataOffsetV2 = 16"

definition DeviceEntryMaxSize :: nat where
  "DeviceEntryMaxSize = 147"

lemmas format_consts =
  FileHeaderSize_def BlockTrailerLen_def BlockHeaderLen_def BlockHeaderLenDict_def
  BlockDataOffsetV1_def BlockDataOffsetV2_def DeviceEntryMaxSize_def

section \<open>Varints\<close>

lemma unat_drop7: "unat (drop_bit 7 (v :: u64)) = unat v div 128"
  by (simp only: unat_drop_bit_eq) (simp add: drop_bit_eq_div)

lemma drop_bit_7_less: "(v :: u64) \<ge> 0x80 \<Longrightarrow> unat (drop_bit 7 v) < unat v"
  by (simp only: unat_drop7 word_le_nat_alt) simp

function UvarintSize :: "u64 \<Rightarrow> nat" where
  "UvarintSize v = (if v \<ge> 0x80 then Suc (UvarintSize (drop_bit 7 v)) else 1)"
  by pat_completeness auto

termination
  by (relation "measure unat") (auto dest: drop_bit_7_less)

declare UvarintSize.simps [simp del]

text \<open>\<^verbatim>\<open>binary.PutUvarint\<close>: the bytes it writes.\<close>

function PutUvarint :: "u64 \<Rightarrow> bytes" where
  "PutUvarint v = (if v \<ge> 0x80 then (ucast v OR 0x80) # PutUvarint (drop_bit 7 v) else [ucast v])"
  by pat_completeness auto

termination
  by (relation "measure unat") (auto dest: drop_bit_7_less)

declare PutUvarint.simps [simp del]

text \<open>\<^verbatim>\<open>binary.Uvarint\<close>: the value and the number of bytes read, 0 if the input is too short, negative on overflow.\<close>

fun uvarint_loop :: "nat \<Rightarrow> u64 \<Rightarrow> nat \<Rightarrow> bytes \<Rightarrow> u64 \<times> int" where
  "uvarint_loop i x s [] = (0, 0)"
| "uvarint_loop i x s (b # bs) =
     (if i = 10 then (0, - int (i + 1))
      else if b < 0x80 then
        (if i = 9 \<and> b > 1 then (0, - int (i + 1)) else (x OR push_bit s (ucast b), int (i + 1)))
      else uvarint_loop (i + 1) (x OR push_bit s (ucast (b AND 0x7F))) (s + 7) bs)"

definition Uvarint :: "bytes \<Rightarrow> u64 \<times> int" where
  "Uvarint buf = uvarint_loop 0 0 0 buf"

lemma length_PutUvarint: "length (PutUvarint v) = UvarintSize v"
  by (induction v rule: PutUvarint.induct) (subst PutUvarint.simps, subst UvarintSize.simps, simp)

lemma PutUvarint_pos [simp]: "PutUvarint v \<noteq> []"
  by (subst PutUvarint.simps) simp

lemma UvarintSize_pos [simp]: "0 < UvarintSize v"
  by (subst UvarintSize.simps) simp

text \<open>At most nine more bytes after the first: every byte removes seven bits.\<close>

lemma UvarintSize_le: "unat v < 2 ^ (7 * n) \<Longrightarrow> 0 < n \<Longrightarrow> UvarintSize v \<le> n"
proof (induction n arbitrary: v)
  case (Suc n)
  show ?case
  proof (cases "v \<ge> 0x80")
    case True
    then have "128 \<le> unat v"
      by (simp add: word_le_nat_alt)
    then have "n \<noteq> 0"
      using Suc.prems by (cases n) auto
    moreover have "unat (drop_bit 7 v) < 2 ^ (7 * n)"
      using Suc.prems(1) by (simp only: unat_drop7) (simp add: power_add less_mult_imp_div_less mult.commute)
    ultimately show ?thesis
      using Suc.IH [of "drop_bit 7 v"] True by (subst UvarintSize.simps) simp
  qed (subst UvarintSize.simps, simp)
qed simp

lemma UvarintSize_le_10: "UvarintSize v \<le> 10"
proof (rule UvarintSize_le)
  have "unat v < 2 ^ 64"
    using unat_less_pow [of v] by simp
  also have "\<dots> \<le> 2 ^ (7 * 10)"
    by simp
  finally show "unat v < 2 ^ (7 * 10)" .
qed simp

lemma u64_split7: "push_bit s (v AND 0x7F) OR push_bit (s + 7) (drop_bit 7 v) = push_bit s (v :: u64)"
proof (rule bit_word_eqI)
  fix n :: nat
  have "n - s < 7 \<or> 7 + (n - (s + 7)) = n - s"
    by linarith
  then show "bit (push_bit s (v AND 0x7F) OR push_bit (s + 7) (drop_bit 7 v)) n = bit (push_bit s v) n"
    by (auto simp: bit_or_iff bit_push_bit_iff bit_drop_bit_eq and_masks bit_take_bit_iff dest: bit_imp_le_length)
qed

lemma byte_of_low: "(v :: u64) < 0x80 \<Longrightarrow> ucast (ucast v :: u8) = v"
  by (simp add: word_eq_iff_unsigned unsigned_ucast_eq take_bit_eq_mod word_less_nat_alt unat_arith_simps)

lemma unat_low_byte: "(v :: u64) < 0x80 \<Longrightarrow> unat (ucast v :: u8) = unat v"
  by (simp add: unsigned_ucast_eq take_bit_eq_mod word_less_nat_alt)

lemma marked_byte: "\<not> (ucast (v :: u64) OR 0x80 :: u8) < 0x80" "ucast ((ucast v OR 0x80 :: u8) AND 0x7F) = v AND 0x7F"
proof -
  have b: "bit (0x80 :: u8) n \<longleftrightarrow> n = 7" for n
    using bit_exp_iff [where 'a = u8, of 7 n] by auto
  have high: "\<not> w < 0x80" if "bit w 7" for w :: u8
  proof
    assume "w < 0x80"
    then have "w div 0x80 = 0"
      by (rule div_word_less)
    then show False
      using that by (simp add: bit_iff_odd)
  qed
  have "bit (ucast v OR 0x80 :: u8) 7"
    using b [of 7] by (simp only: bit_or_iff simp_thms)
  then show "\<not> (ucast v OR 0x80 :: u8) < 0x80"
    by (rule high)
  show "ucast ((ucast v OR 0x80 :: u8) AND 0x7F) = v AND 0x7F"
  proof (rule bit_word_eqI)
    fix n
    show "bit (ucast ((ucast v OR 0x80 :: u8) AND 0x7F) :: u64) n = bit (v AND 0x7F) n"
      using b [of n] by (simp only: bit_field_simps and_masks) auto
  qed
qed

lemma uvarint_loop_Put:
  assumes "s = 7 * i" "i < 10" "unat v < 2 ^ (64 - s)"
  shows "uvarint_loop i x s (PutUvarint v @ rest) = (x OR push_bit s v, int (i + UvarintSize v))"
  using assms
proof (induction v arbitrary: i x s rule: PutUvarint.induct)
  case (1 v)
  show ?case
  proof (cases "v \<ge> 0x80")
    case True
    have "i \<noteq> 9"
      using True "1.prems" by (auto simp: word_le_nat_alt)
    have "64 - s = 7 + (64 - (s + 7))"
      using "1.prems" \<open>i \<noteq> 9\<close> by auto
    then have "(2 :: nat) ^ (64 - s) = 128 * 2 ^ (64 - (s + 7))"
      by (simp only: power_add) simp
    then have "unat v < 2 ^ (64 - (s + 7)) * 128"
      using "1.prems"(3) by (simp only: mult.commute)
    then have bound: "unat (drop_bit 7 v) < 2 ^ (64 - (s + 7))"
      by (simp only: unat_drop7 less_mult_imp_div_less)
    show ?thesis
      using "1.IH" [OF True, of "s + 7" "i + 1" "x OR push_bit s (v AND 0x7F)"] "1.prems" bound marked_byte [of v] True \<open>i \<noteq> 9\<close>
        u64_split7 [of s v, symmetric]
      by (subst PutUvarint.simps, subst UvarintSize.simps) (simp add: or.assoc)
  next
    case False
    then have v: "v < 0x80"
      by simp
    have "\<not> (i = 9 \<and> (ucast v :: u8) > 1)"
      using "1.prems" v by (auto simp: word_less_nat_alt unat_low_byte)
    moreover have "(ucast v :: u8) < 0x80"
      using v by (simp add: word_less_nat_alt unat_low_byte)
    ultimately show ?thesis
      using "1.prems" v False byte_of_low [OF v] by (subst PutUvarint.simps, subst UvarintSize.simps) simp
  qed
qed

lemma Uvarint_Put: "Uvarint (PutUvarint v @ rest) = (v, int (UvarintSize v))"
  using uvarint_loop_Put [of 0 0 v 0 rest] unat_less_pow [of v] by (simp add: Uvarint_def)

section \<open>CRC-32C\<close>

text \<open>\<^verbatim>\<open>crc32.Checksum(data, crc32.MakeTable(crc32.Castagnoli))\<close>, bit by bit.\<close>

definition crc_bit :: "u32 \<Rightarrow> u32" where
  "crc_bit c = (if c AND 1 = 1 then drop_bit 1 c XOR 0x82F63B78 else drop_bit 1 c)"

definition crc_byte :: "u8 \<Rightarrow> u32 \<Rightarrow> u32" where
  "crc_byte b c = (crc_bit ^^ 8) (c XOR ucast b)"

definition crc32c :: "bytes \<Rightarrow> u32" where
  "crc32c data = NOT (fold crc_byte data (NOT 0))"

section \<open>Writing into a block\<close>

text \<open>
  \<open>put_bytes off bs block\<close>: storing \<open>bs\<close> at offset \<open>off\<close>, a panic (\<open>None\<close>) if it does not fit.
  \<open>copy_at\<close> is \<^verbatim>\<open>copy(block[off:], bs)\<close>, which stores what fits.
\<close>

definition splice_at :: "nat \<Rightarrow> bytes \<Rightarrow> bytes \<Rightarrow> bytes" where
  "splice_at off bs block = take off block @ bs @ drop (off + length bs) block"

definition put_bytes :: "nat \<Rightarrow> bytes \<Rightarrow> bytes \<Rightarrow> bytes option" where
  "put_bytes off bs block = (if off + length bs \<le> length block then Some (splice_at off bs block) else None)"

definition copy_at :: "nat \<Rightarrow> bytes \<Rightarrow> bytes \<Rightarrow> bytes option" where
  "copy_at off bs block = (if off \<le> length block then Some (take off block @ go_copy (drop off block) bs) else None)"

definition PutLenPrefixedString :: "nat \<Rightarrow> string \<Rightarrow> bytes \<Rightarrow> (bytes \<times> nat) option" where
  "PutLenPrefixedString off s block =
     (let n = min (length s) 255
      in do {
        b1 \<leftarrow> put_bytes off [of_nat n] block;
        b2 \<leftarrow> copy_at (off + 1) (bytes_of_string (take n s)) b1;
        Some (b2, 1 + n)
      })"

lemma length_splice_at [simp]: "off + length bs \<le> length block \<Longrightarrow> length (splice_at off bs block) = length block"
  by (simp add: splice_at_def)

lemma copy_at_fits: "off + length bs \<le> length block \<Longrightarrow> copy_at off bs block = Some (splice_at off bs block)"
  by (simp add: copy_at_def splice_at_def go_copy_def add.commute)

lemma put_bytes_fits: "off + length bs \<le> length block \<Longrightarrow> put_bytes off bs block = Some (splice_at off bs block)"
  by (simp add: put_bytes_def)

lemma splice_at_splice_at:
  "off + length bs + length cs \<le> length block \<Longrightarrow>
     splice_at (off + length bs) cs (splice_at off bs block) = splice_at off (bs @ cs) block"
  by (simp add: splice_at_def ac_simps)

lemma splice_at_Nil [simp]: "splice_at off [] block = block"
  by (simp add: splice_at_def)

text \<open>The encoding of a string of at most 255 bytes.\<close>

definition lps_bytes :: "string \<Rightarrow> bytes" where
  "lps_bytes s = of_nat (length s) # bytes_of_string s"

lemma length_lps_bytes [simp]: "length (lps_bytes s) = 1 + length s"
  by (simp add: lps_bytes_def)

lemma PutLenPrefixedString_fits:
  assumes "length s \<le> 255" "off + 1 + length s \<le> length block"
  shows "PutLenPrefixedString off s block = Some (splice_at off (lps_bytes s) block, 1 + length s)"
  using assms splice_at_splice_at [of off "[of_nat (length s)]" "bytes_of_string s" block]
  by (simp add: PutLenPrefixedString_def put_bytes_fits copy_at_fits lps_bytes_def Let_def)

section \<open>Device tables\<close>

text \<open>
  \<^verbatim>\<open>journal.Device\<close>, and the entries of a block's device table: the type \<^verbatim>\<open>deviceTableEntry\<close> of the reader,
  which is \<^verbatim>\<open>devEntry\<close> in the writer's \<^verbatim>\<open>flushBlock\<close>.
\<close>

record jDevice =
  jd_Source :: u8
  jd_NAME :: u64
  jd_ProductCode :: u16
  jd_ModelID :: string
  jd_SoftwareVersion :: string
  jd_ModelVersion :: string
  jd_ModelSerial :: string

record deviceTableEntry =
  te_Source :: u8
  te_NAME :: u64
  te_ActiveFrom :: u32
  te_ProductCode :: u16
  te_ModelID :: string
  te_SoftwareVersion :: string
  te_ModelVersion :: string
  te_ModelSerial :: string

definition toDevice :: "deviceTableEntry \<Rightarrow> jDevice" where
  "toDevice e =
     \<lparr>jd_Source = te_Source e, jd_NAME = te_NAME e, jd_ProductCode = te_ProductCode e, jd_ModelID = te_ModelID e,
      jd_SoftwareVersion = te_SoftwareVersion e, jd_ModelVersion = te_ModelVersion e, jd_ModelSerial = te_ModelSerial e\<rparr>"

datatype journal_error =
  ReadError
| BadMagic bytes
| UnsupportedVersion u8
| InvalidBlockSize nat
| UnsupportedCompression u8
| NoBlockIndex
| BlockIndexTooLarge nat
| BlockIndexBeforeHeader
| BlockOffsetInvalid nat int
| ChecksumMismatch nat u32 u32
| InvalidCompressedLength nat u32 int
| InvalidDictLength nat u32 int
| InvalidBoundaries nat
| DecompressError nat
| DecompressedSize nat nat
| SeekNeedsV2
| EmptyJournal
| BlockOutOfRange int
| FrameOverrun nat int
| BadDelta nat int
| TruncatedCANID nat int
| TruncatedFrame nat int
| BadLength nat int
| TableOffsetOutOfRange
| TableFieldsOutOfRange nat
| StringLengthOutOfRange nat
| StringDataOutOfRange nat nat
| Panicked

definition ReadLenPrefixedString :: "bytes \<Rightarrow> nat \<Rightarrow> journal_error + string \<times> nat" where
  "ReadLenPrefixedString block off =
     (if off \<ge> length block then Inl (StringLengthOutOfRange off)
      else
        let n = unat (block ! off)
        in if off + 1 + n > length block then Inl (StringDataOutOfRange off n)
           else Inr (string_of_bytes (take n (drop (off + 1) block)), 1 + n))"

text \<open>The four strings of an entry, from offset \<open>off\<close> on.\<close>

fun read_strings :: "bytes \<Rightarrow> nat \<Rightarrow> nat \<Rightarrow> journal_error + string list \<times> nat" where
  "read_strings block off 0 = Inr ([], off)"
| "read_strings block off (Suc k) =
     (case ReadLenPrefixedString block off of
        Inl e \<Rightarrow> Inl e
      | Inr (s, n) \<Rightarrow>
          (case read_strings block (off + n) k of Inl e \<Rightarrow> Inl e | Inr (ss, off') \<Rightarrow> Inr (s # ss, off')))"

definition read_entry :: "bytes \<Rightarrow> nat \<Rightarrow> nat \<Rightarrow> journal_error + deviceTableEntry \<times> nat" where
  "read_entry block i off =
     (if off + 15 > length block then Inl (TableFieldsOutOfRange i)
      else
        (case read_strings block (off + 15) 4 of
           Inl e \<Rightarrow> Inl e
         | Inr (ss, off') \<Rightarrow>
             Inr (\<lparr>te_Source = block ! off, te_NAME = LE_Uint64 (drop (off + 1) block),
                   te_ActiveFrom = LE_Uint32 (drop (off + 9) block), te_ProductCode = LE_Uint16 (drop (off + 13) block),
                   te_ModelID = ss ! 0, te_SoftwareVersion = ss ! 1, te_ModelVersion = ss ! 2, te_ModelSerial = ss ! 3\<rparr>, off')))"

fun read_entries :: "bytes \<Rightarrow> nat \<Rightarrow> nat \<Rightarrow> nat \<Rightarrow> journal_error + deviceTableEntry list" where
  "read_entries block i 0 off = Inr []"
| "read_entries block i (Suc k) off =
     (case read_entry block i off of
        Inl e \<Rightarrow> Inl e
      | Inr (e, off') \<Rightarrow>
          (case read_entries block (Suc i) k off' of Inl er \<Rightarrow> Inl er | Inr es \<Rightarrow> Inr (e # es)))"

text \<open>A negative offset is an index out of range.\<close>

definition readDeviceTable :: "bytes \<Rightarrow> int \<Rightarrow> journal_error + deviceTableEntry list" where
  "readDeviceTable block offset =
     (if offset + 2 > int (length block) then Inl TableOffsetOutOfRange
      else if offset < 0 then Inl Panicked
      else read_entries block 0 (unat (LE_Uint16 (drop (nat offset) block))) (nat offset + 2))"

section \<open>A device table is read back\<close>

definition entry_strings :: "deviceTableEntry \<Rightarrow> string list" where
  "entry_strings e = [te_ModelID e, te_SoftwareVersion e, te_ModelVersion e, te_ModelSerial e]"

definition entry_bytes :: "deviceTableEntry \<Rightarrow> bytes" where
  "entry_bytes e = [te_Source e] @ LE_PutUint64 (te_NAME e) @ LE_PutUint32 (te_ActiveFrom e) @ LE_PutUint16 (te_ProductCode e)
     @ concat (map lps_bytes (entry_strings e))"

definition entry_ok :: "deviceTableEntry \<Rightarrow> bool" where
  "entry_ok e \<longleftrightarrow> list_all (\<lambda>s. length s \<le> 255) (entry_strings e)"

definition table_bytes :: "deviceTableEntry list \<Rightarrow> bytes" where
  "table_bytes es = LE_PutUint16 (of_nat (length es)) @ concat (map entry_bytes es)"

lemma ReadLenPrefixedString_lps:
  assumes "length s \<le> 255"
  shows "ReadLenPrefixedString (pre @ lps_bytes s @ rest) (length pre) = Inr (s, 1 + length s)"
proof -
  have "unat (of_nat (length s) :: u8) = length s"
    using assms by (simp add: unat_of_nat take_bit_eq_mod)
  then show ?thesis
    by (simp add: ReadLenPrefixedString_def lps_bytes_def nth_append)
qed

lemma read_strings_lps:
  "\<forall>s \<in> set ss. length s \<le> 255 \<Longrightarrow>
     read_strings (pre @ concat (map lps_bytes ss) @ rest) (length pre) (length ss)
       = Inr (ss, length pre + length (concat (map lps_bytes ss)))"
proof (induction ss arbitrary: pre)
  case (Cons s ss)
  have "read_strings ((pre @ lps_bytes s) @ concat (map lps_bytes ss) @ rest) (length (pre @ lps_bytes s)) (length ss)
       = Inr (ss, length (pre @ lps_bytes s) + length (concat (map lps_bytes ss)))"
    by (rule Cons.IH) (use Cons.prems in auto)
  then show ?case
    using ReadLenPrefixedString_lps [of s pre "concat (map lps_bytes ss) @ rest"] Cons.prems by (simp add: add.assoc)
qed simp

lemma read_entry_bytes:
  assumes "entry_ok e"
  shows "read_entry (pre @ entry_bytes e @ rest) i (length pre) = Inr (e, length pre + length (entry_bytes e))"
proof -
  let ?block = "pre @ entry_bytes e @ rest"
  let ?fixed = "[te_Source e] @ LE_PutUint64 (te_NAME e) @ LE_PutUint32 (te_ActiveFrom e) @ LE_PutUint16 (te_ProductCode e)"
  have block: "?block = (pre @ ?fixed) @ concat (map lps_bytes (entry_strings e)) @ rest"
    by (simp add: entry_bytes_def)
  have "read_strings ?block (length (pre @ ?fixed)) (length (entry_strings e)) =
      Inr (entry_strings e, length (pre @ ?fixed) + length (concat (map lps_bytes (entry_strings e))))"
    unfolding block by (rule read_strings_lps) (use assms in \<open>simp add: entry_ok_def list_all_iff\<close>)
  then have strings: "read_strings ?block (length pre + 15) 4 = Inr (entry_strings e, length pre + length (entry_bytes e))"
    by (simp add: entry_bytes_def entry_strings_def numeral_eq_Suc)
  have "drop (length pre + 1) ?block = LE_PutUint64 (te_NAME e) @ LE_PutUint32 (te_ActiveFrom e) @ LE_PutUint16 (te_ProductCode e)
      @ concat (map lps_bytes (entry_strings e)) @ rest"
    "drop (length pre + 9) ?block = LE_PutUint32 (te_ActiveFrom e) @ LE_PutUint16 (te_ProductCode e)
      @ concat (map lps_bytes (entry_strings e)) @ rest"
    "drop (length pre + 13) ?block = LE_PutUint16 (te_ProductCode e) @ concat (map lps_bytes (entry_strings e)) @ rest"
    by (simp_all add: entry_bytes_def)
  then show ?thesis
    using strings by (simp add: read_entry_def le_simps nth_append entry_bytes_def entry_strings_def)
qed

lemma read_entries_bytes:
  "\<forall>e \<in> set es. entry_ok e \<Longrightarrow>
     read_entries (pre @ concat (map entry_bytes es) @ rest) i (length es) (length pre) = Inr es"
proof (induction es arbitrary: pre i)
  case (Cons e es)
  have "read_entries ((pre @ entry_bytes e) @ concat (map entry_bytes es) @ rest) (Suc i) (length es) (length (pre @ entry_bytes e)) = Inr es"
    by (rule Cons.IH) (use Cons.prems in auto)
  then show ?case
    using read_entry_bytes [of e pre "concat (map entry_bytes es) @ rest" i] Cons.prems by simp
qed simp

lemma readDeviceTable_bytes:
  assumes "\<forall>e \<in> set es. entry_ok e" "length es < 65536"
  shows "readDeviceTable (pre @ table_bytes es @ rest) (int (length pre)) = Inr es"
proof -
  have "unat (of_nat (length es) :: u16) = length es"
    using assms(2) by (simp add: unat_of_nat take_bit_eq_mod)
  moreover have "read_entries ((pre @ LE_PutUint16 (of_nat (length es))) @ concat (map entry_bytes es) @ rest) 0 (length es)
      (length (pre @ LE_PutUint16 (of_nat (length es)))) = Inr es"
    by (rule read_entries_bytes [OF assms(1)])
  ultimately show ?thesis
    by (simp add: readDeviceTable_def table_bytes_def le_simps)
qed

end
