(* ===== verification/JournalWriter.thy ===== *)
theory JournalWriter
  imports JournalFormat
begin

text \<open>
  The journal writers: \<^verbatim>\<open>JournalWriter\<close> (\<^verbatim>\<open>journal_writer.go\<close>), which encodes frames into blocks, and
  \<^verbatim>\<open>BlockWriter\<close> (\<^verbatim>\<open>block_writer.go\<close>), which appends encoded blocks. Files live on a disk that maps paths
  to contents; writes to an open file succeed, a write without an open file is an error (\<^verbatim>\<open>os.ErrInvalid\<close>).
  The compressor is a parameter. The device registry, which the broker changes concurrently, is an
  argument of the operations that read it, as is the clock.
\<close>

section \<open>File names\<close>

text \<open>\<^verbatim>\<open>t.UTC().Format("20060102T150405.000Z")\<close>, with the civil date from the days since year 1.\<close>

definition civil_date :: "int \<Rightarrow> int \<times> int \<times> int" where
  "civil_date days =
     (let z = days + 306; era = z div 146097; doe = z mod 146097;
          yoe = (doe - doe div 1460 + doe div 36524 - doe div 146096) div 365;
          doy = doe - (365 * yoe + yoe div 4 - yoe div 100);
          mp = (5 * doy + 2) div 153;
          d = doy - (153 * mp + 2) div 5 + 1;
          m = (if mp < 10 then mp + 3 else mp - 9)
      in (yoe + era * 400 + (if m \<le> 2 then 1 else 0), m, d))"

definition pad_int :: "nat \<Rightarrow> int \<Rightarrow> string" where
  "pad_int width n = (let s = FormatUint 10 (nat n) in replicate (width - length s) (CHR ''0'') @ s)"

definition format_timestamp :: "gotime \<Rightarrow> string" where
  "format_timestamp t =
     (let secs = t div 10 ^ 9; ms = t mod 10 ^ 9 div 10 ^ 6; (y, m, d) = civil_date (secs div 86400); s = secs mod 86400
      in pad_int 4 y @ pad_int 2 m @ pad_int 2 d @ ''T'' @ pad_int 2 (s div 3600) @ pad_int 2 (s div 60 mod 60) @ pad_int 2 (s mod 60)
         @ ''.'' @ pad_int 3 ms @ ''Z'')"

text \<open>\<^verbatim>\<open>filepath.Join\<close> of a directory and a file name, for a directory path that is already clean.\<close>

definition journal_path :: "string \<Rightarrow> string \<Rightarrow> gotime \<Rightarrow> string" where
  "journal_path dir pfx ts =
     (if dir = [] then [] else dir @ ''/'') @ pfx @ ''-'' @ format_timestamp ts @ ''.lpj''"

section \<open>Configuration\<close>

record JournalConfig =
  jcf_Dir :: string
  jcf_Prefix :: string
  jcf_BlockSize :: int
  jcf_Compression :: CompressionType
  jcf_RotateDuration :: duration
  jcf_RotateSize :: int
  jcf_RotateCount :: int
  jcf_OnRotate :: bool

definition JournalConfig_setDefaults :: "JournalConfig \<Rightarrow> JournalConfig" where
  "JournalConfig_setDefaults c =
     c\<lparr>jcf_Prefix := (if jcf_Prefix c = [] then ''nmea2k'' else jcf_Prefix c),
       jcf_BlockSize := (if jcf_BlockSize c = 0 then 262144 else jcf_BlockSize c)\<rparr>"

datatype writer_error =
  BlockSizeTooSmall int
| BlockSizeNotPower int
| FileNotOpen
| WrongBlockSize nat
| BlockCRCMismatch u32 u32
| WriterPanic

definition JournalConfig_validate :: "JournalConfig \<Rightarrow> writer_error option" where
  "JournalConfig_validate c =
     (if jcf_BlockSize c < 4096 then Some (BlockSizeTooSmall (jcf_BlockSize c))
      else if jcf_BlockSize c AND (jcf_BlockSize c - 1) \<noteq> 0 then Some (BlockSizeNotPower (jcf_BlockSize c))
      else None)"

text \<open>The zstd library: plain and dictionary compression, dictionary training, and their failures.\<close>

record zstd =
  z_encode :: "bytes \<Rightarrow> bytes"
  z_decode :: "bytes \<Rightarrow> bytes option"
  z_buildDict :: "bytes list \<Rightarrow> bytes option"
  z_dictEncoder :: "bytes \<Rightarrow> (bytes \<Rightarrow> bytes) option"
  z_decodeDict :: "bytes \<Rightarrow> bytes \<Rightarrow> bytes option"

section \<open>Files\<close>

type_synonym disk = "(string, bytes) gomap"

definition disk_append :: "string \<Rightarrow> bytes \<Rightarrow> disk \<Rightarrow> disk" where
  "disk_append path bs d = gm_put path ((case gm_get d path of None \<Rightarrow> [] | Some c \<Rightarrow> c) @ bs) d"

definition file_header :: "int \<Rightarrow> CompressionType \<Rightarrow> bytes" where
  "file_header blockSize ct =
     Magic @ [Version2] @ LE_PutUint32 (word_of_int blockSize) @ LE_PutUint32 (ucast (compression_byte ct)) @ [0, 0, 0, 0]"

definition block_index :: "int list \<Rightarrow> bytes" where
  "block_index offsets =
     concat (map (\<lambda>off. LE_PutUint64 (word_of_int off)) offsets) @ LE_PutUint32 (of_nat (length offsets)) @ BlockIndexMagic"

section \<open>The journal writer\<close>

record journalDeviceChange =
  dc_Bus :: string
  dc_Source :: u8
  dc_NAME :: u64
  dc_FrameIdx :: u32

record JournalWriter =
  jw_cfg :: JournalConfig
  jw_paused :: bool
  jw_blocksWritten :: u64
  jw_bytesWritten :: u64
  jw_disk :: disk
  jw_file :: "string option"
  jw_fileStart :: gotime
  jw_fileBytes :: int
  jw_fileFrames :: int
  jw_block :: bytes
  jw_dataOffset :: nat
  jw_frameCount :: u32
  jw_baseTimeUs :: int
  jw_lastTimeUs :: int
  jw_baseSeq :: u64
  jw_blockStartDevices :: "jDevice list"
  jw_blockStartDeviceTableSize :: nat
  jw_blockDeviceChanges :: "journalDeviceChange list"
  jw_blockOffsets :: "int list"
  jw_rotated :: "string list"

definition NewJournalWriter :: "JournalConfig \<Rightarrow> disk \<Rightarrow> writer_error + JournalWriter" where
  "NewJournalWriter cfg0 d =
     (let cfg = JournalConfig_setDefaults cfg0
      in case JournalConfig_validate cfg of
           Some e \<Rightarrow> Inl e
         | None \<Rightarrow>
             Inr \<lparr>jw_cfg = cfg, jw_paused = False, jw_blocksWritten = 0, jw_bytesWritten = 0, jw_disk = d, jw_file = None,
                  jw_fileStart = zeroTime, jw_fileBytes = 0, jw_fileFrames = 0,
                  jw_block = replicate (nat (jcf_BlockSize cfg)) 0, jw_dataOffset = 0, jw_frameCount = 0, jw_baseTimeUs = 0,
                  jw_lastTimeUs = 0, jw_baseSeq = 0, jw_blockStartDevices = [], jw_blockStartDeviceTableSize = 0,
                  jw_blockDeviceChanges = [], jw_blockOffsets = [], jw_rotated = []\<rparr>)"

definition SetPaused :: "bool \<Rightarrow> JournalWriter \<Rightarrow> JournalWriter" where
  "SetPaused p w = w\<lparr>jw_paused := p\<rparr>"

definition writer_Stats :: "JournalWriter \<Rightarrow> u64 \<times> u64" where
  "writer_Stats w = (jw_blocksWritten w, jw_bytesWritten w)"

text \<open>\<^verbatim>\<open>file.Write\<close>, with the bytes counted in \<^verbatim>\<open>fileBytes\<close>.\<close>

definition jw_write :: "bytes \<Rightarrow> JournalWriter \<Rightarrow> writer_error + JournalWriter" where
  "jw_write bs w =
     (case jw_file w of
        None \<Rightarrow> Inl FileNotOpen
      | Some path \<Rightarrow> Inr (w\<lparr>jw_disk := disk_append path bs (jw_disk w), jw_fileBytes := jw_fileBytes w + int (length bs)\<rparr>))"

definition openFile :: "gotime \<Rightarrow> JournalWriter \<Rightarrow> JournalWriter" where
  "openFile ts w =
     (let path = journal_path (jcf_Dir (jw_cfg w)) (jcf_Prefix (jw_cfg w)) ts
      in w\<lparr>jw_disk := gm_put path (file_header (jcf_BlockSize (jw_cfg w)) (jcf_Compression (jw_cfg w))) (jw_disk w),
           jw_file := Some path, jw_fileStart := ts, jw_fileBytes := int FileHeaderSize, jw_fileFrames := 0, jw_blockOffsets := []\<rparr>)"

definition deviceTableSize :: "JournalWriter \<Rightarrow> nat" where
  "deviceTableSize w = 2 + jw_blockStartDeviceTableSize w + length (jw_blockDeviceChanges w) * DeviceEntryMaxSize"

definition jdevice_of :: "Device \<Rightarrow> jDevice" where
  "jdevice_of dev =
     \<lparr>jd_Source = d_Source dev, jd_NAME = d_NAME dev, jd_ProductCode = d_ProductCode dev, jd_ModelID = d_ModelID dev,
      jd_SoftwareVersion = d_SoftwareVersion dev, jd_ModelVersion = d_ModelVersion dev, jd_ModelSerial = d_ModelSerial dev\<rparr>"

definition jdevice_size :: "jDevice \<Rightarrow> nat" where
  "jdevice_size jd = 15 + 4 + length (jd_ModelID jd) + length (jd_SoftwareVersion jd) + length (jd_ModelVersion jd) + length (jd_ModelSerial jd)"

definition initBlock :: "DeviceRegistry \<Rightarrow> int \<Rightarrow> u64 \<Rightarrow> JournalWriter \<Rightarrow> JournalWriter" where
  "initBlock devices baseTimeUs baseSeq w =
     (let starts = map jdevice_of (filter (\<lambda>dev. d_NAME dev \<noteq> 0) (DeviceRegistry_Snapshot devices));
          zero = replicate (length (jw_block w)) 0
      in w\<lparr>jw_block := splice_at 8 (LE_PutUint64 baseSeq) (splice_at 0 (LE_PutUint64 (word_of_int baseTimeUs)) zero),
           jw_dataOffset := 16, jw_frameCount := 0, jw_baseTimeUs := baseTimeUs, jw_lastTimeUs := baseTimeUs,
           jw_baseSeq := baseSeq, jw_blockStartDevices := starts,
           jw_blockStartDeviceTableSize := sum_list (map jdevice_size starts), jw_blockDeviceChanges := []\<rparr>)"

definition start_entry :: "jDevice \<Rightarrow> deviceTableEntry" where
  "start_entry d =
     \<lparr>te_Source = jd_Source d, te_NAME = jd_NAME d, te_ActiveFrom = 0, te_ProductCode = jd_ProductCode d,
      te_ModelID = jd_ModelID d, te_SoftwareVersion = jd_SoftwareVersion d, te_ModelVersion = jd_ModelVersion d,
      te_ModelSerial = jd_ModelSerial d\<rparr>"

definition change_entry :: "DeviceRegistry \<Rightarrow> journalDeviceChange \<Rightarrow> deviceTableEntry" where
  "change_entry devices c =
     (let e = \<lparr>te_Source = dc_Source c, te_NAME = dc_NAME c, te_ActiveFrom = dc_FrameIdx c, te_ProductCode = 0, te_ModelID = [],
               te_SoftwareVersion = [], te_ModelVersion = [], te_ModelSerial = []\<rparr>
      in case DeviceRegistry_Get devices (dc_Bus c) (dc_Source c) of
           None \<Rightarrow> e
         | Some dev \<Rightarrow> e\<lparr>te_ProductCode := d_ProductCode dev, te_ModelID := d_ModelID dev,
                         te_SoftwareVersion := d_SoftwareVersion dev, te_ModelVersion := d_ModelVersion dev,
                         te_ModelSerial := d_ModelSerial dev\<rparr>)"

definition block_entries :: "DeviceRegistry \<Rightarrow> JournalWriter \<Rightarrow> deviceTableEntry list" where
  "block_entries devices w =
     map start_entry (jw_blockStartDevices w) @ map (change_entry devices) (jw_blockDeviceChanges w)"

definition entry_size :: "deviceTableEntry \<Rightarrow> nat" where
  "entry_size e = 15 + 4 + length (te_ModelID e) + length (te_SoftwareVersion e) + length (te_ModelVersion e) + length (te_ModelSerial e)"

definition put_entry :: "deviceTableEntry \<Rightarrow> bytes \<times> nat \<Rightarrow> (bytes \<times> nat) option" where
  "put_entry e = (\<lambda>(block, off). do {
     b1 \<leftarrow> put_bytes off [te_Source e] block;
     b2 \<leftarrow> put_bytes (off + 1) (LE_PutUint64 (te_NAME e)) b1;
     b3 \<leftarrow> put_bytes (off + 9) (LE_PutUint32 (te_ActiveFrom e)) b2;
     b4 \<leftarrow> put_bytes (off + 13) (LE_PutUint16 (te_ProductCode e)) b3;
     (b5, n1) \<leftarrow> PutLenPrefixedString (off + 15) (te_ModelID e) b4;
     (b6, n2) \<leftarrow> PutLenPrefixedString (off + 15 + n1) (te_SoftwareVersion e) b5;
     (b7, n3) \<leftarrow> PutLenPrefixedString (off + 15 + n1 + n2) (te_ModelVersion e) b6;
     (b8, n4) \<leftarrow> PutLenPrefixedString (off + 15 + n1 + n2 + n3) (te_ModelSerial e) b7;
     Some (b8, off + 15 + n1 + n2 + n3 + n4)
   })"

text \<open>The block with its device table, trailer and checksum; \<open>None\<close>: the table does not fit into the block.\<close>

definition finish_block :: "deviceTableEntry list \<Rightarrow> u32 \<Rightarrow> bytes \<Rightarrow> bytes option" where
  "finish_block entries frameCount block =
     (let bs = length block; devTableBytes = 2 + sum_list (map entry_size entries);
          devTableOffset = int bs - int BlockTrailerLen - int devTableBytes; trailerOff = bs - BlockTrailerLen
      in if devTableOffset < 0 then None
         else do {
           b1 \<leftarrow> put_bytes (nat devTableOffset) (LE_PutUint16 (of_nat (length entries))) block;
           (b2, _) \<leftarrow> fold_opt put_entry entries (b1, nat devTableOffset + 2);
           b3 \<leftarrow> put_bytes trailerOff (LE_PutUint16 (of_nat devTableBytes)) b2;
           b4 \<leftarrow> put_bytes (trailerOff + 2) (LE_PutUint32 frameCount) b3;
           put_bytes (bs - 4) (LE_PutUint32 (crc32c (take (bs - 4) b4))) b4
         })"

definition block_header :: "int \<Rightarrow> u64 \<Rightarrow> bytes" where
  "block_header baseTimeUs baseSeq = LE_PutUint64 (word_of_int baseTimeUs) @ LE_PutUint64 baseSeq"

definition end_block :: "JournalWriter \<Rightarrow> JournalWriter" where
  "end_block w = w\<lparr>jw_frameCount := 0, jw_dataOffset := 16\<rparr>"

definition jw_writeCompressedBlock :: "zstd \<Rightarrow> JournalWriter \<Rightarrow> writer_error + JournalWriter" where
  "jw_writeCompressedBlock z w =
     (let w0 = w\<lparr>jw_blockOffsets := jw_blockOffsets w @ [jw_fileBytes w]\<rparr>;
          buf = z_encode z (jw_block w0);
          hdr = block_header (jw_baseTimeUs w0) (jw_baseSeq w0) @ LE_PutUint32 (of_nat (length buf))
      in case jw_write hdr w0 of
           Inl e \<Rightarrow> Inl e
         | Inr w1 \<Rightarrow> (case jw_write buf w1 of Inl e \<Rightarrow> Inl e | Inr w2 \<Rightarrow> Inr (end_block w2)))"

text \<open>\<^verbatim>\<open>buildBlockDict\<close>: overlapping samples of 256 bytes, at least four of them.\<close>

definition dict_samples :: "bytes \<Rightarrow> nat \<Rightarrow> bytes list" where
  "dict_samples block frameEnd =
     map (\<lambda>k. take 256 (drop (8 + 128 * k) block)) (filter (\<lambda>k. 8 + 128 * k + 256 \<le> frameEnd) [0..<frameEnd])"

definition buildBlockDict :: "zstd \<Rightarrow> JournalWriter \<Rightarrow> bytes option" where
  "buildBlockDict z w =
     (let samples = dict_samples (jw_block w) (jw_dataOffset w)
      in if length samples < 4 then None else z_buildDict z samples)"

definition dict_compress :: "zstd \<Rightarrow> JournalWriter \<Rightarrow> bytes \<times> bytes" where
  "dict_compress z w =
     (case (if jw_dataOffset w > 1024 then buildBlockDict z w else None) of
        None \<Rightarrow> ([], z_encode z (jw_block w))
      | Some dict \<Rightarrow>
          (case z_dictEncoder z dict of
             None \<Rightarrow> ([], z_encode z (jw_block w))
           | Some enc \<Rightarrow> (dict, enc (jw_block w))))"

definition jw_writeDictCompressedBlock :: "zstd \<Rightarrow> JournalWriter \<Rightarrow> writer_error + JournalWriter" where
  "jw_writeDictCompressedBlock z w =
     (let w0 = w\<lparr>jw_blockOffsets := jw_blockOffsets w @ [jw_fileBytes w]\<rparr>;
          (dict, buf) = dict_compress z w0;
          hdr = block_header (jw_baseTimeUs w0) (jw_baseSeq w0) @ LE_PutUint32 (of_nat (length dict)) @ LE_PutUint32 (of_nat (length buf))
      in case jw_write hdr w0 of
           Inl e \<Rightarrow> Inl e
         | Inr w1 \<Rightarrow>
             (case (if length dict > 0 then jw_write dict w1 else Inr w1) of
                Inl e \<Rightarrow> Inl e
              | Inr w2 \<Rightarrow> (case jw_write buf w2 of Inl e \<Rightarrow> Inl e | Inr w3 \<Rightarrow> Inr (end_block w3))))"

definition write_block :: "zstd \<Rightarrow> JournalWriter \<Rightarrow> writer_error + JournalWriter" where
  "write_block z w =
     (case jcf_Compression (jw_cfg w) of
        CompressionZstd \<Rightarrow> jw_writeCompressedBlock z w
      | CompressionZstdDict \<Rightarrow> jw_writeDictCompressedBlock z w
      | CompressionNone \<Rightarrow> (case jw_write (jw_block w) w of Inl e \<Rightarrow> Inl e | Inr w1 \<Rightarrow> Inr (end_block w1)))"

definition flushBlock :: "zstd \<Rightarrow> DeviceRegistry \<Rightarrow> JournalWriter \<Rightarrow> writer_error + JournalWriter" where
  "flushBlock z devices w =
     (if jw_frameCount w = 0 then Inr w
      else
        case finish_block (block_entries devices w) (jw_frameCount w) (jw_block w) of
          None \<Rightarrow> Inl WriterPanic
        | Some block \<Rightarrow>
            (case write_block z (w\<lparr>jw_block := block\<rparr>) of
               Inl e \<Rightarrow> Inl e
             | Inr w1 \<Rightarrow> Inr (w1\<lparr>jw_blocksWritten := jw_blocksWritten w1 + 1,
                               jw_bytesWritten := jw_bytesWritten w1 + word_of_int (jw_fileBytes w1 - jw_fileBytes w)\<rparr>)))"

definition jw_writeBlockIndex :: "JournalWriter \<Rightarrow> writer_error + JournalWriter" where
  "jw_writeBlockIndex w =
     (if length (jw_blockOffsets w) = 0 then Inr w
      else case jw_file w of
             None \<Rightarrow> Inl FileNotOpen
           | Some path \<Rightarrow> Inr (w\<lparr>jw_disk := disk_append path (block_index (jw_blockOffsets w)) (jw_disk w)\<rparr>))"

text \<open>The index is written, the file closed and reported.\<close>

definition close_file :: "JournalWriter \<Rightarrow> writer_error + JournalWriter" where
  "close_file w =
     (case (if jcf_Compression (jw_cfg w) \<noteq> CompressionNone then jw_writeBlockIndex w else Inr w) of
        Inl e \<Rightarrow> Inl e
      | Inr w1 \<Rightarrow>
          (case jw_file w1 of
             None \<Rightarrow> Inl FileNotOpen
           | Some path \<Rightarrow>
               Inr (w1\<lparr>jw_file := None, jw_rotated := (if jcf_OnRotate (jw_cfg w1) then jw_rotated w1 @ [path] else jw_rotated w1)\<rparr>)))"

definition jw_checkRotation :: "gotime \<Rightarrow> JournalWriter \<Rightarrow> writer_error + JournalWriter" where
  "jw_checkRotation now w =
     (let cfg = jw_cfg w;
          rotate = (jcf_RotateDuration cfg > 0 \<and> time_Sub now (jw_fileStart w) \<ge> jcf_RotateDuration cfg
                    \<or> jcf_RotateSize cfg > 0 \<and> jw_fileBytes w \<ge> jcf_RotateSize cfg
                    \<or> jcf_RotateCount cfg > 0 \<and> jw_fileFrames w \<ge> jcf_RotateCount cfg)
      in if \<not> rotate then Inr w
         else case close_file w of
                Inl e \<Rightarrow> Inl e
              | Inr w1 \<Rightarrow> Inr (w1\<lparr>jw_fileBytes := 0, jw_fileFrames := 0, jw_blockOffsets := []\<rparr>))"

definition jw_finalize :: "zstd \<Rightarrow> DeviceRegistry \<Rightarrow> JournalWriter \<Rightarrow> writer_error + JournalWriter" where
  "jw_finalize z devices w =
     (case (if jw_frameCount w > 0 then flushBlock z devices w else Inr w) of
        Inl e \<Rightarrow> Inl e
      | Inr w1 \<Rightarrow> if jw_file w1 = None then Inr w1 else close_file w1)"

text \<open>The encoding of a frame at the end of the block's frame data.\<close>

definition frame_size :: "u64 \<Rightarrow> nat \<Rightarrow> nat" where
  "frame_size deltaUs dataLen =
     (if dataLen = 8 then UvarintSize deltaUs + 4 + 8
      else UvarintSize deltaUs + 4 + UvarintSize (of_nat dataLen) + dataLen)"

definition encode_frame :: "u64 \<Rightarrow> RxFrame \<Rightarrow> bytes \<times> nat \<Rightarrow> (bytes \<times> nat) option" where
  "encode_frame deltaUs frame = (\<lambda>(block, off0). do {
     let canID = BuildCANID (rx_Header frame);
     let standard = (length (rx_Data frame) = 8);
     b1 \<leftarrow> put_bytes off0 (PutUvarint deltaUs) block;
     let off1 = off0 + UvarintSize deltaUs;
     b2 \<leftarrow> put_bytes off1 (LE_PutUint32 (if standard then canID OR 0x80000000 else canID)) b1;
     let off2 = off1 + 4;
     if standard then do {
       b3 \<leftarrow> copy_at off2 (rx_Data frame) b2;
       Some (b3, off2 + 8)
     } else do {
       b3 \<leftarrow> put_bytes off2 (PutUvarint (of_nat (length (rx_Data frame)))) b2;
       let off3 = off2 + UvarintSize (of_nat (length (rx_Data frame)));
       b4 \<leftarrow> copy_at off3 (rx_Data frame) b3;
       Some (b4, off3 + length (rx_Data frame))
     }
   })"

definition device_change :: "u32 \<Rightarrow> RxFrame \<Rightarrow> journalDeviceChange list" where
  "device_change idx frame =
     (if h_PGN (rx_Header frame) = 60928 \<and> length (rx_Data frame) \<ge> 8
      then [\<lparr>dc_Bus = rx_Bus frame, dc_Source = h_Source (rx_Header frame), dc_NAME = LE_Uint64 (take 8 (rx_Data frame)), dc_FrameIdx = idx\<rparr>]
      else [])"

definition store_in_block :: "u64 \<Rightarrow> int \<Rightarrow> RxFrame \<Rightarrow> JournalWriter \<Rightarrow> writer_error + JournalWriter" where
  "store_in_block deltaUs tsUs frame w =
     (case encode_frame deltaUs frame (jw_block w, jw_dataOffset w) of
        None \<Rightarrow> Inl WriterPanic
      | Some (block, off) \<Rightarrow>
          Inr (w\<lparr>jw_block := block, jw_blockDeviceChanges := jw_blockDeviceChanges w @ device_change (jw_frameCount w) frame,
                 jw_dataOffset := off, jw_lastTimeUs := tsUs, jw_frameCount := jw_frameCount w + 1,
                 jw_fileFrames := jw_fileFrames w + 1\<rparr>))"

definition frame_delta :: "JournalWriter \<Rightarrow> int \<Rightarrow> u64" where
  "frame_delta w tsUs =
     (if jw_frameCount w > 0 \<and> tsUs \<ge> jw_lastTimeUs w then word_of_int (tsUs - jw_lastTimeUs w) else 0)"

text \<open>Making room: a full block is written out and a new one begun.\<close>

definition next_block :: "zstd \<Rightarrow> DeviceRegistry \<Rightarrow> gotime \<Rightarrow> int \<Rightarrow> u64 \<Rightarrow> JournalWriter \<Rightarrow> writer_error + JournalWriter" where
  "next_block z devices now tsUs seq w =
     (case flushBlock z devices w of
        Inl e \<Rightarrow> Inl e
      | Inr w1 \<Rightarrow> (case jw_checkRotation now w1 of Inl e \<Rightarrow> Inl e | Inr w2 \<Rightarrow> Inr (initBlock devices tsUs seq w2)))"

definition appendFrame :: "zstd \<Rightarrow> DeviceRegistry \<Rightarrow> gotime \<Rightarrow> RxFrame \<Rightarrow> JournalWriter \<Rightarrow> writer_error + JournalWriter" where
  "appendFrame z devices now frame w0 =
     (let w = (if jw_file w0 = None then openFile (rx_Timestamp frame) w0 else w0);
          tsUs = UnixMicro (rx_Timestamp frame);
          deltaUs = frame_delta w tsUs;
          available = jcf_BlockSize (jw_cfg w) - int (jw_dataOffset w) - int (deviceTableSize w) - int BlockTrailerLen;
          full = available < int (frame_size deltaUs (length (rx_Data frame)))
      in case (if full then next_block z devices now tsUs (rx_Seq frame) w else Inr w) of
           Inl e \<Rightarrow> Inl e
         | Inr w1 \<Rightarrow>
             store_in_block (if full then 0 else deltaUs) tsUs frame
               (if jw_frameCount w1 = 0 then initBlock devices tsUs (rx_Seq frame) w1 else w1))"

text \<open>
  \<^verbatim>\<open>Run\<close>: one frame from the channel, and the whole run until the channel is closed; the registry and
  the clock are those of the moment.
\<close>

definition run_frame :: "zstd \<Rightarrow> DeviceRegistry \<times> gotime \<times> RxFrame \<Rightarrow> JournalWriter \<Rightarrow> writer_error + JournalWriter" where
  "run_frame z = (\<lambda>(devices, now, frame) w. if jw_paused w then Inr w else appendFrame z devices now frame w)"

fun writer_Run :: "zstd \<Rightarrow> (DeviceRegistry \<times> gotime \<times> RxFrame) list \<Rightarrow> DeviceRegistry \<Rightarrow> JournalWriter \<Rightarrow> writer_error + JournalWriter" where
  "writer_Run z [] devices w = jw_finalize z devices w"
| "writer_Run z (f # fs) devices w = (case run_frame z f w of Inl e \<Rightarrow> Inl e | Inr w' \<Rightarrow> writer_Run z fs devices w')"

section \<open>The block writer\<close>

record BlockWriterConfig =
  bwc_Dir :: string
  bwc_Prefix :: string
  bwc_BlockSize :: int
  bwc_Compression :: CompressionType
  bwc_RotateDuration :: duration
  bwc_RotateSize :: int
  bwc_OnRotate :: bool

definition BlockWriterConfig_setDefaults :: "BlockWriterConfig \<Rightarrow> BlockWriterConfig" where
  "BlockWriterConfig_setDefaults c =
     c\<lparr>bwc_Prefix := (if bwc_Prefix c = [] then ''nmea2k'' else bwc_Prefix c),
       bwc_BlockSize := (if bwc_BlockSize c = 0 then 262144 else bwc_BlockSize c)\<rparr>"

record BlockWriter =
  bw_cfg :: BlockWriterConfig
  bw_disk :: disk
  bw_file :: "string option"
  bw_fileStart :: gotime
  bw_fileBytes :: int
  bw_fileBlocks :: int
  bw_blockOffsets :: "int list"
  bw_rotated :: "string list"

definition NewBlockWriter :: "BlockWriterConfig \<Rightarrow> disk \<Rightarrow> writer_error + BlockWriter" where
  "NewBlockWriter cfg0 d =
     (let cfg = BlockWriterConfig_setDefaults cfg0
      in if bwc_BlockSize cfg < 4096 \<or> bwc_BlockSize cfg AND (bwc_BlockSize cfg - 1) \<noteq> 0
         then Inl (BlockSizeNotPower (bwc_BlockSize cfg))
         else Inr \<lparr>bw_cfg = cfg, bw_disk = d, bw_file = None, bw_fileStart = zeroTime, bw_fileBytes = 0, bw_fileBlocks = 0,
                   bw_blockOffsets = [], bw_rotated = []\<rparr>)"

definition bw_openFile :: "gotime \<Rightarrow> BlockWriter \<Rightarrow> BlockWriter" where
  "bw_openFile ts w =
     (let path = journal_path (bwc_Dir (bw_cfg w)) (bwc_Prefix (bw_cfg w)) ts
      in w\<lparr>bw_disk := gm_put path (file_header (bwc_BlockSize (bw_cfg w)) (bwc_Compression (bw_cfg w))) (bw_disk w),
           bw_file := Some path, bw_fileStart := ts, bw_fileBytes := int FileHeaderSize, bw_fileBlocks := 0, bw_blockOffsets := []\<rparr>)"

definition bw_write :: "bytes \<Rightarrow> BlockWriter \<Rightarrow> writer_error + BlockWriter" where
  "bw_write bs w =
     (case bw_file w of
        None \<Rightarrow> Inl FileNotOpen
      | Some path \<Rightarrow> Inr (w\<lparr>bw_disk := disk_append path bs (bw_disk w), bw_fileBytes := bw_fileBytes w + int (length bs)\<rparr>))"

definition bw_writeBlockIndex :: "BlockWriter \<Rightarrow> writer_error + BlockWriter" where
  "bw_writeBlockIndex w =
     (if length (bw_blockOffsets w) = 0 then Inr w
      else case bw_file w of
             None \<Rightarrow> Inl FileNotOpen
           | Some path \<Rightarrow> Inr (w\<lparr>bw_disk := disk_append path (block_index (bw_blockOffsets w)) (bw_disk w)\<rparr>))"

text \<open>The common body of \<^verbatim>\<open>Close\<close> and \<^verbatim>\<open>rotateFile\<close>.\<close>

definition rotateFile :: "BlockWriter \<Rightarrow> writer_error + BlockWriter" where
  "rotateFile w =
     (case (if bwc_Compression (bw_cfg w) \<noteq> CompressionNone \<and> length (bw_blockOffsets w) > 0 then bw_writeBlockIndex w else Inr w) of
        Inl e \<Rightarrow> Inl e
      | Inr w1 \<Rightarrow>
          (case bw_file w1 of
             None \<Rightarrow> Inl FileNotOpen
           | Some path \<Rightarrow>
               Inr (w1\<lparr>bw_file := None, bw_fileBytes := 0, bw_fileBlocks := 0, bw_blockOffsets := [],
                       bw_rotated := (if bwc_OnRotate (bw_cfg w1) then bw_rotated w1 @ [path] else bw_rotated w1)\<rparr>)))"

definition BlockWriter_Close :: "BlockWriter \<Rightarrow> writer_error + BlockWriter" where
  "BlockWriter_Close w = (if bw_file w = None then Inr w else rotateFile w)"

definition bw_checkRotation :: "gotime \<Rightarrow> BlockWriter \<Rightarrow> writer_error + BlockWriter" where
  "bw_checkRotation now w =
     (if bwc_RotateDuration (bw_cfg w) > 0 \<and> time_Sub now (bw_fileStart w) \<ge> bwc_RotateDuration (bw_cfg w)
         \<or> bwc_RotateSize (bw_cfg w) > 0 \<and> bw_fileBytes w \<ge> bwc_RotateSize (bw_cfg w)
      then rotateFile w else Inr w)"

definition writeUncompressedBlock :: "gotime \<Rightarrow> bytes \<Rightarrow> BlockWriter \<Rightarrow> writer_error + BlockWriter" where
  "writeUncompressedBlock now data w =
     (let bs = nat (bwc_BlockSize (bw_cfg w))
      in if length data \<noteq> bs then Inl (WrongBlockSize (length data))
         else
           let stored = LE_Uint32 (drop (bs - 4) data); computed = crc32c (take (bs - 4) data)
           in if stored \<noteq> computed then Inl (BlockCRCMismatch stored computed)
              else case bw_write data w of
                     Inl e \<Rightarrow> Inl e
                   | Inr w1 \<Rightarrow> bw_checkRotation now (w1\<lparr>bw_fileBlocks := bw_fileBlocks w1 + 1\<rparr>))"

definition bw_writeCompressedBlock :: "gotime \<Rightarrow> u64 \<Rightarrow> int \<Rightarrow> bytes \<Rightarrow> BlockWriter \<Rightarrow> writer_error + BlockWriter" where
  "bw_writeCompressedBlock now baseSeq baseTimeUs data w =
     (let w0 = w\<lparr>bw_blockOffsets := bw_blockOffsets w @ [bw_fileBytes w]\<rparr>
      in case bw_write (block_header baseTimeUs baseSeq @ LE_PutUint32 (of_nat (length data))) w0 of
           Inl e \<Rightarrow> Inl e
         | Inr w1 \<Rightarrow>
             (case bw_write data w1 of
                Inl e \<Rightarrow> Inl e
              | Inr w2 \<Rightarrow> bw_checkRotation now (w2\<lparr>bw_fileBlocks := bw_fileBlocks w2 + 1\<rparr>)))"

definition AppendBlock :: "gotime \<Rightarrow> u64 \<Rightarrow> int \<Rightarrow> bytes \<Rightarrow> bool \<Rightarrow> BlockWriter \<Rightarrow> writer_error + BlockWriter" where
  "AppendBlock now baseSeq baseTimeUs data compressed w0 =
     (let w = (if bw_file w0 = None then bw_openFile (time_UnixMicro baseTimeUs) w0 else w0)
      in if compressed then bw_writeCompressedBlock now baseSeq baseTimeUs data w else writeUncompressedBlock now data w)"

end
