(* ===== verification/JournalReader.thy ===== *)
theory JournalReader
  imports JournalWriter
begin

text \<open>
  The journal reader (\<^verbatim>\<open>journal/reader.go\<close>) on the contents of a file: opening, block index and forward
  scan, block loading with checksum and decompression, frame decoding, seeking, device tables and
  read-ahead. A Go error is a value, a panic the error \<open>Panicked\<close>; the read-ahead goroutine is
  finished when its result is awaited, so it is computed when it is started.
\<close>

section \<open>State\<close>

record Entry =
  je_Timestamp :: gotime
  je_Header :: CANHeader
  je_Data :: bytes

record blockInfo =
  bi_Offset :: int
  bi_BaseTime :: int
  bi_BaseSeq :: u64

record prefetch =
  pf_block :: int
  pf_buf :: "journal_error + bytes"
  pf_done :: bool

record Reader =
  jr_r :: bytes
  jr_blockSize :: nat
  jr_blockBuf :: bytes
  jr_compression :: CompressionType
  jr_version :: u8
  jr_blocks :: "blockInfo list"
  jr_currentBlock :: int
  jr_blockData :: "bytes option"
  jr_blockOff :: nat
  jr_frameIdx :: nat
  jr_frameCount :: nat
  jr_baseTimeUs :: int
  jr_lastTimeUs :: int
  jr_devTableOff :: int
  jr_baseSeqBlock :: u64
  jr_entry :: Entry
  jr_err :: "journal_error option"
  jr_pf :: "prefetch option"

text \<open>\<^verbatim>\<open>Seek\<close> to an absolute position followed by \<^verbatim>\<open>io.ReadFull\<close>.\<close>

definition read_at :: "bytes \<Rightarrow> int \<Rightarrow> nat \<Rightarrow> bytes option" where
  "read_at r pos n = (if 0 \<le> pos \<and> pos + int n \<le> int (length r) then Some (take n (drop (nat pos) r)) else None)"

definition i64_of :: "u64 \<Rightarrow> int" where
  "i64_of w = sint w"

section \<open>Opening a file\<close>

definition maxBlockIndexEntries :: nat where
  "maxBlockIndexEntries = 2 ^ 18"

definition seq_field_len :: "u8 \<Rightarrow> nat" where
  "seq_field_len version = (if version = Version2 then 8 else 0)"

fun index_offsets :: "bytes \<Rightarrow> int \<Rightarrow> nat \<Rightarrow> nat \<Rightarrow> int option \<Rightarrow> journal_error + int list" where
  "index_offsets buf tableStart i 0 prev = Inr []"
| "index_offsets buf tableStart i (Suc k) prev =
     (let off = i64_of (LE_Uint64 (drop (i * 8) buf))
      in if off < int FileHeaderSize \<or> off \<ge> tableStart \<or> (case prev of None \<Rightarrow> False | Some p \<Rightarrow> off \<le> p)
         then Inl (BlockOffsetInvalid i off)
         else case index_offsets buf tableStart (Suc i) k (Some off) of Inl e \<Rightarrow> Inl e | Inr offs \<Rightarrow> Inr (off # offs))"

definition read_info :: "bytes \<Rightarrow> u8 \<Rightarrow> int \<Rightarrow> journal_error + blockInfo" where
  "read_info r version off =
     (case read_at r off (8 + seq_field_len version) of
        None \<Rightarrow> Inl ReadError
      | Some hdr \<Rightarrow>
          Inr \<lparr>bi_Offset = off, bi_BaseTime = i64_of (LE_Uint64 hdr),
               bi_BaseSeq = (if version = Version2 then LE_Uint64 (drop 8 hdr) else 0)\<rparr>)"

fun read_infos :: "bytes \<Rightarrow> u8 \<Rightarrow> int list \<Rightarrow> journal_error + blockInfo list" where
  "read_infos r version [] = Inr []"
| "read_infos r version (off # offs) =
     (case read_info r version off of
        Inl e \<Rightarrow> Inl e
      | Inr b \<Rightarrow> (case read_infos r version offs of Inl e \<Rightarrow> Inl e | Inr bs \<Rightarrow> Inr (b # bs)))"

definition readBlockIndex :: "bytes \<Rightarrow> u8 \<Rightarrow> journal_error + blockInfo list" where
  "readBlockIndex r version =
     (let fileSize = int (length r)
      in if fileSize < int FileHeaderSize + 8 then Inl NoBlockIndex
         else case read_at r (fileSize - 8) 8 of
           None \<Rightarrow> Inl ReadError
         | Some tail \<Rightarrow>
             let count = unat (LE_Uint32 tail)
             in if take 4 (drop 4 tail) \<noteq> BlockIndexMagic then Inl NoBlockIndex
                else if count = 0 then Inr []
                else if count > maxBlockIndexEntries then Inl (BlockIndexTooLarge count)
                else
                  let tableStart = fileSize - 8 - int count * 8
                  in if tableStart < int FileHeaderSize then Inl BlockIndexBeforeHeader
                     else case read_at r tableStart (count * 8) of
                       None \<Rightarrow> Inl ReadError
                     | Some buf \<Rightarrow>
                         (case index_offsets buf tableStart 0 count None of
                            Inl e \<Rightarrow> Inl e
                          | Inr offs \<Rightarrow> read_infos r version offs))"

definition block_header_len :: "CompressionType \<Rightarrow> u8 \<Rightarrow> nat" where
  "block_header_len ct version =
     (if ct = CompressionZstdDict then BlockHeaderLenDict else BlockHeaderLen) + seq_field_len version"

text \<open>The payload length announced by a block header; \<open>None\<close> ends the scan.\<close>

definition header_payload :: "CompressionType \<Rightarrow> u8 \<Rightarrow> bytes \<Rightarrow> nat option" where
  "header_payload ct version hdr =
     (let sfl = seq_field_len version; first = unat (LE_Uint32 (drop (8 + sfl) hdr))
      in if ct = CompressionZstdDict then
           let compressedLen = unat (LE_Uint32 (drop (12 + sfl) hdr))
           in if first = 0 \<and> compressedLen = 0 then None else Some (first + compressedLen)
         else if first = 0 then None else Some first)"

function scanBlocks :: "bytes \<Rightarrow> CompressionType \<Rightarrow> u8 \<Rightarrow> nat \<Rightarrow> blockInfo list" where
  "scanBlocks r ct version pos =
     (let hdrLen = block_header_len ct version
      in case read_at r (int pos) hdrLen of
           None \<Rightarrow> []
         | Some hdr \<Rightarrow>
             (case header_payload ct version hdr of
                None \<Rightarrow> []
              | Some len \<Rightarrow>
                  let blockEnd = pos + hdrLen + len
                  in if blockEnd > length r then []
                     else \<lparr>bi_Offset = int pos, bi_BaseTime = i64_of (LE_Uint64 hdr),
                           bi_BaseSeq = (if version = Version2 then LE_Uint64 (drop 8 hdr) else 0)\<rparr>
                          # scanBlocks r ct version blockEnd))"
  by pat_completeness auto

termination
  by (relation "measure (\<lambda>(r, ct, version, pos). length r - pos)")
    (auto simp: block_header_len_def format_consts read_at_def split: if_splits)

declare scanBlocks.simps [simp del]

definition fixed_blocks :: "bytes \<Rightarrow> nat \<Rightarrow> blockInfo list" where
  "fixed_blocks r blockSize =
     map (\<lambda>i. \<lparr>bi_Offset = int FileHeaderSize + int i * int blockSize, bi_BaseTime = 0, bi_BaseSeq = 0\<rparr>)
       [0..<(length r - FileHeaderSize) div blockSize]"

definition NewReader :: "bytes \<Rightarrow> journal_error + Reader" where
  "NewReader r =
     (case read_at r 0 16 of
        None \<Rightarrow> Inl ReadError
      | Some hdr \<Rightarrow>
          let version = hdr ! 3; blockSize = unat (LE_Uint32 (drop 4 hdr)); flags = LE_Uint32 (drop 8 hdr)
          in if take 3 hdr \<noteq> Magic then Inl (BadMagic (take 3 hdr))
             else if version \<noteq> Version \<and> version \<noteq> Version2 then Inl (UnsupportedVersion version)
             else if blockSize < 4096 \<or> blockSize AND (blockSize - 1) \<noteq> 0 then Inl (InvalidBlockSize blockSize)
             else case compression_of (ucast (flags AND 0xFF)) of
               None \<Rightarrow> Inl (UnsupportedCompression (ucast (flags AND 0xFF)))
             | Some ct \<Rightarrow>
                 Inr \<lparr>jr_r = r, jr_blockSize = blockSize, jr_blockBuf = replicate blockSize 0, jr_compression = ct,
                      jr_version = version,
                      jr_blocks = (if ct = CompressionNone then fixed_blocks r blockSize
                                   else case readBlockIndex r version of
                                          Inr bs \<Rightarrow> bs
                                        | Inl _ \<Rightarrow> scanBlocks r ct version FileHeaderSize),
                      jr_currentBlock = -1, jr_blockData = None, jr_blockOff = 0, jr_frameIdx = 0, jr_frameCount = 0,
                      jr_baseTimeUs = 0, jr_lastTimeUs = 0, jr_devTableOff = 0, jr_baseSeqBlock = 0,
                      jr_entry = \<lparr>je_Timestamp = zeroTime, je_Header = ParseCANID 0, je_Data = []\<rparr>, jr_err = None, jr_pf = None\<rparr>)"

section \<open>Loading a block\<close>

definition parseLoadedBlock :: "nat \<Rightarrow> Reader \<Rightarrow> Reader \<times> journal_error option" where
  "parseLoadedBlock n jr =
     (let bs = jr_blockSize jr; buf = jr_blockBuf jr;
          stored = LE_Uint32 (drop (bs - 4) buf); computed = crc32c (take (bs - 4) buf)
      in if stored \<noteq> computed then (jr, Some (ChecksumMismatch n stored computed))
         else
           let trailerOff = bs - BlockTrailerLen;
               devTableSize = unat (LE_Uint16 (drop trailerOff buf));
               devTableOff = int bs - int BlockTrailerLen - int devTableSize;
               frameCount = unat (LE_Uint32 (drop (trailerOff + 2) buf));
               baseTimeUs = i64_of (LE_Uint64 buf)
           in (jr\<lparr>jr_currentBlock := int n, jr_blockData := Some buf,
                  jr_blockOff := (if jr_version jr = Version2 then BlockDataOffsetV2 else BlockDataOffsetV1),
                  jr_frameIdx := 0, jr_frameCount := frameCount, jr_baseTimeUs := baseTimeUs, jr_lastTimeUs := baseTimeUs,
                  jr_devTableOff := devTableOff,
                  jr_baseSeqBlock := (if jr_version jr = Version2 then LE_Uint64 (drop 8 buf) else 0)\<rparr>, None))"

definition blockPayloadLimit :: "nat \<Rightarrow> nat \<Rightarrow> Reader \<Rightarrow> journal_error + int" where
  "blockPayloadLimit n headerLen jr =
     (let start = bi_Offset (jr_blocks jr ! n);
          end = (if n + 1 < length (jr_blocks jr) then bi_Offset (jr_blocks jr ! (n + 1)) else int (length (jr_r jr)));
          available = end - start - int headerLen
      in if available < 0 then Inl (InvalidBoundaries n) else Inr available)"

definition checked_size :: "nat \<Rightarrow> Reader \<Rightarrow> bytes option \<Rightarrow> journal_error + bytes" where
  "checked_size n jr res =
     (case res of
        None \<Rightarrow> Inl (DecompressError n)
      | Some d \<Rightarrow> if length d \<noteq> jr_blockSize jr then Inl (DecompressedSize n (length d)) else Inr d)"

definition fetch_zstd :: "zstd \<Rightarrow> nat \<Rightarrow> Reader \<Rightarrow> journal_error + bytes" where
  "fetch_zstd z n jr =
     (let off = bi_Offset (jr_blocks jr ! n); sfl = seq_field_len (jr_version jr); hdrLen = BlockHeaderLen + sfl
      in case read_at (jr_r jr) off hdrLen of
           None \<Rightarrow> Inl ReadError
         | Some hdr \<Rightarrow>
             let compressedLen = LE_Uint32 (drop (8 + sfl) hdr)
             in case blockPayloadLimit n hdrLen jr of
                  Inl e \<Rightarrow> Inl e
                | Inr maxPayload \<Rightarrow>
                    if compressedLen = 0 \<or> uint compressedLen > maxPayload then Inl (InvalidCompressedLength n compressedLen maxPayload)
                    else case read_at (jr_r jr) (off + int hdrLen) (unat compressedLen) of
                           None \<Rightarrow> Inl ReadError
                         | Some compressed \<Rightarrow> checked_size n jr (z_decode z compressed))"

definition fetch_dict :: "zstd \<Rightarrow> nat \<Rightarrow> Reader \<Rightarrow> journal_error + bytes" where
  "fetch_dict z n jr =
     (let off = bi_Offset (jr_blocks jr ! n); sfl = seq_field_len (jr_version jr); hdrLen = BlockHeaderLenDict + sfl
      in case read_at (jr_r jr) off hdrLen of
           None \<Rightarrow> Inl ReadError
         | Some hdr \<Rightarrow>
             let dictLen = LE_Uint32 (drop (8 + sfl) hdr); compressedLen = LE_Uint32 (drop (12 + sfl) hdr)
             in case blockPayloadLimit n hdrLen jr of
                  Inl e \<Rightarrow> Inl e
                | Inr maxPayload \<Rightarrow>
                    if dictLen > word_of_int maxPayload then Inl (InvalidDictLength n dictLen maxPayload)
                    else if compressedLen = 0 \<or> uint compressedLen > maxPayload - uint dictLen
                    then Inl (InvalidCompressedLength n compressedLen (maxPayload - uint dictLen))
                    else case read_at (jr_r jr) (off + int hdrLen) (unat dictLen) of
                      None \<Rightarrow> Inl ReadError
                    | Some dict \<Rightarrow>
                        (case read_at (jr_r jr) (off + int hdrLen + uint dictLen) (unat compressedLen) of
                           None \<Rightarrow> Inl ReadError
                         | Some compressed \<Rightarrow>
                             checked_size n jr (if dictLen > 0 then z_decodeDict z dict compressed else z_decode z compressed)))"

definition fetch_fixed :: "nat \<Rightarrow> Reader \<Rightarrow> journal_error + bytes" where
  "fetch_fixed n jr =
     (case read_at (jr_r jr) (bi_Offset (jr_blocks jr ! n)) (jr_blockSize jr) of None \<Rightarrow> Inl ReadError | Some b \<Rightarrow> Inr b)"

text \<open>\<^verbatim>\<open>loadUncompressedBlock\<close>, \<^verbatim>\<open>loadCompressedBlock\<close> and \<^verbatim>\<open>loadDictCompressedBlock\<close> up to the parsing of the block.\<close>

definition fetch_block :: "zstd \<Rightarrow> nat \<Rightarrow> Reader \<Rightarrow> journal_error + bytes" where
  "fetch_block z n jr =
     (case jr_compression jr of
        CompressionNone \<Rightarrow> fetch_fixed n jr
      | CompressionZstd \<Rightarrow> fetch_zstd z n jr
      | CompressionZstdDict \<Rightarrow> fetch_dict z n jr)"

section \<open>Read-ahead\<close>

definition prefetch_zstd :: "zstd \<Rightarrow> nat \<Rightarrow> Reader \<Rightarrow> (journal_error + bytes) option" where
  "prefetch_zstd z n jr =
     (let off = bi_Offset (jr_blocks jr ! n); sfl = seq_field_len (jr_version jr); hdrLen = BlockHeaderLen + sfl
      in case read_at (jr_r jr) off hdrLen of
           None \<Rightarrow> None
         | Some hdr \<Rightarrow>
             let compressedLen = LE_Uint32 (drop (8 + sfl) hdr)
             in if compressedLen = 0 \<or> unat compressedLen > jr_blockSize jr * 2 then None
                else case read_at (jr_r jr) (off + int hdrLen) (unat compressedLen) of
                       None \<Rightarrow> None
                     | Some compressed \<Rightarrow> Some (checked_size n jr (z_decode z compressed)))"

definition prefetch_dict :: "zstd \<Rightarrow> nat \<Rightarrow> Reader \<Rightarrow> (journal_error + bytes) option" where
  "prefetch_dict z n jr =
     (let off = bi_Offset (jr_blocks jr ! n); sfl = seq_field_len (jr_version jr); hdrLen = BlockHeaderLenDict + sfl
      in case read_at (jr_r jr) off hdrLen of
           None \<Rightarrow> None
         | Some hdr \<Rightarrow>
             let dictLen = LE_Uint32 (drop (8 + sfl) hdr); compressedLen = LE_Uint32 (drop (12 + sfl) hdr)
             in if compressedLen = 0 \<or> unat compressedLen + unat dictLen > jr_blockSize jr * 2 then None
                else case read_at (jr_r jr) (off + int hdrLen) (unat dictLen) of
                  None \<Rightarrow> None
                | Some dict \<Rightarrow>
                    (case read_at (jr_r jr) (off + int hdrLen + uint dictLen) (unat compressedLen) of
                       None \<Rightarrow> None
                     | Some compressed \<Rightarrow>
                         Some (checked_size n jr (if dictLen > 0 then z_decodeDict z dict compressed else z_decode z compressed))))"

definition prefetch_result :: "zstd \<Rightarrow> nat \<Rightarrow> Reader \<Rightarrow> (journal_error + bytes) option" where
  "prefetch_result z n jr =
     (case jr_compression jr of
        CompressionNone \<Rightarrow> (case fetch_fixed n jr of Inl _ \<Rightarrow> None | Inr b \<Rightarrow> Some (Inr b))
      | CompressionZstd \<Rightarrow> prefetch_zstd z n jr
      | CompressionZstdDict \<Rightarrow> prefetch_dict z n jr)"

definition startPrefetch :: "zstd \<Rightarrow> nat \<Rightarrow> Reader \<Rightarrow> Reader" where
  "startPrefetch z n jr =
     (case jr_pf jr of
        None \<Rightarrow> jr
      | Some pf \<Rightarrow>
          if n \<ge> length (jr_blocks jr) then jr
          else case prefetch_result z n jr of
                 None \<Rightarrow> jr
               | Some res \<Rightarrow> jr\<lparr>jr_pf := Some \<lparr>pf_block = int n, pf_buf = res, pf_done = True\<rparr>\<rparr>)"

definition cancelPrefetch :: "Reader \<Rightarrow> Reader" where
  "cancelPrefetch jr =
     (case jr_pf jr of
        None \<Rightarrow> jr
      | Some pf \<Rightarrow> if pf_done pf then jr\<lparr>jr_pf := Some (pf\<lparr>pf_block := -1, pf_done := False\<rparr>)\<rparr> else jr)"

definition EnablePrefetch :: "Reader \<Rightarrow> Reader" where
  "EnablePrefetch jr =
     (case jr_pf jr of
        Some _ \<Rightarrow> jr
      | None \<Rightarrow> jr\<lparr>jr_pf := Some \<lparr>pf_block = -1, pf_buf = Inr (replicate (jr_blockSize jr) 0), pf_done = False\<rparr>\<rparr>)"

definition Reader_Close :: "Reader \<Rightarrow> Reader" where
  "Reader_Close jr = cancelPrefetch jr"

text \<open>
  \<^verbatim>\<open>blockData\<close> and \<^verbatim>\<open>blockBuf\<close> are one array: a block with a wrong checksum has overwritten the current one.
  The bytes that a failed read or a failed decompression leaves in the array are not modelled.
\<close>

definition load_fresh :: "zstd \<Rightarrow> nat \<Rightarrow> Reader \<Rightarrow> Reader \<times> journal_error option" where
  "load_fresh z n jr =
     (case fetch_block z n jr of
        Inl e \<Rightarrow> (jr, Some e)
      | Inr b \<Rightarrow>
          (case parseLoadedBlock n (jr\<lparr>jr_blockBuf := b\<rparr>) of
             (jr1, Some e) \<Rightarrow> (jr1\<lparr>jr_blockData := map_option (\<lambda>_. b) (jr_blockData jr1)\<rparr>, Some e)
           | (jr1, None) \<Rightarrow> (startPrefetch z (n + 1) jr1, None)))"

definition loadBlock :: "zstd \<Rightarrow> nat \<Rightarrow> Reader \<Rightarrow> Reader \<times> journal_error option" where
  "loadBlock z n jr =
     (case jr_pf jr of
        None \<Rightarrow> load_fresh z n jr
      | Some pf \<Rightarrow>
          if pf_block pf = int n \<and> pf_done pf then
            let jr0 = jr\<lparr>jr_pf := Some (pf\<lparr>pf_block := -1, pf_done := False\<rparr>)\<rparr>
            in case pf_buf pf of
                 Inr b \<Rightarrow>
                   (case parseLoadedBlock n (jr0\<lparr>jr_blockBuf := b\<rparr>) of
                      (jr1, Some e) \<Rightarrow> (jr1, Some e)
                    | (jr1, None) \<Rightarrow> (startPrefetch z (n + 1) jr1, None))
               | Inl _ \<Rightarrow> load_fresh z n jr0
          else load_fresh z n jr)"

section \<open>Frames\<close>

definition FrameSeq :: "Reader \<Rightarrow> u64" where
  "FrameSeq jr =
     (if jr_version jr \<noteq> Version2 \<or> jr_frameIdx jr = 0 then 0 else jr_baseSeqBlock jr + of_nat (jr_frameIdx jr - 1))"

definition frame_error :: "journal_error \<Rightarrow> Reader \<Rightarrow> Reader \<times> bool" where
  "frame_error e jr = (jr\<lparr>jr_err := Some e\<rparr>, False)"

definition slice :: "bytes \<Rightarrow> nat \<Rightarrow> nat \<Rightarrow> bytes" where
  "slice data a b = take (b - a) (drop a data)"

text \<open>The payload of a frame at \<open>off\<close>: its bytes and the offset behind them.\<close>

definition frame_payload :: "bytes \<Rightarrow> bool \<Rightarrow> nat \<Rightarrow> nat \<Rightarrow> nat \<Rightarrow> int \<Rightarrow> journal_error + bytes \<times> nat" where
  "frame_payload data standard off limit idx blk =
     (if standard then
        (if off + 8 > limit then Inl (TruncatedFrame idx blk) else Inr (slice data off (off + 8), off + 8))
      else
        let (dataLen, n) = Uvarint (slice data off limit)
        in if n \<le> 0 then Inl (BadLength idx blk)
           else
             let off1 = off + nat n; len = i64_of dataLen
             in if int off1 + len > int limit then Inl (TruncatedFrame idx blk)
                else if len < 0 then Inl Panicked
                else Inr (slice data off1 (off1 + nat len), off1 + nat len))"

definition decode_frame :: "Reader \<Rightarrow> bytes \<Rightarrow> journal_error + u64 \<times> CANHeader \<times> bytes \<times> nat" where
  "decode_frame jr data =
     (let off = jr_blockOff jr; idx = jr_frameIdx jr; blk = jr_currentBlock jr
      in if int off \<ge> jr_devTableOff jr then Inl (FrameOverrun idx blk)
         else
           let limit = nat (jr_devTableOff jr); (deltaUs, n) = Uvarint (slice data off limit)
           in if n \<le> 0 then Inl (BadDelta idx blk)
              else
                let off1 = off + nat n
                in if off1 + 4 > limit then Inl (TruncatedCANID idx blk)
                   else
                     let storedID = LE_Uint32 (drop off1 data);
                         standard = (storedID AND 0x80000000 \<noteq> 0)
                     in case frame_payload data standard (off1 + 4) limit idx blk of
                          Inl e \<Rightarrow> Inl e
                        | Inr (frameData, off2) \<Rightarrow> Inr (deltaUs, ParseCANID (storedID AND 0x7FFFFFFF), frameData, off2))"

definition parseNextFrame :: "bytes \<Rightarrow> Reader \<Rightarrow> Reader \<times> bool" where
  "parseNextFrame data jr =
     (case decode_frame jr data of
        Inl e \<Rightarrow> frame_error e jr
      | Inr (deltaUs, header, frameData, off) \<Rightarrow>
          let tsUs = (if jr_frameIdx jr = 0 then jr_baseTimeUs jr else i64_wrap (jr_lastTimeUs jr + i64_of deltaUs))
          in (jr\<lparr>jr_lastTimeUs := tsUs,
                 jr_entry := \<lparr>je_Timestamp = time_UnixMicro tsUs, je_Header = header, je_Data = frameData\<rparr>,
                 jr_blockOff := off, jr_frameIdx := jr_frameIdx jr + 1\<rparr>, True))"

lemma startPrefetch_fields [simp]:
  "jr_currentBlock (startPrefetch z n jr) = jr_currentBlock jr" "jr_blocks (startPrefetch z n jr) = jr_blocks jr"
  by (auto simp: startPrefetch_def split: option.split)

lemma parseLoadedBlock_fields:
  "parseLoadedBlock n jr = (jr', None) \<Longrightarrow> jr_currentBlock jr' = int n \<and> jr_blocks jr' = jr_blocks jr"
  by (auto simp: parseLoadedBlock_def Let_def split: if_splits)

lemma load_fresh_fields:
  "load_fresh z n jr = (jr', None) \<Longrightarrow> jr_currentBlock jr' = int n \<and> jr_blocks jr' = jr_blocks jr"
  by (auto simp: load_fresh_def split: sum.splits prod.splits option.splits dest!: parseLoadedBlock_fields)

lemma loadBlock_fields:
  assumes "loadBlock z n jr = (jr', None)"
  shows "jr_currentBlock jr' = int n \<and> jr_blocks jr' = jr_blocks jr"
  using assms
  by (auto simp: loadBlock_def Let_def split: sum.splits prod.splits option.splits if_splits
      dest!: parseLoadedBlock_fields load_fresh_fields)

text \<open>What the inner condition of the loop of \<^verbatim>\<open>Next\<close> finds: a frame, a panic, or nothing left in the block.\<close>

datatype block_result = GotFrame Reader | Crash | BlockDone Reader

definition block_step :: "Reader \<Rightarrow> block_result" where
  "block_step jr =
     (case jr_blockData jr of
        None \<Rightarrow> BlockDone jr
      | Some data \<Rightarrow>
          if jr_frameIdx jr < jr_frameCount jr then
            (case parseNextFrame data jr of
               (jr1, True) \<Rightarrow> GotFrame jr1
             | (jr1, False) \<Rightarrow>
                 if jr_err jr1 = Some Panicked then Crash
                 else BlockDone (jr1\<lparr>jr_err := None, jr_blockData := None\<rparr>))
          else BlockDone jr)"

lemma block_step_fields:
  "block_step jr = BlockDone jr1 \<Longrightarrow> jr_currentBlock jr1 = jr_currentBlock jr \<and> jr_blocks jr1 = jr_blocks jr"
  by (auto simp: block_step_def parseNextFrame_def frame_error_def Let_def
      split: option.splits if_splits sum.splits prod.splits bool.splits)

text \<open>
  \<^verbatim>\<open>Next\<close>: the result is whether there is a frame; \<open>None\<close> is a panic. The loop ends because every round
  that does not return leaves the current block for good.
\<close>

function Reader_Next :: "zstd \<Rightarrow> Reader \<Rightarrow> (Reader \<times> bool) option" where
  "Reader_Next z jr =
     (case block_step jr of
        GotFrame jr1 \<Rightarrow> Some (jr1, True)
      | Crash \<Rightarrow> None
      | BlockDone jr1 \<Rightarrow>
          let nextBlock = jr_currentBlock jr1 + 1
          in if nextBlock \<ge> int (length (jr_blocks jr1)) then Some (jr1, False)
             else case loadBlock z (nat nextBlock) jr1 of
                    (jr2, Some e) \<Rightarrow> Some (jr2\<lparr>jr_err := Some e\<rparr>, False)
                  | (jr2, None) \<Rightarrow> Reader_Next z jr2)"
  by pat_completeness auto

termination
  by (relation "measure (\<lambda>(z, jr). length (jr_blocks jr) - nat (jr_currentBlock jr + 1) + (if jr_currentBlock jr < -1 then 1 else 0))")
    (simp, use loadBlock_fields block_step_fields in fastforce)

declare Reader_Next.simps [simp del]

text \<open>The frames a client gets by calling \<^verbatim>\<open>Next\<close> until it returns false.\<close>

fun drain :: "zstd \<Rightarrow> nat \<Rightarrow> Reader \<Rightarrow> ((u64 \<times> Entry) list \<times> Reader) option" where
  "drain z 0 jr = None"
| "drain z (Suc fuel) jr =
     (case Reader_Next z jr of
        None \<Rightarrow> None
      | Some (jr1, False) \<Rightarrow> Some ([], jr1)
      | Some (jr1, True) \<Rightarrow>
          (case drain z fuel jr1 of None \<Rightarrow> None | Some (es, jr2) \<Rightarrow> Some ((FrameSeq jr1, jr_entry jr1) # es, jr2)))"

section \<open>Inspection and device tables\<close>

record BlockInfo =
  bki_Index :: nat
  bki_Offset :: int
  bki_BaseTime :: gotime
  bki_BaseSeq :: u64
  bki_FrameCount :: nat
  bki_DeviceCount :: nat
  bki_CompressedLen :: nat
  bki_DictLen :: nat

definition inspect_lengths :: "nat \<Rightarrow> Reader \<Rightarrow> journal_error + nat \<times> nat" where
  "inspect_lengths n jr =
     (let sfl = seq_field_len (jr_version jr); off = bi_Offset (jr_blocks jr ! n)
      in case jr_compression jr of
           CompressionNone \<Rightarrow> Inr (0, 0)
         | CompressionZstd \<Rightarrow>
             (case read_at (jr_r jr) off (BlockHeaderLen + sfl) of
                None \<Rightarrow> Inl ReadError
              | Some hdr \<Rightarrow> Inr (0, unat (LE_Uint32 (drop (8 + sfl) hdr))))
         | CompressionZstdDict \<Rightarrow>
             (case read_at (jr_r jr) off (BlockHeaderLenDict + sfl) of
                None \<Rightarrow> Inl ReadError
              | Some hdr \<Rightarrow> Inr (unat (LE_Uint32 (drop (8 + sfl) hdr)), unat (LE_Uint32 (drop (12 + sfl) hdr)))))"

definition InspectBlock :: "zstd \<Rightarrow> int \<Rightarrow> Reader \<Rightarrow> Reader \<times> (journal_error + BlockInfo)" where
  "InspectBlock z n jr =
     (if n < 0 \<or> n \<ge> int (length (jr_blocks jr)) then (jr, Inl (BlockOutOfRange n))
      else
        case inspect_lengths (nat n) jr of
          Inl e \<Rightarrow> (jr, Inl e)
        | Inr (dictLen, compressedLen) \<Rightarrow>
            (case loadBlock z (nat n) jr of
               (jr1, Some e) \<Rightarrow> (jr1, Inl e)
             | (jr1, None) \<Rightarrow>
                 if jr_devTableOff jr1 < 0 then (jr1, Inl Panicked)
                 else
                   (jr1, Inr \<lparr>bki_Index = nat n, bki_Offset = bi_Offset (jr_blocks jr ! nat n),
                              bki_BaseTime = time_UnixMicro (jr_baseTimeUs jr1), bki_BaseSeq = jr_baseSeqBlock jr1,
                              bki_FrameCount = jr_frameCount jr1,
                              bki_DeviceCount = (if jr_devTableOff jr1 + 2 \<le> int (jr_blockSize jr1)
                                                 then unat (LE_Uint16 (drop (nat (jr_devTableOff jr1)) (jr_blockBuf jr1))) else 0),
                              bki_CompressedLen = compressedLen, bki_DictLen = dictLen\<rparr>)))"

definition HasBlockIndex :: "Reader \<Rightarrow> bool" where
  "HasBlockIndex jr \<longleftrightarrow>
     jr_compression jr \<noteq> CompressionNone \<and> length (jr_r jr) \<ge> FileHeaderSize + 8 \<and>
     drop (length (jr_r jr) - 4) (jr_r jr) = BlockIndexMagic"

definition BlockDevices :: "Reader \<Rightarrow> (journal_error + jDevice list) option" where
  "BlockDevices jr =
     (case jr_blockData jr of
        None \<Rightarrow> Some (Inr [])
      | Some data \<Rightarrow>
          (case readDeviceTable data (jr_devTableOff jr) of
             Inl Panicked \<Rightarrow> None
           | Inl _ \<Rightarrow> Some (Inr [])
           | Inr es \<Rightarrow> Some (Inr (map toDevice es))))"

text \<open>The entry of a source with the largest \<^verbatim>\<open>ActiveFrom\<close> up to the frame; of equal ones the first.\<close>

definition best_entry :: "nat \<Rightarrow> deviceTableEntry \<Rightarrow> (u8, deviceTableEntry) gomap \<Rightarrow> (u8, deviceTableEntry) gomap" where
  "best_entry frameIdx e best =
     (if unat (te_ActiveFrom e) \<le> frameIdx \<and>
         (case gm_get best (te_Source e) of None \<Rightarrow> True | Some cur \<Rightarrow> te_ActiveFrom e > te_ActiveFrom cur)
      then gm_put (te_Source e) e best else best)"

definition BlockDevicesAt :: "nat \<Rightarrow> Reader \<Rightarrow> jDevice list option" where
  "BlockDevicesAt frameIdx jr =
     (case jr_blockData jr of
        None \<Rightarrow> Some []
      | Some data \<Rightarrow>
          (case readDeviceTable data (jr_devTableOff jr) of
             Inl Panicked \<Rightarrow> None
           | Inl _ \<Rightarrow> Some []
           | Inr es \<Rightarrow> Some (sort_key jd_Source (map (toDevice \<circ> snd) (fold (best_entry frameIdx) es [])))))"

section \<open>Seeking\<close>

definition SeekBlock :: "zstd \<Rightarrow> int \<Rightarrow> Reader \<Rightarrow> Reader \<times> journal_error option" where
  "SeekBlock z n jr =
     (if n < 0 \<or> n \<ge> int (length (jr_blocks jr)) then (jr, Some (BlockOutOfRange n))
      else loadBlock z (nat n) (cancelPrefetch jr))"

text \<open>The binary search over the blocks of an uncompressed file; \<open>le mid\<close> reads the key of a block and compares.\<close>

function seek_loop :: "(nat \<Rightarrow> bool option) \<Rightarrow> int \<Rightarrow> int \<Rightarrow> nat \<Rightarrow> nat option" where
  "seek_loop le lo hi result =
     (if lo \<le> hi then
        let mid = lo + (hi - lo) div 2
        in case le (nat mid) of
             None \<Rightarrow> None
           | Some True \<Rightarrow> seek_loop le (mid + 1) hi (nat mid)
           | Some False \<Rightarrow> seek_loop le lo (mid - 1) result
      else Some result)"
  by pat_completeness auto

termination
  by (relation "measure (\<lambda>(le, lo, hi, result). nat (hi + 1 - lo))") auto

declare seek_loop.simps [simp del]

definition seek_compressed :: "zstd \<Rightarrow> (blockInfo \<Rightarrow> bool) \<Rightarrow> Reader \<Rightarrow> Reader \<times> journal_error option" where
  "seek_compressed z gt jr =
     (let idx = sort_Search (length (jr_blocks jr)) (\<lambda>i. gt (jr_blocks jr ! i))
      in loadBlock z (if idx > 0 then idx - 1 else idx) jr)"

definition seek_fixed :: "zstd \<Rightarrow> (nat \<Rightarrow> bool option) \<Rightarrow> Reader \<Rightarrow> Reader \<times> journal_error option" where
  "seek_fixed z le jr =
     (case seek_loop le 0 (int (length (jr_blocks jr)) - 1) 0 of
        None \<Rightarrow> (jr, Some ReadError)
      | Some n \<Rightarrow> loadBlock z n jr)"

definition SeekToSeq :: "zstd \<Rightarrow> u64 \<Rightarrow> Reader \<Rightarrow> Reader \<times> journal_error option" where
  "SeekToSeq z seq jr0 =
     (let jr = cancelPrefetch jr0
      in if jr_version jr \<noteq> Version2 then (jr, Some SeekNeedsV2)
         else if length (jr_blocks jr) = 0 then (jr, Some EmptyJournal)
         else if jr_compression jr \<noteq> CompressionNone then seek_compressed z (\<lambda>b. bi_BaseSeq b > seq) jr
         else seek_fixed z (\<lambda>mid. map_option (\<lambda>buf. LE_Uint64 buf \<le> seq) (read_at (jr_r jr) (bi_Offset (jr_blocks jr ! mid) + 8) 8)) jr)"

definition SeekToTime :: "zstd \<Rightarrow> gotime \<Rightarrow> Reader \<Rightarrow> Reader \<times> journal_error option" where
  "SeekToTime z t jr0 =
     (let jr = cancelPrefetch jr0; targetUs = UnixMicro t
      in if length (jr_blocks jr) = 0 then (jr, Some EmptyJournal)
         else if jr_compression jr \<noteq> CompressionNone then seek_compressed z (\<lambda>b. bi_BaseTime b > targetUs) jr
         else seek_fixed z (\<lambda>mid. map_option (\<lambda>buf. i64_of (LE_Uint64 buf) \<le> targetUs) (read_at (jr_r jr) (bi_Offset (jr_blocks jr ! mid)) 8)) jr)"

end
