(* ===== verification/JournalBlocks.thy ===== *)
theory JournalBlocks
  imports JournalReader
begin

text \<open>
  A block written by the journal writer is read back by the journal reader: the encoding of a frame
  is decoded, a finished block passes the checksum, and the reader walks over its frames.
\<close>

section \<open>The encoding of a frame\<close>

definition stored_id :: "RxFrame \<Rightarrow> u32" where
  "stored_id f = (if length (rx_Data f) = 8 then BuildCANID (rx_Header f) OR 0x80000000 else BuildCANID (rx_Header f))"

definition payload_bytes :: "RxFrame \<Rightarrow> bytes" where
  "payload_bytes f =
     (if length (rx_Data f) = 8 then rx_Data f else PutUvarint (of_nat (length (rx_Data f))) @ rx_Data f)"

definition frame_bytes :: "u64 \<Rightarrow> RxFrame \<Rightarrow> bytes" where
  "frame_bytes delta f = PutUvarint delta @ LE_PutUint32 (stored_id f) @ payload_bytes f"

lemma length_frame_bytes: "length (frame_bytes delta f) = frame_size delta (length (rx_Data f))"
  by (simp add: frame_bytes_def payload_bytes_def frame_size_def length_PutUvarint)

lemma encode_frame_fits:
  assumes "off + frame_size delta (length (rx_Data f)) \<le> length block"
  shows "encode_frame delta f (block, off) = Some (splice_at off (frame_bytes delta f) block, off + frame_size delta (length (rx_Data f)))"
proof -
  let ?id = "LE_PutUint32 (stored_id f)"
  let ?b1 = "splice_at off (PutUvarint delta) block" and ?o1 = "off + UvarintSize delta"
  let ?b2 = "splice_at off (PutUvarint delta @ ?id) block"
  have le: "off + UvarintSize delta + 4 + length (payload_bytes f) \<le> length block"
    using assms by (auto simp: frame_size_def payload_bytes_def length_PutUvarint split: if_splits)
  have 1: "put_bytes off (PutUvarint delta) block = Some ?b1"
    using le by (intro put_bytes_fits) (simp add: length_PutUvarint)
  have 2: "put_bytes ?o1 ?id ?b1 = Some ?b2"
    using le splice_at_splice_at [of off "PutUvarint delta" ?id block]
    by (simp add: put_bytes_def length_PutUvarint)
  have len2: "length ?b2 = length block"
    using le by (simp add: length_PutUvarint)
  have id: "LE_PutUint32 (if length (rx_Data f) = 8 then BuildCANID (rx_Header f) OR 0x80000000 else BuildCANID (rx_Header f)) = ?id"
    by (simp add: stored_id_def)
  show ?thesis
  proof (cases "length (rx_Data f) = 8")
    case True
    have "copy_at (?o1 + 4) (rx_Data f) ?b2 = Some (splice_at off (frame_bytes delta f) block)"
      using le len2 True splice_at_splice_at [of off "PutUvarint delta @ ?id" "rx_Data f" block]
      by (simp add: copy_at_fits payload_bytes_def frame_bytes_def length_PutUvarint add.assoc)
    then show ?thesis
      using True 1 2 id by (simp add: encode_frame_def Let_def frame_size_def)
  next
    case False
    let ?l = "PutUvarint (of_nat (length (rx_Data f)))"
    have 3: "put_bytes (?o1 + 4) ?l ?b2 = Some (splice_at off (PutUvarint delta @ ?id @ ?l) block)"
      using le len2 False splice_at_splice_at [of off "PutUvarint delta @ ?id" ?l block]
      by (simp add: put_bytes_def payload_bytes_def length_PutUvarint add.assoc)
    have "length (splice_at off (PutUvarint delta @ ?id @ ?l) block) = length block"
      using le False by (simp add: payload_bytes_def length_PutUvarint)
    then have "copy_at (?o1 + 4 + UvarintSize (of_nat (length (rx_Data f)))) (rx_Data f) (splice_at off (PutUvarint delta @ ?id @ ?l) block)
        = Some (splice_at off (frame_bytes delta f) block)"
      using le False splice_at_splice_at [of off "PutUvarint delta @ ?id @ ?l" "rx_Data f" block]
      by (simp add: copy_at_fits payload_bytes_def frame_bytes_def length_PutUvarint add.assoc)
    then show ?thesis
      using False 1 2 3 id by (simp add: encode_frame_def Let_def frame_size_def add.assoc)
  qed
qed

section \<open>Decoding a frame\<close>

definition frame_ok :: "RxFrame \<Rightarrow> bool" where
  "frame_ok f \<longleftrightarrow> valid_header (rx_Header f) \<and> length (rx_Data f) < 2 ^ 63"

lemma stored_id_flag:
  assumes "frame_ok f"
  shows "stored_id f AND 0x80000000 \<noteq> 0 \<longleftrightarrow> length (rx_Data f) = 8"
    and "ParseCANID (stored_id f AND 0x7FFFFFFF) = rx_Header f"
proof -
  let ?c = "BuildCANID (rx_Header f)"
  have c: "valid_canid ?c" "ParseCANID ?c = rx_Header f"
    using assms by (simp_all add: frame_ok_def canid.valid_enc canid.dec_enc)
  then have hi: "\<not> bit ?c n" if "29 \<le> n" for n
    using that by (metis valid_canid_def bit_take_bit_iff not_less)
  have top: "bit (0x80000000 :: u32) n \<longleftrightarrow> n = 31" for n
    using bit_exp_iff [where 'a = u32, of 31 n] by auto
  have low: "bit (0x7FFFFFFF :: u32) n \<longleftrightarrow> n < 31" for n
    using bit_mask_iff [where 'a = u32, of 31 n] by (auto simp: mask_eq_exp_minus_1)
  have "(?c OR 0x80000000) AND 0x80000000 = 0x80000000" "?c AND 0x80000000 = 0"
    by (rule bit_word_eqI; simp only: bit_or_iff bit_and_iff top bit_0_eq bot_apply; use hi in auto)+
  then show "stored_id f AND 0x80000000 \<noteq> 0 \<longleftrightarrow> length (rx_Data f) = 8"
    by (simp add: stored_id_def)
  have lo: "n < 31" if "bit ?c n" for n
    using hi [of n] that by (cases "29 \<le> n") auto
  have "(?c OR 0x80000000) AND 0x7FFFFFFF = ?c" "?c AND 0x7FFFFFFF = ?c"
    by (rule bit_word_eqI; simp only: bit_or_iff bit_and_iff top low; use lo in auto)+
  then show "ParseCANID (stored_id f AND 0x7FFFFFFF) = rx_Header f"
    using c(2) by (simp add: stored_id_def)
qed

lemma i64_of_word: "i64_of (word_of_int x) = i64_wrap x"
  by (simp add: i64_of_def i64_wrap_def signed_of_int signed_take_bit_eq_take_bit_shift take_bit_eq_mod)

lemma i64_of_nat: "n < 2 ^ 63 \<Longrightarrow> i64_of (of_nat n) = int n"
  using i64_of_word [of "int n"] i64_wrap_id [of "int n"] by simp

lemma slice_prefix: "length xs \<le> n \<Longrightarrow> a = length pre \<Longrightarrow> slice (pre @ xs @ rest) a (a + n) = xs @ take (n - length xs) rest"
  by (simp add: slice_def)

lemma frame_payload_decodes:
  assumes "frame_ok f" "off = length pre" "off + length (payload_bytes f) \<le> limit"
  shows "frame_payload (pre @ payload_bytes f @ rest) (length (rx_Data f) = 8) off limit idx blk
     = Inr (rx_Data f, off + length (payload_bytes f))"
proof (cases "length (rx_Data f) = 8")
  case True
  then show ?thesis
    using assms by (simp add: frame_payload_def payload_bytes_def slice_def)
next
  case False
  let ?n = "length (rx_Data f)"
  obtain k where k: "limit = off + k" "length (payload_bytes f) \<le> k"
    using assms(3) by (intro that [of "limit - off"]) auto
  have "slice (pre @ payload_bytes f @ rest) off limit = payload_bytes f @ take (k - length (payload_bytes f)) rest"
    using slice_prefix [OF k(2) assms(2)] k(1) by simp
  then have u: "Uvarint (slice (pre @ payload_bytes f @ rest) off limit) = (of_nat ?n, int (UvarintSize (of_nat ?n)))"
    using False by (simp add: payload_bytes_def Uvarint_Put)
  have i: "i64_of (of_nat ?n) = int ?n"
    using assms(1) by (intro i64_of_nat) (simp only: frame_ok_def)
  have "slice (pre @ payload_bytes f @ rest) (off + UvarintSize (of_nat ?n)) (off + UvarintSize (of_nat ?n) + ?n) = rx_Data f"
    using False assms(2) by (simp add: slice_def payload_bytes_def length_PutUvarint)
  then show ?thesis
    using False u i assms(3) by (simp add: frame_payload_def payload_bytes_def length_PutUvarint Let_def nat_add_distrib)
qed

lemma slice_frame:
  assumes "off = length pre" "off + length xs \<le> limit" "limit \<le> length (pre @ xs @ rest)"
  shows "\<exists>rest'. slice (pre @ xs @ rest) off limit = xs @ rest'"
proof -
  have "length xs \<le> limit - off" "off + (limit - off) = limit"
    using assms by auto
  then show ?thesis
    using slice_prefix [of xs "limit - off" off pre rest] assms(1) by auto
qed

lemma decode_frame_bytes:
  assumes "frame_ok f" "jr_blockOff jr = length pre" "data = pre @ frame_bytes delta f @ rest"
    and "int (jr_blockOff jr + length (frame_bytes delta f)) \<le> jr_devTableOff jr" "jr_devTableOff jr \<le> int (length data)"
  shows "decode_frame jr data = Inr (delta, rx_Header f, rx_Data f, jr_blockOff jr + length (frame_bytes delta f))"
proof -
  let ?off = "length pre" and ?limit = "nat (jr_devTableOff jr)"
  let ?off1 = "?off + UvarintSize delta"
  have lim: "?off + length (frame_bytes delta f) \<le> ?limit" "?limit \<le> length data"
    using assms(2,4,5) by auto
  have pos: "0 < length (frame_bytes delta f)"
    by (simp add: frame_bytes_def)
  obtain rest' where "slice data ?off ?limit = frame_bytes delta f @ rest'"
    using slice_frame [of ?off pre "frame_bytes delta f" ?limit rest] lim assms(3) by auto
  then have u: "Uvarint (slice data ?off ?limit) = (delta, int (UvarintSize delta))"
    by (simp add: frame_bytes_def Uvarint_Put)
  have id: "LE_Uint32 (drop ?off1 data) = stored_id f"
    by (simp add: assms(3) frame_bytes_def length_PutUvarint le_simps)
  have len: "length (frame_bytes delta f) = UvarintSize delta + 4 + length (payload_bytes f)"
    by (simp add: frame_bytes_def length_PutUvarint)
  have data: "data = (pre @ PutUvarint delta @ LE_PutUint32 (stored_id f)) @ payload_bytes f @ rest"
    by (simp add: assms(3) frame_bytes_def)
  have p: "frame_payload data (length (rx_Data f) = 8) (?off1 + 4) ?limit idx blk = Inr (rx_Data f, ?off1 + 4 + length (payload_bytes f))" for idx blk
    unfolding data by (rule frame_payload_decodes [OF assms(1)]) (use lim(1) len in \<open>simp_all add: length_PutUvarint\<close>)
  have "\<not> int (jr_blockOff jr) \<ge> jr_devTableOff jr"
    using assms(4) pos by linarith
  moreover have "\<not> ?off1 + 4 > ?limit"
    using lim(1) len by simp
  ultimately show ?thesis
    using u id p stored_id_flag [OF assms(1)] len assms(2) by (simp add: decode_frame_def Let_def add.assoc)
qed

section \<open>The frames of a block\<close>

abbreviation us :: "RxFrame \<Rightarrow> int" where
  "us f \<equiv> UnixMicro (rx_Timestamp f)"

text \<open>The frame data of a block; the first frame is encoded relative to its own time.\<close>

fun frames_bytes :: "int \<Rightarrow> RxFrame list \<Rightarrow> bytes" where
  "frames_bytes t [] = []"
| "frames_bytes t (f # fs) = frame_bytes (word_of_int (us f - t)) f @ frames_bytes (us f) fs"

lemma frames_bytes_append:
  "frames_bytes t (fs @ [f]) = frames_bytes t fs @ frame_bytes (word_of_int (us f - (if fs = [] then t else us (last fs)))) f"
  by (induction fs arbitrary: t) auto

lemma frames_bytes_split: "\<exists>more. frames_bytes t fs = frames_bytes t (take k fs) @ more"
proof (induction fs arbitrary: t k)
  case (Cons f fs)
  then show ?case
    by (cases k) auto
qed simp

lemma us_range: "- (2 ^ 63) \<le> us f" "us f < 2 ^ 63"
  by (simp_all add: UnixMicro_def i64_wrap_def)

lemma i64_delta: "i64_wrap (us f + i64_of (word_of_int (us g - us f))) = us g"
proof -
  have "i64_wrap (us f + i64_wrap (us g - us f)) = i64_wrap (us g)"
    by (simp add: i64_wrap_def mod_simps)
  then show ?thesis
    using us_range [of g] by (simp only: i64_of_word i64_wrap_id)
qed

definition entry_of :: "RxFrame \<Rightarrow> Entry" where
  "entry_of f = \<lparr>je_Timestamp = time_UnixMicro (us f), je_Header = rx_Header f, je_Data = rx_Data f\<rparr>"

text \<open>
  A finished block: base time and sequence number of its first frame, the frame data, padding, the
  device table and the trailer with the checksum.
\<close>

definition good_block :: "RxFrame list \<Rightarrow> deviceTableEntry list \<Rightarrow> bytes \<Rightarrow> bool" where
  "good_block fs es b \<longleftrightarrow>
     fs \<noteq> [] \<and> length fs < 2 ^ 32 \<and> length (table_bytes es) < 2 ^ 16 \<and>
     (\<exists>pad. let body = LE_PutUint64 (word_of_int (us (hd fs))) @ LE_PutUint64 (rx_Seq (hd fs)) @ frames_bytes (us (hd fs)) fs
                    @ pad @ table_bytes es @ LE_PutUint16 (of_nat (length (table_bytes es))) @ LE_PutUint32 (of_nat (length fs))
            in b = body @ LE_PutUint32 (crc32c body))"

text \<open>The reader after \<open>k\<close> frames of a block.\<close>

definition at_frame :: "nat \<Rightarrow> RxFrame list \<Rightarrow> deviceTableEntry list \<Rightarrow> bytes \<Rightarrow> nat \<Rightarrow> Reader \<Rightarrow> bool" where
  "at_frame n fs es b k jr \<longleftrightarrow>
     jr_currentBlock jr = int n \<and> jr_blockData jr = Some b \<and> jr_version jr = Version2 \<and>
     jr_frameIdx jr = k \<and> jr_frameCount jr = length fs \<and> jr_err jr = None \<and>
     jr_blockOff jr = 16 + length (frames_bytes (us (hd fs)) (take k fs)) \<and>
     jr_baseTimeUs jr = us (hd fs) \<and> jr_lastTimeUs jr = us (if k = 0 then hd fs else fs ! (k - 1)) \<and>
     jr_devTableOff jr = int (length b) - 10 - int (length (table_bytes es)) \<and>
     jr_baseSeqBlock jr = rx_Seq (hd fs)"

lemma take_hd [simp]: "fs \<noteq> [] \<Longrightarrow> 0 < k \<Longrightarrow> hd (take k fs) = hd fs"
  by (cases fs; cases k) auto

lemma parseLoadedBlock_good:
  assumes g: "good_block fs es b" and "jr_blockBuf jr = b" "jr_blockSize jr = length b" "jr_version jr = Version2" "jr_err jr = None"
  shows "\<exists>jr'. parseLoadedBlock n jr = (jr', None) \<and> at_frame n fs es b 0 jr' \<and>
    jr_r jr' = jr_r jr \<and> jr_blocks jr' = jr_blocks jr \<and> jr_compression jr' = jr_compression jr \<and> jr_blockSize jr' = jr_blockSize jr \<and> jr_pf jr' = jr_pf jr"
proof -
  let ?n = "length (table_bytes es)"
  obtain pad where pad: "let body = LE_PutUint64 (word_of_int (us (hd fs))) @ LE_PutUint64 (rx_Seq (hd fs)) @ frames_bytes (us (hd fs)) fs
      @ pad @ table_bytes es @ LE_PutUint16 (of_nat ?n) @ LE_PutUint32 (of_nat (length fs)) in b = body @ LE_PutUint32 (crc32c body)"
    using g unfolding good_block_def by blast
  define pre where "pre = LE_PutUint64 (word_of_int (us (hd fs))) @ LE_PutUint64 (rx_Seq (hd fs)) @ frames_bytes (us (hd fs)) fs
      @ pad @ table_bytes es"
  define body where "body = pre @ LE_PutUint16 (of_nat ?n) @ LE_PutUint32 (of_nat (length fs))"
  have b: "b = body @ LE_PutUint32 (crc32c body)"
    using pad by (simp add: Let_def body_def pre_def)
  have hd: "\<exists>rest. body = LE_PutUint64 (word_of_int (us (hd fs))) @ LE_PutUint64 (rx_Seq (hd fs)) @ rest"
    by (simp add: body_def pre_def)
  note body = body_def
  have crc: "LE_Uint32 (drop (length b - 4) b) = crc32c body" "take (length b - 4) b = body"
    by (simp_all add: b le_simps)
  have trailer: "LE_Uint16 (drop (length b - 10) b) = of_nat ?n" "LE_Uint32 (drop (length b - 10 + 2) b) = of_nat (length fs)"
    by (simp_all add: b body le_simps)
  have base: "i64_of (LE_Uint64 b) = us (hd fs)" "LE_Uint64 (drop 8 b) = rx_Seq (hd fs)"
    using hd us_range [of "hd fs"] by (auto simp: b le_simps i64_of_word i64_wrap_id)
  have "unat (of_nat ?n :: u16) = ?n" "uint (of_nat ?n :: u16) = int ?n" "unat (of_nat (length fs) :: u32) = length fs"
    using g by (simp_all add: good_block_def unat_of_nat uint_nat take_bit_eq_mod)
  then show ?thesis
    using assms(2-5) crc trailer base by (simp add: parseLoadedBlock_def Let_def at_frame_def format_consts)
qed

lemma parseNextFrame_good:
  assumes g: "good_block fs es b" and "k < length fs" "at_frame n fs es b k jr" "\<forall>f \<in> set fs. frame_ok f"
  shows "\<exists>jr'. parseNextFrame b jr = (jr', True) \<and> at_frame n fs es b (Suc k) jr' \<and> jr_entry jr' = entry_of (fs ! k) \<and>
    jr_r jr' = jr_r jr \<and> jr_blocks jr' = jr_blocks jr \<and> jr_compression jr' = jr_compression jr \<and> jr_blockSize jr' = jr_blockSize jr \<and> jr_pf jr' = jr_pf jr"
proof -
  let ?f = "fs ! k" and ?t = "us (hd fs)" and ?last = "us (if k = 0 then hd fs else fs ! (k - 1))"
  let ?d = "word_of_int (us ?f - ?last) :: u64"
  have ne: "fs \<noteq> []"
    using assms(2) by auto
  have fk: "take (Suc k) fs = take k fs @ [?f]"
    by (rule take_Suc_conv_app_nth [OF assms(2)])
  have lastk: "(if take k fs = [] then ?t else us (last (take k fs))) = ?last"
    using assms(2) ne by (auto simp: last_conv_nth min_def)
  have enc: "frames_bytes ?t (take (Suc k) fs) = frames_bytes ?t (take k fs) @ frame_bytes ?d ?f"
    using frames_bytes_append [of ?t "take k fs" ?f] by (simp only: fk lastk)
  have split: "\<exists>more. frames_bytes ?t fs = frames_bytes ?t (take (Suc k) fs) @ more"
    by (rule frames_bytes_split)
  obtain pad more where b: "b = (LE_PutUint64 (word_of_int ?t) @ LE_PutUint64 (rx_Seq (hd fs)) @ frames_bytes ?t (take k fs))
       @ frame_bytes ?d ?f @ more @ pad" and pad: "10 + length (table_bytes es) \<le> length pad"
    using g split enc by (auto simp: good_block_def Let_def)
  have "decode_frame jr b = Inr (?d, rx_Header ?f, rx_Data ?f, jr_blockOff jr + length (frame_bytes ?d ?f))"
    by (rule decode_frame_bytes [OF _ _ b]) (use assms(2-4) b pad in \<open>auto simp: at_frame_def\<close>)
  moreover have "us ?f = (if k = 0 then ?t else i64_wrap (?last + i64_of ?d))"
    using ne i64_delta [of "fs ! (k - 1)" ?f] by (simp add: hd_conv_nth)
  ultimately show ?thesis
    using assms(3) enc by (auto simp: parseNextFrame_def Let_def at_frame_def entry_of_def)
qed

section \<open>Finishing a block\<close>

lemma put_next:
  "off + length xs + length ys \<le> length block \<Longrightarrow> p = off + length xs \<Longrightarrow>
     put_bytes p ys (splice_at off xs block) = Some (splice_at off (xs @ ys) block)"
  by (simp add: put_bytes_def splice_at_splice_at)

lemma lps_next:
  "off + length xs + 1 + length str \<le> length block \<Longrightarrow> p = off + length xs \<Longrightarrow> length str \<le> 255 \<Longrightarrow>
     PutLenPrefixedString p str (splice_at off xs block) = Some (splice_at off (xs @ lps_bytes str) block, 1 + length str)"
  by (simp add: PutLenPrefixedString_fits splice_at_splice_at)

lemma length_entry_bytes: "length (entry_bytes e) = entry_size e"
  by (simp add: entry_bytes_def entry_size_def entry_strings_def)

lemma length_table_bytes: "length (table_bytes es) = 2 + sum_list (map entry_size es)"
  by (simp add: table_bytes_def length_concat length_entry_bytes comp_def)

lemma put_entry_fits:
  assumes "entry_ok e" "off + entry_size e \<le> length block"
  shows "put_entry e (block, off) = Some (splice_at off (entry_bytes e) block, off + entry_size e)"
proof -
  let ?a = "[te_Source e]" let ?b = "?a @ LE_PutUint64 (te_NAME e)"
  let ?c = "?b @ LE_PutUint32 (te_ActiveFrom e)" let ?d = "?c @ LE_PutUint16 (te_ProductCode e)"
  let ?e = "?d @ lps_bytes (te_ModelID e)" let ?f = "?e @ lps_bytes (te_SoftwareVersion e)" let ?g = "?f @ lps_bytes (te_ModelVersion e)"
  have ok: "length (te_ModelID e) \<le> 255" "length (te_SoftwareVersion e) \<le> 255" "length (te_ModelVersion e) \<le> 255" "length (te_ModelSerial e) \<le> 255"
    using assms(1) by (simp_all add: entry_ok_def entry_strings_def)
  have sz: "entry_size e = 19 + length (te_ModelID e) + length (te_SoftwareVersion e) + length (te_ModelVersion e) + length (te_ModelSerial e)"
    by (simp add: entry_size_def)
  note le = assms(2) [unfolded sz]
  have "put_bytes off ?a block = Some (splice_at off ?a block)"
    "put_bytes (off + 1) (LE_PutUint64 (te_NAME e)) (splice_at off ?a block) = Some (splice_at off ?b block)"
    "put_bytes (off + 9) (LE_PutUint32 (te_ActiveFrom e)) (splice_at off ?b block) = Some (splice_at off ?c block)"
    "put_bytes (off + 13) (LE_PutUint16 (te_ProductCode e)) (splice_at off ?c block) = Some (splice_at off ?d block)"
    using le by (simp_all only: put_bytes_fits put_next length_append length_LE_Put list.size)
  moreover have
    "PutLenPrefixedString (off + 15) (te_ModelID e) (splice_at off ?d block) = Some (splice_at off ?e block, 1 + length (te_ModelID e))"
    "PutLenPrefixedString (off + 15 + (1 + length (te_ModelID e))) (te_SoftwareVersion e) (splice_at off ?e block)
       = Some (splice_at off ?f block, 1 + length (te_SoftwareVersion e))"
    "PutLenPrefixedString (off + 15 + (1 + length (te_ModelID e)) + (1 + length (te_SoftwareVersion e))) (te_ModelVersion e) (splice_at off ?f block)
       = Some (splice_at off ?g block, 1 + length (te_ModelVersion e))"
    "PutLenPrefixedString (off + 15 + (1 + length (te_ModelID e)) + (1 + length (te_SoftwareVersion e)) + (1 + length (te_ModelVersion e)))
       (te_ModelSerial e) (splice_at off ?g block) = Some (splice_at off (?g @ lps_bytes (te_ModelSerial e)) block, 1 + length (te_ModelSerial e))"
    using le ok by (intro lps_next; simp)+
  ultimately show ?thesis
    by (simp only: put_entry_def split_conv Option.bind.bind_lunit sz) (simp add: entry_bytes_def entry_strings_def)
qed

lemma put_entries_fit:
  "\<forall>e \<in> set es. entry_ok e \<Longrightarrow> off + sum_list (map entry_size es) \<le> length block \<Longrightarrow>
     fold_opt put_entry es (block, off) = Some (splice_at off (concat (map entry_bytes es)) block, off + sum_list (map entry_size es))"
proof (induction es arbitrary: block off)
  case (Cons e es)
  have "off + entry_size e \<le> length block"
    using Cons.prems by simp
  then show ?case
    using Cons.IH [of "off + entry_size e" "splice_at off (entry_bytes e) block"] Cons.prems
      splice_at_splice_at [of off "entry_bytes e" "concat (map entry_bytes es)" block]
    by (simp add: put_entry_fits length_entry_bytes length_concat comp_def)
qed simp

lemma finish_block_good:
  assumes block: "take off block = LE_PutUint64 (word_of_int (us (hd fs))) @ LE_PutUint64 (rx_Seq (hd fs)) @ frames_bytes (us (hd fs)) fs"
    and off: "off \<le> length block" "off + length (table_bytes es) + 10 \<le> length block"
    and es: "\<forall>e \<in> set es. entry_ok e" "length (table_bytes es) < 2 ^ 16"
    and fs: "fs \<noteq> []" "length fs < 2 ^ 32"
  shows "\<exists>b. finish_block es (of_nat (length fs)) block = Some b \<and> good_block fs es b \<and> length b = length block"
proof -
  let ?T = "table_bytes es" let ?o = "length block - 10 - length ?T"
  let ?x = "?T @ LE_PutUint16 (of_nat (length ?T)) @ LE_PutUint32 (of_nat (length fs))"
  define b4 where "b4 = splice_at ?o ?x block"
  define body where "body = take ?o block @ ?x"
  have o: "int (length block) - int BlockTrailerLen - int (length ?T) = int ?o" "nat (int (length block) - int BlockTrailerLen - int (length ?T)) = ?o"
    using off by (simp_all add: format_consts)
  have T: "length ?T = 2 + sum_list (map entry_size es)"
    by (rule length_table_bytes)
  have 1: "put_bytes ?o (LE_PutUint16 (of_nat (length es))) block = Some (splice_at ?o (LE_PutUint16 (of_nat (length es))) block)"
    using off T by (intro put_bytes_fits) simp
  have 2: "fold_opt put_entry es (splice_at ?o (LE_PutUint16 (of_nat (length es))) block, ?o + 2) = Some (splice_at ?o ?T block, ?o + length ?T)"
    using put_entries_fit [OF es(1), of "?o + 2" "splice_at ?o (LE_PutUint16 (of_nat (length es))) block"] off T
      splice_at_splice_at [of ?o "LE_PutUint16 (of_nat (length es))" "concat (map entry_bytes es)" block]
    by (simp add: table_bytes_def length_concat length_entry_bytes comp_def)
  have 3: "put_bytes (length block - BlockTrailerLen) (LE_PutUint16 (of_nat (length ?T))) (splice_at ?o ?T block)
      = Some (splice_at ?o (?T @ LE_PutUint16 (of_nat (length ?T))) block)"
    using off by (intro put_next) (simp_all add: format_consts)
  have 4: "put_bytes (length block - BlockTrailerLen + 2) (LE_PutUint32 (of_nat (length fs))) (splice_at ?o (?T @ LE_PutUint16 (of_nat (length ?T))) block)
      = Some b4"
    using off put_next [of ?o "?T @ LE_PutUint16 (of_nat (length ?T))" "LE_PutUint32 (of_nat (length fs))" block "length block - BlockTrailerLen + 2"]
    by (simp add: format_consts b4_def)
  have lb: "length b4 = length block" "take (length block - 4) b4 = body"
    using off by (simp_all add: b4_def body_def splice_at_def)
  have 5: "put_bytes (length block - 4) (LE_PutUint32 (crc32c body)) b4 = Some (body @ LE_PutUint32 (crc32c body))"
    using off lb by (simp add: put_bytes_def splice_at_def)
  have fin: "finish_block es (of_nat (length fs)) block = Some (body @ LE_PutUint32 (crc32c body))"
    using 1 2 3 4 5 lb(2) o T by (simp add: finish_block_def Let_def)
  have "take ?o block = take off block @ take (?o - off) (drop off block)"
    using off by (simp flip: take_add)
  then have "body = (LE_PutUint64 (word_of_int (us (hd fs))) @ LE_PutUint64 (rx_Seq (hd fs)) @ frames_bytes (us (hd fs)) fs)
      @ take (?o - off) (drop off block) @ ?x"
    by (simp only: body_def block append.assoc)
  then have "good_block fs es (body @ LE_PutUint32 (crc32c body))"
    using fs es(2) unfolding good_block_def Let_def by auto
  moreover have "length (body @ LE_PutUint32 (crc32c body)) = length block"
    using off by (simp add: body_def)
  ultimately show ?thesis
    using fin by blast
qed

section \<open>Walking over the blocks of a file\<close>

type_synonym block_desc = "RxFrame list \<times> deviceTableEntry list \<times> bytes"

abbreviation blk_frames :: "block_desc \<Rightarrow> RxFrame list" where "blk_frames d \<equiv> fst d"
abbreviation blk_entries :: "block_desc \<Rightarrow> deviceTableEntry list" where "blk_entries d \<equiv> fst (snd d)"
abbreviation blk_bytes :: "block_desc \<Rightarrow> bytes" where "blk_bytes d \<equiv> snd (snd d)"

definition desc_ok :: "block_desc \<Rightarrow> bool" where
  "desc_ok d \<longleftrightarrow> good_block (blk_frames d) (blk_entries d) (blk_bytes d) \<and> (\<forall>f \<in> set (blk_frames d). frame_ok f)"

text \<open>What the frames of a block are read as: numbered from the base sequence number on.\<close>

definition block_out :: "RxFrame list \<Rightarrow> (u64 \<times> Entry) list" where
  "block_out fs = map (\<lambda>i. (rx_Seq (hd fs) + of_nat i, entry_of (fs ! i))) [0..<length fs]"

text \<open>The reader's source: fetching the \<open>i\<close>-th block of the file gives the \<open>i\<close>-th block written.\<close>

definition pf_ok :: "block_desc list \<Rightarrow> Reader \<Rightarrow> bool" where
  "pf_ok bl jr \<longleftrightarrow>
     (\<forall>pf n. jr_pf jr = Some pf \<longrightarrow> pf_done pf \<longrightarrow> pf_block pf = int n \<longrightarrow> n < length bl \<longrightarrow> pf_buf pf = Inr (blk_bytes (bl ! n)))"

definition source_of :: "zstd \<Rightarrow> block_desc list \<Rightarrow> Reader \<Rightarrow> bool" where
  "source_of z bl jr \<longleftrightarrow>
     jr_version jr = Version2 \<and> pf_ok bl jr \<and> length (jr_blocks jr) = length bl \<and> list_all desc_ok bl \<and>
     (\<forall>i < length bl. fetch_block z i jr = Inr (blk_bytes (bl ! i)) \<and> length (blk_bytes (bl ! i)) = jr_blockSize jr)"

lemma fetch_block_cong:
  assumes "jr_r jr' = jr_r jr" "jr_blocks jr' = jr_blocks jr" "jr_compression jr' = jr_compression jr"
    "jr_blockSize jr' = jr_blockSize jr" "jr_version jr' = jr_version jr"
  shows "fetch_block z n jr' = fetch_block z n jr"
proof -
  have "blockPayloadLimit n h jr' = blockPayloadLimit n h jr" "checked_size n jr' x = checked_size n jr x" for h x
    by (simp_all only: blockPayloadLimit_def checked_size_def assms)
  then show ?thesis
    unfolding fetch_block_def fetch_fixed_def fetch_zstd_def fetch_dict_def assms by presburger
qed

lemma source_of_cong:
  assumes "source_of z bl jr" "jr_r jr' = jr_r jr" "jr_blocks jr' = jr_blocks jr" "jr_compression jr' = jr_compression jr"
    "jr_blockSize jr' = jr_blockSize jr" "jr_version jr' = jr_version jr" "pf_ok bl jr'"
  shows "source_of z bl jr'"
  using assms fetch_block_cong [OF assms(2-6), of z] by (simp add: source_of_def)

definition before_block :: "nat \<Rightarrow> Reader \<Rightarrow> bool" where
  "before_block m jr \<longleftrightarrow>
     jr_currentBlock jr + 1 = int m \<and> jr_err jr = None \<and> (jr_blockData jr = None \<or> \<not> jr_frameIdx jr < jr_frameCount jr)"

abbreviation at_block :: "block_desc list \<Rightarrow> nat \<Rightarrow> nat \<Rightarrow> Reader \<Rightarrow> bool" where
  "at_block bl n k jr \<equiv> at_frame n (blk_frames (bl ! n)) (blk_entries (bl ! n)) (blk_bytes (bl ! n)) k jr"

lemma before_block_done: "before_block m jr \<Longrightarrow> block_step jr = BlockDone jr"
  by (auto simp: before_block_def block_step_def split: option.split)

lemma at_block_end: "at_block bl n (length (blk_frames (bl ! n))) jr \<Longrightarrow> before_block (Suc n) jr"
  by (simp add: at_frame_def before_block_def)

text \<open>Read-ahead gives what a direct load of the block gives, or nothing.\<close>

lemma prefetch_result_fetch:
  assumes "fetch_block z n jr = Inr b" "prefetch_result z n jr = Some res"
  shows "res = Inr b"
proof (cases "jr_compression jr")
  case CompressionNone
  then show ?thesis
    using assms by (auto simp: fetch_block_def prefetch_result_def split: sum.splits)
next
  case CompressionZstd
  then show ?thesis
    using assms
    by (auto simp: fetch_block_def prefetch_result_def fetch_zstd_def prefetch_zstd_def Let_def split: option.splits sum.splits if_splits)
next
  case CompressionZstdDict
  then show ?thesis
    using assms
    by (auto simp: fetch_block_def prefetch_result_def fetch_dict_def prefetch_dict_def Let_def split: option.splits sum.splits if_splits)
qed

lemma source_of_pf: "source_of z bl jr \<Longrightarrow> pf_ok bl (jr\<lparr>jr_pf := pf\<rparr>) \<Longrightarrow> source_of z bl (jr\<lparr>jr_pf := pf\<rparr>)"
  by (rule source_of_cong) simp_all

lemma startPrefetch_source:
  assumes "source_of z bl jr"
  shows "source_of z bl (startPrefetch z n jr)"
proof -
  have "pf_ok bl (jr\<lparr>jr_pf := Some \<lparr>pf_block = int n, pf_buf = res, pf_done = True\<rparr>\<rparr>)" if "n < length (jr_blocks jr)" "prefetch_result z n jr = Some res" for res
    using assms that prefetch_result_fetch [of z n jr _ res] by (auto simp: pf_ok_def source_of_def)
  then show ?thesis
    using assms source_of_pf by (auto simp: startPrefetch_def split: option.split)
qed

lemma at_frame_pf [simp]: "at_frame n fs es b k (jr\<lparr>jr_pf := pf\<rparr>) = at_frame n fs es b k jr"
  by (simp add: at_frame_def)

lemma at_frame_startPrefetch [simp]: "at_frame n fs es b k (startPrefetch z m jr) = at_frame n fs es b k jr"
  by (auto simp: startPrefetch_def split: option.split)

lemma cancelPrefetch_source: "source_of z bl jr \<Longrightarrow> source_of z bl (cancelPrefetch jr)"
  by (auto simp: cancelPrefetch_def pf_ok_def intro!: source_of_pf split: option.split)

lemma EnablePrefetch_source: "source_of z bl jr \<Longrightarrow> source_of z bl (EnablePrefetch jr)"
  by (auto simp: EnablePrefetch_def pf_ok_def intro!: source_of_pf split: option.split)

lemma parse_source:
  assumes "source_of z bl jr" "jr_err jr = None" "m < length bl"
  shows "\<exists>jr'. parseLoadedBlock m (jr\<lparr>jr_blockBuf := blk_bytes (bl ! m)\<rparr>) = (jr', None) \<and> at_block bl m 0 jr' \<and> source_of z bl jr'"
proof -
  let ?b = "blk_bytes (bl ! m)"
  have f: "length ?b = jr_blockSize jr" "desc_ok (bl ! m)" "jr_version jr = Version2" "pf_ok bl jr"
    using assms(1,3) by (auto simp: source_of_def list_all_length)
  obtain jr' where jr': "parseLoadedBlock m (jr\<lparr>jr_blockBuf := ?b\<rparr>) = (jr', None)" "at_block bl m 0 jr'"
    and same: "jr_r jr' = jr_r jr" "jr_blocks jr' = jr_blocks jr" "jr_compression jr' = jr_compression jr" "jr_blockSize jr' = jr_blockSize jr" "jr_pf jr' = jr_pf jr"
    using parseLoadedBlock_good [of "blk_frames (bl ! m)" "blk_entries (bl ! m)" ?b "jr\<lparr>jr_blockBuf := ?b\<rparr>" m] f assms(2)
    by (auto simp: desc_ok_def)
  have "jr_version jr' = jr_version jr" "pf_ok bl jr'"
    using jr'(2) f(3,4) same(5) by (simp_all add: at_frame_def pf_ok_def)
  then show ?thesis
    using jr' source_of_cong [OF assms(1) same(1-4)] by blast
qed

lemma load_fresh_source:
  assumes "source_of z bl jr" "jr_err jr = None" "m < length bl"
  shows "\<exists>jr'. load_fresh z m jr = (jr', None) \<and> at_block bl m 0 jr' \<and> source_of z bl jr'"
proof -
  have "fetch_block z m jr = Inr (blk_bytes (bl ! m))"
    using assms(1,3) by (simp add: source_of_def)
  then show ?thesis
    using parse_source [OF assms] startPrefetch_source by (auto simp: load_fresh_def)
qed

lemma loadBlock_source:
  assumes "source_of z bl jr" "jr_err jr = None" "m < length bl"
  shows "\<exists>jr'. loadBlock z m jr = (jr', None) \<and> at_block bl m 0 jr' \<and> source_of z bl jr'"
proof (cases "\<exists>pf. jr_pf jr = Some pf \<and> pf_block pf = int m \<and> pf_done pf")
  case True
  then obtain pf where pf: "jr_pf jr = Some pf" "pf_block pf = int m" "pf_done pf" "pf_buf pf = Inr (blk_bytes (bl ! m))"
    using assms(1,3) by (auto simp: source_of_def pf_ok_def)
  let ?jr = "jr\<lparr>jr_pf := Some (pf\<lparr>pf_block := -1, pf_done := False\<rparr>)\<rparr>"
  have "source_of z bl ?jr"
    by (rule source_of_pf [OF assms(1)]) (simp add: pf_ok_def)
  then obtain jr' where "parseLoadedBlock m (?jr\<lparr>jr_blockBuf := blk_bytes (bl ! m)\<rparr>) = (jr', None)" "at_block bl m 0 jr'" "source_of z bl jr'"
    using parse_source [of z bl ?jr m] assms(2,3) by auto
  then show ?thesis
    using pf startPrefetch_source by (auto simp: loadBlock_def Let_def)
next
  case False
  then have "loadBlock z m jr = load_fresh z m jr"
    by (auto simp: loadBlock_def split: option.split)
  then show ?thesis
    using load_fresh_source [OF assms] by simp
qed

lemma Next_loads_block:
  assumes "source_of z bl jr" "before_block m jr" "m < length bl"
  shows "\<exists>jr'. Reader_Next z jr = Reader_Next z jr' \<and> at_block bl m 0 jr' \<and> source_of z bl jr'"
proof -
  obtain jr' where jr': "loadBlock z m jr = (jr', None)" "at_block bl m 0 jr'" "source_of z bl jr'"
    using loadBlock_source [OF assms(1) _ assms(3)] assms(2) by (auto simp: before_block_def)
  have "nat (jr_currentBlock jr + 1) = m" "\<not> jr_currentBlock jr + 1 \<ge> int (length (jr_blocks jr))"
    using assms by (auto simp: before_block_def source_of_def)
  then have "Reader_Next z jr = Reader_Next z jr'"
    using jr'(1) before_block_done [OF assms(2)] by (subst Reader_Next.simps) (simp add: Let_def)
  then show ?thesis
    using jr'(2,3) by blast
qed

lemma Next_ends:
  assumes "source_of z bl jr" "before_block (length bl) jr"
  shows "Reader_Next z jr = Some (jr, False)"
  using assms before_block_done [OF assms(2)] by (subst Reader_Next.simps) (simp add: Let_def before_block_def source_of_def)

lemma Next_delivers:
  assumes "source_of z bl jr" "at_block bl n k jr" "n < length bl" "k < length (blk_frames (bl ! n))"
  shows "\<exists>jr'. Reader_Next z jr = Some (jr', True) \<and> at_block bl n (Suc k) jr' \<and> source_of z bl jr' \<and>
    (FrameSeq jr', jr_entry jr') = block_out (blk_frames (bl ! n)) ! k"
proof -
  have ok: "desc_ok (bl ! n)"
    using assms(1,3) by (auto simp: source_of_def list_all_length)
  obtain jr' where jr': "parseNextFrame (blk_bytes (bl ! n)) jr = (jr', True)" "at_block bl n (Suc k) jr'" "jr_entry jr' = entry_of (blk_frames (bl ! n) ! k)"
    and same: "jr_r jr' = jr_r jr" "jr_blocks jr' = jr_blocks jr" "jr_compression jr' = jr_compression jr" "jr_blockSize jr' = jr_blockSize jr" "jr_pf jr' = jr_pf jr"
    using parseNextFrame_good [OF _ assms(4,2)] ok by (auto simp: desc_ok_def)
  have "jr_version jr' = jr_version jr"
    using jr'(2) assms(2) by (simp add: at_frame_def)
  then have "source_of z bl jr'"
    using source_of_cong [OF assms(1) same(1-4)] assms(1) same(5) by (simp add: source_of_def pf_ok_def)
  moreover have "Reader_Next z jr = Some (jr', True)"
    using jr'(1) assms(2,4) by (subst Reader_Next.simps) (simp add: block_step_def at_frame_def)
  moreover have "FrameSeq jr' = rx_Seq (hd (blk_frames (bl ! n))) + of_nat k"
    using jr'(2) by (simp add: FrameSeq_def at_frame_def)
  ultimately show ?thesis
    using jr'(2,3) assms(4) by (auto simp: block_out_def)
qed

text \<open>Reading on from any point of a file delivers the frames that are left, and then ends without an error.\<close>

definition rest_out :: "block_desc list \<Rightarrow> nat \<Rightarrow> nat \<Rightarrow> (u64 \<times> Entry) list" where
  "rest_out bl n k = drop k (block_out (blk_frames (bl ! n))) @ concat (map (\<lambda>d. block_out (blk_frames d)) (drop (Suc n) bl))"

lemma drain_eqI: "Reader_Next z jr = Reader_Next z jr' \<Longrightarrow> drain z fuel jr = drain z fuel jr'"
  by (cases fuel) simp_all

lemma length_block_out [simp]: "length (block_out fs) = length fs"
  by (simp add: block_out_def)

lemma drain_from:
  assumes "source_of z bl jr" "at_block bl n k jr" "n < length bl" "k \<le> length (blk_frames (bl ! n))" "length (rest_out bl n k) < fuel"
  shows "\<exists>jr'. drain z fuel jr = Some (rest_out bl n k, jr') \<and> jr_err jr' = None"
  using assms
proof (induction fuel arbitrary: jr n k)
  case (Suc fuel)
  show ?case
  proof (cases "k < length (blk_frames (bl ! n))")
    case True
    obtain jr1 where jr1: "Reader_Next z jr = Some (jr1, True)" "at_block bl n (Suc k) jr1" "source_of z bl jr1"
      "(FrameSeq jr1, jr_entry jr1) = block_out (blk_frames (bl ! n)) ! k"
      using Next_delivers [OF Suc.prems(1-3) True] by blast
    have out: "rest_out bl n k = block_out (blk_frames (bl ! n)) ! k # rest_out bl n (Suc k)"
      using True by (simp add: rest_out_def Cons_nth_drop_Suc)
    then show ?thesis
      using Suc.IH [OF jr1(3,2) Suc.prems(3)] True Suc.prems(5) jr1(1,4) by auto
  next
    case False
    then have k: "k = length (blk_frames (bl ! n))"
      using Suc.prems(4) by simp
    have bb: "before_block (Suc n) jr"
      using at_block_end Suc.prems(2) k by blast
    show ?thesis
    proof (cases "Suc n < length bl")
      case True
      obtain jr1 where jr1: "Reader_Next z jr = Reader_Next z jr1" "at_block bl (Suc n) 0 jr1" "source_of z bl jr1"
        using Next_loads_block [OF Suc.prems(1) bb True] by blast
      have ne: "0 < length (blk_frames (bl ! Suc n))"
        using Suc.prems(1) True by (auto simp: source_of_def list_all_length desc_ok_def good_block_def)
      have out: "rest_out bl n k = rest_out bl (Suc n) 0"
        using True k by (simp add: rest_out_def flip: Cons_nth_drop_Suc)
      obtain jr2 where jr2: "Reader_Next z jr1 = Some (jr2, True)" "at_block bl (Suc n) (Suc 0) jr2" "source_of z bl jr2"
        "(FrameSeq jr2, jr_entry jr2) = block_out (blk_frames (bl ! Suc n)) ! 0"
        using Next_delivers [OF jr1(3,2) True ne] by blast
      have out': "rest_out bl (Suc n) 0 = block_out (blk_frames (bl ! Suc n)) ! 0 # rest_out bl (Suc n) (Suc 0)"
        using ne Cons_nth_drop_Suc [of 0 "block_out (blk_frames (bl ! Suc n))"] by (simp add: rest_out_def)
      then show ?thesis
        using Suc.IH [OF jr2(3,2) True] ne Suc.prems(5) jr1(1) jr2(1,4) out by auto
    next
      case False
      then have "rest_out bl n k = []"
        using k by (simp add: rest_out_def)
      moreover have "Suc n = length bl"
        using False Suc.prems(3) by simp
      then have "before_block (length bl) jr"
        using bb by simp
      ultimately show ?thesis
        using Next_ends [OF Suc.prems(1)] by (auto simp: before_block_def)
    qed
  qed
qed simp

lemma drain_file:
  assumes "source_of z bl jr" "before_block 0 jr" "length (concat (map (\<lambda>d. block_out (blk_frames d)) bl)) < fuel"
  shows "\<exists>jr'. drain z fuel jr = Some (concat (map (\<lambda>d. block_out (blk_frames d)) bl), jr') \<and> jr_err jr' = None"
proof (cases bl)
  case Nil
  then show ?thesis
    using Next_ends [of z bl jr] assms by (cases fuel) (auto simp: before_block_def)
next
  case (Cons d ds)
  obtain jr1 where jr1: "Reader_Next z jr = Reader_Next z jr1" "at_block bl 0 0 jr1" "source_of z bl jr1"
    using Next_loads_block [OF assms(1,2)] Cons by auto
  have "rest_out bl 0 0 = concat (map (\<lambda>d. block_out (blk_frames d)) bl)"
    by (simp add: rest_out_def Cons)
  then show ?thesis
    using drain_from [OF jr1(3,2), of fuel] drain_eqI [OF jr1(1)] assms(3) Cons by simp
qed

end
