(* ===== verification/JournalFiles.thy ===== *)
theory JournalFiles
  imports JournalBlocks
begin

text \<open>
  Journal files end to end: what the writer leaves on the disk, the reader delivers. The invariant of
  the writer relates its state to the blocks already in the file and the frames of the current block.
\<close>

section \<open>The parts of a file\<close>

definition codec_ok :: "zstd \<Rightarrow> nat \<Rightarrow> bool" where
  "codec_ok z bs \<longleftrightarrow>
     (\<forall>b. length b = bs \<longrightarrow> z_decode z (z_encode z b) = Some b \<and> z_encode z b \<noteq> [] \<and> length (z_encode z b) \<le> 2 * bs) \<and>
     (\<forall>dict enc b. z_dictEncoder z dict = Some enc \<and> length b = bs \<longrightarrow>
        z_decodeDict z dict (enc b) = Some b \<and> enc b \<noteq> [] \<and> length (enc b) \<le> 2 * bs) \<and>
     (\<forall>samples dict. z_buildDict z samples = Some dict \<longrightarrow> dict \<noteq> [] \<and> length dict \<le> 8192)"

abbreviation blk_head :: "block_desc \<Rightarrow> bytes" where
  "blk_head d \<equiv> block_header (us (hd (blk_frames d))) (rx_Seq (hd (blk_frames d)))"

text \<open>The bytes of a block in the file.\<close>

definition dict_payload :: "zstd \<Rightarrow> block_desc \<Rightarrow> bytes \<Rightarrow> bytes \<Rightarrow> bool" where
  "dict_payload z d dict buf \<longleftrightarrow>
     length dict \<le> 8192 \<and>
     (if dict = [] then buf = z_encode z (blk_bytes d) else \<exists>enc. z_dictEncoder z dict = Some enc \<and> buf = enc (blk_bytes d))"

definition chunk_of :: "zstd \<Rightarrow> CompressionType \<Rightarrow> block_desc \<Rightarrow> bytes \<Rightarrow> bool" where
  "chunk_of z ct d ch \<longleftrightarrow>
     (case ct of
        CompressionNone \<Rightarrow> ch = blk_bytes d
      | CompressionZstd \<Rightarrow>
          ch = blk_head d @ LE_PutUint32 (of_nat (length (z_encode z (blk_bytes d)))) @ z_encode z (blk_bytes d)
      | CompressionZstdDict \<Rightarrow>
          (\<exists>dict buf. dict_payload z d dict buf \<and>
             ch = blk_head d @ LE_PutUint32 (of_nat (length dict)) @ LE_PutUint32 (of_nat (length buf)) @ dict @ buf))"

fun chunk_offsets :: "int \<Rightarrow> bytes list \<Rightarrow> int list" where
  "chunk_offsets p [] = []"
| "chunk_offsets p (ch # chs) = p # chunk_offsets (p + int (length ch)) chs"

lemma chunk_offsets_append:
  "chunk_offsets p (chs @ [ch]) = chunk_offsets p chs @ [p + int (length (concat chs))]"
  by (induction chs arbitrary: p) (auto simp: add.assoc)

lemma length_chunk_offsets [simp]: "length (chunk_offsets p chs) = length chs"
  by (induction chs arbitrary: p) auto

lemma length_file_header [simp]: "length (file_header bs ct) = 16"
  by (simp add: file_header_def Magic_def)

lemma length_block_header [simp]: "length (block_header t q) = 16"
  by (simp add: block_header_def)

abbreviation cfg_bs :: "JournalWriter \<Rightarrow> nat" where
  "cfg_bs w \<equiv> nat (jcf_BlockSize (jw_cfg w))"

abbreviation cfg_ct :: "JournalWriter \<Rightarrow> CompressionType" where
  "cfg_ct w \<equiv> jcf_Compression (jw_cfg w)"

definition file_state :: "zstd \<Rightarrow> string \<Rightarrow> block_desc list \<Rightarrow> bytes list \<Rightarrow> JournalWriter \<Rightarrow> bool" where
  "file_state z path bl chs w \<longleftrightarrow>
     jw_file w = Some path \<and>
     gm_get (jw_disk w) path = Some (file_header (jcf_BlockSize (jw_cfg w)) (cfg_ct w) @ concat chs) \<and>
     list_all2 (chunk_of z (cfg_ct w)) bl chs \<and>
     list_all (\<lambda>d. desc_ok d \<and> length (blk_bytes d) = cfg_bs w) bl \<and>
     jw_fileBytes w = 16 + int (length (concat chs)) \<and>
     jw_blockOffsets w = (if cfg_ct w = CompressionNone then [] else chunk_offsets 16 chs)"

section \<open>The current block\<close>

definition device_ok :: "Device \<Rightarrow> bool" where
  "device_ok d \<longleftrightarrow> length (d_ModelID d) \<le> 32 \<and> length (d_SoftwareVersion d) \<le> 40 \<and> length (d_ModelVersion d) \<le> 24 \<and> length (d_ModelSerial d) \<le> 32"

definition registry_strings_ok :: "DeviceRegistry \<Rightarrow> bool" where
  "registry_strings_ok r \<longleftrightarrow> list_all (\<lambda>(k, d). device_ok d) r"

definition room :: "JournalWriter \<Rightarrow> bool" where
  "room w \<longleftrightarrow> jw_dataOffset w + deviceTableSize w + BlockTrailerLen \<le> cfg_bs w \<and> deviceTableSize w < 2 ^ 16"

definition starts_ok :: "JournalWriter \<Rightarrow> bool" where
  "starts_ok w \<longleftrightarrow>
     list_all (\<lambda>d. entry_ok (start_entry d)) (jw_blockStartDevices w) \<and>
     jw_blockStartDeviceTableSize w = sum_list (map jdevice_size (jw_blockStartDevices w))"

definition block_state :: "RxFrame list \<Rightarrow> JournalWriter \<Rightarrow> bool" where
  "block_state cur w \<longleftrightarrow>
     length (jw_block w) = cfg_bs w \<and> starts_ok w \<and> jw_frameCount w = of_nat (length cur) \<and>
     (cur \<noteq> [] \<longrightarrow>
        take (jw_dataOffset w) (jw_block w) = block_header (us (hd cur)) (rx_Seq (hd cur)) @ frames_bytes (us (hd cur)) cur \<and>
        jw_dataOffset w = 16 + length (frames_bytes (us (hd cur)) cur) \<and>
        jw_baseTimeUs w = us (hd cur) \<and> jw_lastTimeUs w = us (last cur) \<and> jw_baseSeq w = rx_Seq (hd cur) \<and>
        list_all frame_ok cur \<and> room w)"

lemma entry_size_start: "entry_size (start_entry d) = jdevice_size d"
  by (simp add: entry_size_def start_entry_def jdevice_size_def)

lemma registry_get_ok: "registry_strings_ok r \<Longrightarrow> DeviceRegistry_Get r bus src = Some d \<Longrightarrow> device_ok d"
  by (auto simp: registry_strings_ok_def DeviceRegistry_Get_def list_all_iff dest!: gm_get_in)

lemma change_entry_ok:
  assumes "registry_strings_ok r"
  shows "entry_ok (change_entry r c)" "entry_size (change_entry r c) \<le> DeviceEntryMaxSize"
  using registry_get_ok [OF assms, of "dc_Bus c" "dc_Source c"]
  by (auto simp: change_entry_def entry_ok_def entry_strings_def entry_size_def device_ok_def format_consts Let_def split: option.splits)

lemma block_entries_ok:
  assumes "starts_ok w" "registry_strings_ok r"
  shows "\<forall>e \<in> set (block_entries r w). entry_ok e" "length (table_bytes (block_entries r w)) \<le> deviceTableSize w"
proof -
  show "\<forall>e \<in> set (block_entries r w). entry_ok e"
    using assms by (auto simp: block_entries_def starts_ok_def list_all_iff change_entry_ok)
  have "sum_list (map (entry_size \<circ> change_entry r) cs) \<le> length cs * DeviceEntryMaxSize" for cs
    using change_entry_ok(2) [OF assms(2)] by (induction cs) (auto simp: add_mono)
  then show "length (table_bytes (block_entries r w)) \<le> deviceTableSize w"
    using assms(1)
    by (simp add: length_table_bytes block_entries_def deviceTableSize_def starts_ok_def comp_def entry_size_start)
qed

lemma length_frames_bytes: "length fs \<le> length (frames_bytes t fs)"
proof (induction fs arbitrary: t)
  case (Cons f fs)
  have "0 < length (frame_bytes d f)" for d
    by (simp add: frame_bytes_def)
  then have "1 \<le> length (frame_bytes (word_of_int (us f - t)) f)"
    by (metis Suc_leI One_nat_def)
  then show ?case
    using Cons.IH [of "us f"] by simp
qed simp

lemma current_count:
  assumes "block_state cur w" "cur \<noteq> []" "cfg_bs w < 2 ^ 32"
  shows "length cur < 2 ^ 32" "unat (of_nat (length cur) :: u32) = length cur"
proof -
  have "16 + length cur \<le> cfg_bs w"
    using assms(1,2) length_frames_bytes [of cur "us (hd cur)"] by (simp add: block_state_def room_def)
  then show "length cur < 2 ^ 32"
    using assms(3) by linarith
  then show "unat (of_nat (length cur) :: u32) = length cur"
    by (simp add: unat_of_nat take_bit_eq_mod)
qed

lemma finish_current:
  assumes "block_state cur w" "cur \<noteq> []" "registry_strings_ok devices" "cfg_bs w < 2 ^ 32"
  shows "\<exists>b. finish_block (block_entries devices w) (jw_frameCount w) (jw_block w) = Some b \<and>
    desc_ok (cur, block_entries devices w, b) \<and> length b = cfg_bs w"
proof -
  let ?es = "block_entries devices w"
  have bs: "length (jw_block w) = cfg_bs w" "starts_ok w" "room w" "jw_frameCount w = of_nat (length cur)" "list_all frame_ok cur"
    and off: "jw_dataOffset w = 16 + length (frames_bytes (us (hd cur)) cur)"
    and tk: "take (jw_dataOffset w) (jw_block w) = block_header (us (hd cur)) (rx_Seq (hd cur)) @ frames_bytes (us (hd cur)) cur"
    using assms(1,2) by (auto simp: block_state_def)
  have T: "\<forall>e \<in> set ?es. entry_ok e" "length (table_bytes ?es) \<le> deviceTableSize w"
    using block_entries_ok [OF bs(2) assms(3)] by auto
  have "length cur < 2 ^ 32"
    using current_count(1) [OF assms(1,2,4)] .
  then have "\<exists>b. finish_block ?es (of_nat (length cur)) (jw_block w) = Some b \<and> good_block cur ?es b \<and> length b = length (jw_block w)"
    using tk T bs(1,3) assms(2) by (intro finish_block_good) (auto simp: room_def format_consts block_header_def)
  then show ?thesis
    using bs by (auto simp: desc_ok_def list_all_iff)
qed

section \<open>Writing a block\<close>

lemma jw_write_file:
  "jw_file w = Some path \<Longrightarrow>
     jw_write bs w = Inr (w\<lparr>jw_disk := disk_append path bs (jw_disk w), jw_fileBytes := jw_fileBytes w + int (length bs)\<rparr>)"
  by (simp add: jw_write_def)

lemma disk_append_get: "gm_get d path = Some c \<Longrightarrow> gm_get (disk_append path bs d) path = Some (c @ bs)"
  by (simp add: disk_append_def)

lemma list_all2_snoc: "list_all2 P xs ys \<Longrightarrow> P x y \<Longrightarrow> list_all2 P (xs @ [x]) (ys @ [y])"
  by (simp add: list_all2_appendI)

text \<open>What writing a block keeps of the writer.\<close>

definition same_block :: "JournalWriter \<Rightarrow> JournalWriter \<Rightarrow> bool" where
  "same_block w w' \<longleftrightarrow>
     jw_cfg w' = jw_cfg w \<and> jw_paused w' = jw_paused w \<and> jw_block w' = jw_block w \<and>
     jw_blockStartDevices w' = jw_blockStartDevices w \<and> jw_blockStartDeviceTableSize w' = jw_blockStartDeviceTableSize w"

lemma write_block_file:
  assumes f: "file_state z path bl chs w" and d: "desc_ok d" "length (blk_bytes d) = cfg_bs w" "jw_block w = blk_bytes d"
    and base: "jw_baseTimeUs w = us (hd (blk_frames d))" "jw_baseSeq w = rx_Seq (hd (blk_frames d))"
    and codec: "codec_ok z (cfg_bs w)"
  shows "\<exists>w' ch. write_block z w = Inr w' \<and> file_state z path (bl @ [d]) (chs @ [ch]) w' \<and> same_block w w' \<and> jw_frameCount w' = 0"
proof (cases "cfg_ct w")
  case CompressionNone
  then have "chunk_of z (cfg_ct w) d (blk_bytes d)"
    by (simp add: chunk_of_def)
  then show ?thesis
    using f d CompressionNone
    by (auto simp: file_state_def write_block_def jw_write_file disk_append_get end_block_def same_block_def list_all2_snoc
        intro!: exI [of _ "blk_bytes d"])
next
  case CompressionZstd
  let ?buf = "z_encode z (blk_bytes d)"
  let ?ch = "blk_head d @ LE_PutUint32 (of_nat (length ?buf)) @ ?buf"
  have "chunk_of z (cfg_ct w) d ?ch"
    using CompressionZstd by (simp add: chunk_of_def)
  then show ?thesis
    using f d base CompressionZstd
    by (auto simp: file_state_def write_block_def jw_writeCompressedBlock_def Let_def jw_write_file disk_append_get end_block_def same_block_def
        list_all2_snoc chunk_offsets_append intro!: exI [of _ ?ch])
next
  case CompressionZstdDict
  let ?w0 = "w\<lparr>jw_blockOffsets := jw_blockOffsets w @ [jw_fileBytes w]\<rparr>"
  obtain dict buf where db: "dict_compress z ?w0 = (dict, buf)"
    by fastforce
  have pay: "dict_payload z d dict buf"
    using db codec d(3)
    by (auto simp: dict_compress_def dict_payload_def codec_ok_def buildBlockDict_def Let_def split: option.splits if_splits)
  let ?ch = "blk_head d @ LE_PutUint32 (of_nat (length dict)) @ LE_PutUint32 (of_nat (length buf)) @ dict @ buf"
  have "chunk_of z (cfg_ct w) d ?ch"
    using CompressionZstdDict pay by (auto simp: chunk_of_def)
  then show ?thesis
    using f d base CompressionZstdDict db
    by (auto simp: file_state_def write_block_def jw_writeDictCompressedBlock_def Let_def jw_write_file disk_append_get end_block_def same_block_def
        list_all2_snoc chunk_offsets_append intro!: exI [of _ ?ch])
qed

lemma flush_file:
  assumes "file_state z path bl chs w" "block_state cur w" "cur \<noteq> []" "registry_strings_ok devices" "codec_ok z (cfg_bs w)" "cfg_bs w < 2 ^ 32"
  shows "\<exists>w' d ch. flushBlock z devices w = Inr w' \<and> file_state z path (bl @ [d]) (chs @ [ch]) w' \<and> blk_frames d = cur \<and>
    block_state [] w' \<and> jw_cfg w' = jw_cfg w \<and> jw_paused w' = jw_paused w"
proof -
  have cur: "jw_frameCount w = of_nat (length cur)" "jw_baseTimeUs w = us (hd cur)" "jw_baseSeq w = rx_Seq (hd cur)" "starts_ok w"
    using assms(2,3) by (simp_all add: block_state_def)
  obtain b where b: "finish_block (block_entries devices w) (jw_frameCount w) (jw_block w) = Some b"
    "desc_ok (cur, block_entries devices w, b)" "length b = cfg_bs w"
    using finish_current [OF assms(2-4,6)] by blast
  let ?w = "w\<lparr>jw_block := b\<rparr>" and ?d = "(cur, block_entries devices w, b)"
  have fs: "file_state z path bl chs ?w"
    using assms(1) by (simp add: file_state_def)
  have "\<exists>w' ch. write_block z ?w = Inr w' \<and> file_state z path (bl @ [?d]) (chs @ [ch]) w' \<and> same_block ?w w' \<and> jw_frameCount w' = 0"
    by (rule write_block_file [OF fs b(2)]) (use b(3) cur(2,3) assms(5) in simp_all)
  then obtain w' ch where w': "write_block z ?w = Inr w'" "file_state z path (bl @ [?d]) (chs @ [ch]) w'" "same_block ?w w'" "jw_frameCount w' = 0"
    by blast
  have fc: "jw_frameCount w \<noteq> 0"
    using current_count(2) [OF assms(2,3,6)] assms(3) cur(1) by auto
  let ?w' = "w'\<lparr>jw_blocksWritten := jw_blocksWritten w' + 1, jw_bytesWritten := jw_bytesWritten w' + word_of_int (jw_fileBytes w' - jw_fileBytes w)\<rparr>"
  have "flushBlock z devices w = Inr ?w'"
    using fc b(1) w'(1) by (simp add: flushBlock_def)
  moreover have "file_state z path (bl @ [?d]) (chs @ [ch]) ?w'"
    using w'(2) by (simp add: file_state_def)
  moreover have "block_state [] ?w'" "jw_cfg ?w' = jw_cfg w" "jw_paused ?w' = jw_paused w"
    using w'(3,4) b(3) cur(4) by (simp_all add: block_state_def same_block_def starts_ok_def)
  ultimately show ?thesis
    by (metis fst_conv)
qed

section \<open>Storing a frame\<close>

lemma encode_frame_offset: "encode_frame delta f (block, off) = Some (b', off') \<Longrightarrow> off' = off + frame_size delta (length (rx_Data f))"
  by (auto simp: encode_frame_def frame_size_def Let_def Option.bind_eq_Some_conv split: if_splits)

lemma store_in_block_appends:
  assumes s: "store_in_block delta ts f w = Inr w'" and r: "room w'" "length (jw_block w) = cfg_bs w"
    and t: "take (jw_dataOffset w) (jw_block w) = p" "jw_dataOffset w = length p"
  shows "take (jw_dataOffset w') (jw_block w') = p @ frame_bytes delta f" "jw_dataOffset w' = length p + length (frame_bytes delta f)"
    "length (jw_block w') = cfg_bs w'" "jw_lastTimeUs w' = ts" "jw_frameCount w' = jw_frameCount w + 1"
proof -
  obtain b off where e: "encode_frame delta f (jw_block w, jw_dataOffset w) = Some (b, off)"
    and w': "w' = w\<lparr>jw_block := b, jw_blockDeviceChanges := jw_blockDeviceChanges w @ device_change (jw_frameCount w) f,
                 jw_dataOffset := off, jw_lastTimeUs := ts, jw_frameCount := jw_frameCount w + 1, jw_fileFrames := jw_fileFrames w + 1\<rparr>"
    using s by (auto simp: store_in_block_def split: option.splits)
  have off: "off = jw_dataOffset w + frame_size delta (length (rx_Data f))"
    by (rule encode_frame_offset [OF e])
  have "off \<le> length (jw_block w)"
    using r by (simp add: room_def w')
  then have b: "b = splice_at (jw_dataOffset w) (frame_bytes delta f) (jw_block w)"
    using e encode_frame_fits [of "jw_dataOffset w" delta f "jw_block w"] off by simp
  show "jw_dataOffset w' = length p + length (frame_bytes delta f)"
    using off t(2) by (simp add: w' length_frame_bytes)
  show "take (jw_dataOffset w') (jw_block w') = p @ frame_bytes delta f"
    using t off by (simp add: w' b splice_at_def length_frame_bytes)
  show "length (jw_block w') = cfg_bs w'" "jw_lastTimeUs w' = ts" "jw_frameCount w' = jw_frameCount w + 1"
    using r(2) \<open>off \<le> length (jw_block w)\<close> off by (simp_all add: w' b length_frame_bytes)
qed

lemma store_in_block_keeps:
  assumes "store_in_block delta ts f w = Inr w'"
  shows "jw_cfg w' = jw_cfg w" "jw_paused w' = jw_paused w" "jw_baseTimeUs w' = jw_baseTimeUs w" "jw_baseSeq w' = jw_baseSeq w"
    "starts_ok w' = starts_ok w" "file_state z path bl chs w' = file_state z path bl chs w"
  using assms by (auto simp: store_in_block_def starts_ok_def file_state_def split: option.splits)

lemma initBlock_keeps [simp]:
  "jw_cfg (initBlock devices t q w) = jw_cfg w" "jw_paused (initBlock devices t q w) = jw_paused w"
  "jw_frameCount (initBlock devices t q w) = 0" "jw_baseTimeUs (initBlock devices t q w) = t" "jw_baseSeq (initBlock devices t q w) = q"
  "file_state z path bl chs (initBlock devices t q w) = file_state z path bl chs w" "jw_dataOffset (initBlock devices t q w) = 16"
  by (simp_all add: initBlock_def Let_def file_state_def)

lemma initBlock_block:
  assumes "length (jw_block w) = cfg_bs w" "16 \<le> cfg_bs w" "registry_strings_ok devices"
  shows "length (jw_block (initBlock devices t q w)) = cfg_bs w" "take 16 (jw_block (initBlock devices t q w)) = block_header t q"
    "starts_ok (initBlock devices t q w)"
proof -
  show "length (jw_block (initBlock devices t q w)) = cfg_bs w" "take 16 (jw_block (initBlock devices t q w)) = block_header t q"
    using assms(1,2) by (simp_all add: initBlock_def Let_def block_header_def splice_at_def)
  have "entry_ok (start_entry (jdevice_of d))" if "(k, d) \<in> set devices" for k d
    using assms(3) that
    by (force simp: registry_strings_ok_def list_all_iff device_ok_def entry_ok_def entry_strings_def start_entry_def jdevice_of_def)
  then show "starts_ok (initBlock devices t q w)"
    by (force simp: starts_ok_def initBlock_def Let_def DeviceRegistry_Snapshot_def list_all_iff)
qed

lemma store_first:
  assumes "store_in_block 0 (us f) f (initBlock devices (us f) (rx_Seq f) w) = Inr w'" "room w'"
    and "length (jw_block w) = cfg_bs w" "16 \<le> cfg_bs w" "registry_strings_ok devices" "frame_ok f"
  shows "block_state [f] w'"
proof -
  let ?i = "initBlock devices (us f) (rx_Seq f) w"
  note ib = initBlock_block [OF assms(3-5), of "us f" "rx_Seq f"]
  have "take (jw_dataOffset ?i) (jw_block ?i) = block_header (us f) (rx_Seq f)" "jw_dataOffset ?i = length (block_header (us f) (rx_Seq f))"
    "length (jw_block ?i) = cfg_bs ?i"
    using ib by simp_all
  then show ?thesis
    using store_in_block_appends [OF assms(1,2)] store_in_block_keeps [OF assms(1)] ib(3) assms(2,6)
    by (simp add: block_state_def)
qed

lemma store_next:
  assumes "store_in_block (word_of_int (us f - us (last cur))) (us f) f w = Inr w'" "room w'" "block_state cur w" "cur \<noteq> []" "frame_ok f"
  shows "block_state (cur @ [f]) w'"
proof -
  let ?p = "block_header (us (hd cur)) (rx_Seq (hd cur)) @ frames_bytes (us (hd cur)) cur"
  have b: "take (jw_dataOffset w) (jw_block w) = ?p" "jw_dataOffset w = length ?p" "length (jw_block w) = cfg_bs w"
    using assms(3,4) unfolding block_state_def length_append length_block_header by blast+
  show ?thesis
    using store_in_block_appends [OF assms(1,2) b(3,1,2)] store_in_block_keeps [OF assms(1)] assms(2-5)
    by (simp add: block_state_def frames_bytes_append)
qed

section \<open>A whole run\<close>

definition no_rotation :: "JournalConfig \<Rightarrow> bool" where
  "no_rotation cfg \<longleftrightarrow> jcf_RotateDuration cfg \<le> 0 \<and> jcf_RotateSize cfg \<le> 0 \<and> jcf_RotateCount cfg \<le> 0"

lemma jw_checkRotation_none: "no_rotation (jw_cfg w) \<Longrightarrow> jw_checkRotation now w = Inr w"
  by (simp add: jw_checkRotation_def no_rotation_def)

definition writer_inv :: "zstd \<Rightarrow> JournalConfig \<Rightarrow> string \<Rightarrow> block_desc list \<Rightarrow> bytes list \<Rightarrow> RxFrame list \<Rightarrow> JournalWriter \<Rightarrow> bool" where
  "writer_inv z cfg path bl chs cur w \<longleftrightarrow>
     file_state z path bl chs w \<and> block_state cur w \<and> jw_cfg w = cfg \<and> \<not> jw_paused w"

definition settings_ok :: "zstd \<Rightarrow> JournalConfig \<Rightarrow> bool" where
  "settings_ok z cfg \<longleftrightarrow>
     no_rotation cfg \<and> codec_ok z (nat (jcf_BlockSize cfg)) \<and> JournalConfig_validate cfg = None \<and> jcf_BlockSize cfg \<le> 2 ^ 30"

lemma settings_bs: "settings_ok z cfg \<Longrightarrow> 4096 \<le> nat (jcf_BlockSize cfg) \<and> nat (jcf_BlockSize cfg) < 2 ^ 32"
  by (auto simp: settings_ok_def JournalConfig_validate_def split: if_splits)

lemma append_full:
  assumes inv: "writer_inv z cfg path bl chs cur w" and ok: "settings_ok z cfg" "registry_strings_ok devices"
  shows "\<exists>w1 bl' chs'. next_block z devices now t q w = Inr (initBlock devices t q w1) \<and> writer_inv z cfg path bl' chs' [] w1 \<and>
    concat (map blk_frames bl') = concat (map blk_frames bl) @ cur"
proof (cases "cur = []")
  case True
  then have "jw_frameCount w = 0"
    using inv by (simp add: writer_inv_def block_state_def)
  then have "next_block z devices now t q w = Inr (initBlock devices t q w)"
    using inv ok(1) by (simp add: next_block_def flushBlock_def writer_inv_def settings_ok_def jw_checkRotation_none)
  then show ?thesis
    using inv True by auto
next
  case False
  have i: "file_state z path bl chs w" "block_state cur w" "jw_cfg w = cfg" "\<not> jw_paused w" "codec_ok z (cfg_bs w)" "cfg_bs w < 2 ^ 32" "no_rotation cfg"
    using inv ok(1) settings_bs [OF ok(1)] by (auto simp: writer_inv_def settings_ok_def)
  obtain w1 d ch where w1: "flushBlock z devices w = Inr w1" "file_state z path (bl @ [d]) (chs @ [ch]) w1" "blk_frames d = cur"
    "block_state [] w1" "jw_cfg w1 = jw_cfg w" "jw_paused w1 = jw_paused w"
    using flush_file [OF i(1,2) False ok(2) i(5,6)] by blast
  have "next_block z devices now t q w = Inr (initBlock devices t q w1)"
    using w1 i by (simp add: next_block_def jw_checkRotation_none)
  moreover have "writer_inv z cfg path (bl @ [d]) (chs @ [ch]) [] w1"
    using w1 i by (simp add: writer_inv_def)
  ultimately show ?thesis
    using w1(3) by (intro exI [of _ w1] exI [of _ "bl @ [d]"] exI [of _ "chs @ [ch]"]) simp
qed

lemma append_step:
  assumes inv: "writer_inv z cfg path bl chs cur w" and ok: "settings_ok z cfg" "registry_strings_ok devices" "frame_ok f"
    and mono: "cur \<noteq> [] \<Longrightarrow> us (last cur) \<le> us f" and a: "appendFrame z devices now f w = Inr w'" "room w'"
  shows "\<exists>bl' chs' cur'. writer_inv z cfg path bl' chs' (cur' @ [f]) w' \<and> concat (map blk_frames bl') @ cur' = concat (map blk_frames bl) @ cur"
proof -
  have w: "jw_file w = Some path" "length (jw_block w) = cfg_bs w" "16 \<le> cfg_bs w"
    using inv settings_bs [OF ok(1)] by (auto simp: writer_inv_def file_state_def block_state_def)
  define full where "full \<longleftrightarrow> jcf_BlockSize (jw_cfg w) - int (jw_dataOffset w) - int (deviceTableSize w) - int BlockTrailerLen
      < int (frame_size (frame_delta w (us f)) (length (rx_Data f)))"
  have first: "writer_inv z cfg path bl' chs' [f] w'"
    if "writer_inv z cfg path bl' chs' [] v" "store_in_block 0 (us f) f (initBlock devices (us f) (rx_Seq f) v) = Inr w'" for bl' chs' v
  proof -
    have "length (jw_block v) = cfg_bs v" "cfg_bs v = cfg_bs w"
      using that(1) inv by (auto simp: writer_inv_def block_state_def)
    then have "block_state [f] w'"
      using store_first [OF that(2) a(2)] w(3) ok(2,3) by simp
    then show ?thesis
      using store_in_block_keeps [OF that(2)] that(1) by (simp add: writer_inv_def)
  qed
  consider (full) "full" | (empty) "\<not> full" "cur = []" | (more) "\<not> full" "cur \<noteq> []"
    by blast
  then show ?thesis
  proof cases
    case full
    obtain v bl' chs' where v: "next_block z devices now (us f) (rx_Seq f) w = Inr (initBlock devices (us f) (rx_Seq f) v)"
      "writer_inv z cfg path bl' chs' [] v" "concat (map blk_frames bl') = concat (map blk_frames bl) @ cur"
      using append_full [OF inv ok(1,2)] by blast
    have twice: "initBlock devices t q (initBlock devices t q v) = initBlock devices t q v" for t q
      by (simp add: initBlock_def Let_def splice_at_def)
    have "store_in_block 0 (us f) f (initBlock devices (us f) (rx_Seq f) v) = Inr w'"
      using a(1) full v(1) w(1) twice unfolding full_def by (simp add: appendFrame_def Let_def)
    then show ?thesis
      using first [OF v(2)] v(3) by (intro exI [of _ bl'] exI [of _ chs'] exI [of _ "[]"]) simp
  next
    case empty
    then have "jw_frameCount w = 0" "frame_delta w (us f) = 0"
      using inv by (simp_all add: writer_inv_def block_state_def frame_delta_def)
    then have "store_in_block 0 (us f) f (initBlock devices (us f) (rx_Seq f) w) = Inr w'"
      using a(1) empty(1) w(1) unfolding full_def by (simp add: appendFrame_def Let_def)
    then show ?thesis
      using first [of bl chs w] inv empty(2) by (intro exI [of _ bl] exI [of _ chs] exI [of _ "[]"]) simp
  next
    case more
    have b: "block_state cur w" "cfg_bs w < 2 ^ 32"
      using inv settings_bs [OF ok(1)] by (auto simp: writer_inv_def)
    have fc: "jw_frameCount w \<noteq> 0"
      using current_count(2) [OF b(1) more(2) b(2)] b(1) more(2) by (auto simp: block_state_def)
    then have "frame_delta w (us f) = word_of_int (us f - us (last cur))"
      using b(1) more(2) mono by (simp add: frame_delta_def block_state_def word_gt_0)
    then have st: "store_in_block (word_of_int (us f - us (last cur))) (us f) f w = Inr w'"
      using a(1) more(1) w(1) fc unfolding full_def by (simp add: appendFrame_def Let_def)
    have "block_state (cur @ [f]) w'"
      by (rule store_next [OF st a(2) b(1) more(2) ok(3)])
    then show ?thesis
      using store_in_block_keeps [OF st] inv by (intro exI [of _ bl] exI [of _ chs] exI [of _ cur]) (simp add: writer_inv_def)
  qed
qed

abbreviation frm :: "DeviceRegistry \<times> gotime \<times> RxFrame \<Rightarrow> RxFrame" where
  "frm x \<equiv> snd (snd x)"

fun run_frames :: "zstd \<Rightarrow> (DeviceRegistry \<times> gotime \<times> RxFrame) list \<Rightarrow> JournalWriter \<Rightarrow> writer_error + JournalWriter" where
  "run_frames z [] w = Inr w"
| "run_frames z (x # xs) w = (case run_frame z x w of Inl e \<Rightarrow> Inl e | Inr w' \<Rightarrow> run_frames z xs w')"

lemma writer_Run_frames:
  "writer_Run z xs devices w = (case run_frames z xs w of Inl e \<Rightarrow> Inl e | Inr w' \<Rightarrow> jw_finalize z devices w')"
  by (induction xs arbitrary: w) (auto split: sum.split)

text \<open>After every frame, the current block still has room for its device table and trailer.\<close>

fun keeps_room :: "zstd \<Rightarrow> (DeviceRegistry \<times> gotime \<times> RxFrame) list \<Rightarrow> JournalWriter \<Rightarrow> bool" where
  "keeps_room z [] w \<longleftrightarrow> True"
| "keeps_room z (x # xs) w \<longleftrightarrow> (case run_frame z x w of Inl _ \<Rightarrow> False | Inr w' \<Rightarrow> room w' \<and> keeps_room z xs w')"

definition input_ok :: "DeviceRegistry \<times> gotime \<times> RxFrame \<Rightarrow> bool" where
  "input_ok x \<longleftrightarrow> registry_strings_ok (fst x) \<and> frame_ok (frm x)"

lemma run_inv:
  assumes "writer_inv z cfg path bl chs cur w" "settings_ok z cfg" "list_all input_ok xs"
    and "concat (map blk_frames bl) @ cur = seen" "successively (\<lambda>f g. us f \<le> us g) (seen @ map frm xs)" "keeps_room z xs w"
  shows "\<exists>w' bl' chs' cur'. run_frames z xs w = Inr w' \<and> writer_inv z cfg path bl' chs' cur' w' \<and>
    concat (map blk_frames bl') @ cur' = seen @ map frm xs \<and> (xs \<noteq> [] \<longrightarrow> cur' \<noteq> [])"
  using assms
proof (induction xs arbitrary: w bl chs cur seen)
  case (Cons x xs)
  obtain dv now f where x: "x = (dv, now, f)"
    by (cases x)
  obtain w1 where w1: "run_frame z x w = Inr w1" "room w1" "keeps_room z xs w1"
    using Cons.prems(6) by (auto split: sum.splits)
  have app: "appendFrame z dv now f w = Inr w1"
    using w1(1) Cons.prems(1) by (simp add: run_frame_def x writer_inv_def)
  have mono: "us (last cur) \<le> us f" if "cur \<noteq> []"
    using Cons.prems(4,5) that by (auto simp: x successively_append_iff)
  have "registry_strings_ok dv" "frame_ok f"
    using Cons.prems(3) by (auto simp: x input_ok_def)
  then obtain bl1 chs1 cur1 where i1: "writer_inv z cfg path bl1 chs1 (cur1 @ [f]) w1"
    "concat (map blk_frames bl1) @ cur1 = concat (map blk_frames bl) @ cur"
    using append_step [OF Cons.prems(1,2) _ _ mono app w1(2)] by blast
  have seen: "concat (map blk_frames bl1) @ (cur1 @ [f]) = seen @ [f]"
    using i1(2) Cons.prems(4) by (simp flip: append.assoc)
  have "\<exists>w' bl' chs' cur'. run_frames z xs w1 = Inr w' \<and> writer_inv z cfg path bl' chs' cur' w' \<and>
      concat (map blk_frames bl') @ cur' = (seen @ [f]) @ map frm xs \<and> (xs \<noteq> [] \<longrightarrow> cur' \<noteq> [])"
    by (rule Cons.IH [OF i1(1) Cons.prems(2) _ seen _ w1(3)]) (use Cons.prems(3,5) in \<open>simp_all add: x\<close>)
  then obtain w' bl' chs' cur' where r: "run_frames z xs w1 = Inr w'" "writer_inv z cfg path bl' chs' cur' w'"
    "concat (map blk_frames bl') @ cur' = (seen @ [f]) @ map frm xs" "xs \<noteq> [] \<longrightarrow> cur' \<noteq> []"
    by blast
  show ?case
  proof (cases "xs = []")
    case True
    then show ?thesis
      using w1(1) i1(1) seen
      by (intro exI [of _ w1] exI [of _ bl1] exI [of _ chs1] exI [of _ "cur1 @ [f]"]) (simp add: x)
  next
    case False
    then show ?thesis
      using w1(1) r by (intro exI [of _ w'] exI [of _ bl'] exI [of _ chs'] exI [of _ cur']) (simp add: x)
  qed
qed auto

definition file_content :: "JournalConfig \<Rightarrow> bytes list \<Rightarrow> bytes" where
  "file_content cfg chs =
     file_header (jcf_BlockSize cfg) (jcf_Compression cfg) @ concat chs
     @ (if jcf_Compression cfg = CompressionNone then [] else block_index (chunk_offsets 16 chs))"

lemma finalize_file:
  assumes "writer_inv z cfg path bl chs cur w" "settings_ok z cfg" "registry_strings_ok devices" "cur \<noteq> []"
  shows "\<exists>w' bl' chs'. jw_finalize z devices w = Inr w' \<and> gm_get (jw_disk w') path = Some (file_content cfg chs') \<and>
    jw_blockOffsets w' = (if jcf_Compression cfg = CompressionNone then [] else chunk_offsets 16 chs') \<and>
    list_all2 (chunk_of z (jcf_Compression cfg)) bl' chs' \<and>
    list_all (\<lambda>d. desc_ok d \<and> length (blk_bytes d) = nat (jcf_BlockSize cfg)) bl' \<and>
    concat (map blk_frames bl') = concat (map blk_frames bl) @ cur \<and> jw_file w' = None"
proof -
  have i: "file_state z path bl chs w" "block_state cur w" "jw_cfg w = cfg" "codec_ok z (cfg_bs w)" "cfg_bs w < 2 ^ 32"
    using assms(1,2) settings_bs [OF assms(2)] by (auto simp: writer_inv_def settings_ok_def)
  obtain w1 d ch where w1: "flushBlock z devices w = Inr w1" "file_state z path (bl @ [d]) (chs @ [ch]) w1" "blk_frames d = cur" "jw_cfg w1 = cfg"
    using flush_file [OF i(1,2) assms(4,3) i(4,5)] i(3) by auto
  have fc: "jw_frameCount w > 0"
    using current_count(2) [OF i(2) assms(4) i(5)] i(2) assms(4) by (auto simp: block_state_def word_gt_0)
  have f: "jw_file w1 = Some path" "gm_get (jw_disk w1) path = Some (file_header (jcf_BlockSize cfg) (jcf_Compression cfg) @ concat (chs @ [ch]))"
    "jw_blockOffsets w1 = (if jcf_Compression cfg = CompressionNone then [] else chunk_offsets 16 (chs @ [ch]))"
    "list_all2 (chunk_of z (jcf_Compression cfg)) (bl @ [d]) (chs @ [ch])"
    "list_all (\<lambda>d. desc_ok d \<and> length (blk_bytes d) = nat (jcf_BlockSize cfg)) (bl @ [d])"
    using w1(2,4) unfolding file_state_def by simp_all
  obtain w2 where w2: "close_file w1 = Inr w2" "gm_get (jw_disk w2) path = Some (file_content cfg (chs @ [ch]))" "jw_blockOffsets w2 = jw_blockOffsets w1" "jw_file w2 = None"
    using f(1-3) w1(4) chunk_offsets_append [of 16 chs ch]
    by (cases "jcf_Compression cfg = CompressionNone")
      (auto simp: close_file_def jw_writeBlockIndex_def file_content_def disk_append_get)
  have "jw_finalize z devices w = Inr w2"
    using fc w1(1) f(1) w2(1) by (simp add: jw_finalize_def)
  then show ?thesis
    using w2 f(3-5) w1(3) by (intro exI [of _ w2] exI [of _ "bl @ [d]"] exI [of _ "chs @ [ch]"]) simp
qed

end
