(* ===== verification/JournalRoundtrip.thy ===== *)
theory JournalRoundtrip
  imports JournalFiles
begin

text \<open>
  Opening a finished journal file finds its blocks, by arithmetic, by the block index or by the forward
  scan, and the theorem of the whole round trip: the frames given to a writer come out of a reader.
\<close>

section \<open>Locating the blocks\<close>

lemma concat_split: "i < length chs \<Longrightarrow> concat chs = concat (take i chs) @ chs ! i @ concat (drop (Suc i) chs)"
  by (metis concat.simps(2) concat_append id_take_nth_drop)

lemma nth_chunk_offsets: "i < length chs \<Longrightarrow> chunk_offsets p chs ! i = p + int (length (concat (take i chs)))"
proof (induction chs arbitrary: p i)
  case (Cons ch chs)
  then show ?case
    by (cases i) auto
qed simp

lemma read_chunk:
  assumes "i < length chs" "a + n \<le> length (chs ! i)" "pos = int (length h) + int (length (concat (take i chs))) + int a"
  shows "read_at (h @ concat chs @ t) pos n = Some (take n (drop a (chs ! i)))"
proof -
  have c: "h @ concat chs @ t = (h @ concat (take i chs)) @ chs ! i @ concat (drop (Suc i) chs) @ t"
    using concat_split [OF assms(1)] by simp
  have "nat pos = length (h @ concat (take i chs)) + a"
    using assms(3) by simp
  then show ?thesis
    using assms(2,3) unfolding c read_at_def by simp
qed

lemma chunk_length:
  assumes "chunk_of z ct d ch" "length (blk_bytes d) = bs" "0 < bs"
  shows "ct = CompressionNone \<Longrightarrow> length ch = bs" "ct = CompressionZstd \<Longrightarrow> 20 \<le> length ch" "ct = CompressionZstdDict \<Longrightarrow> 24 \<le> length ch" "ch \<noteq> []"
proof -
  show *: "ct = CompressionNone \<Longrightarrow> length ch = bs" "ct = CompressionZstd \<Longrightarrow> 20 \<le> length ch" "ct = CompressionZstdDict \<Longrightarrow> 24 \<le> length ch"
    using assms by (auto simp: chunk_of_def)
  show "ch \<noteq> []"
    using * assms(3) by (cases ct) auto
qed

lemma concat_fixed: "\<forall>c \<in> set chs. length c = n \<Longrightarrow> length (concat chs) = length chs * n"
  by (induction chs) auto

definition blocks_at :: "int list \<Rightarrow> blockInfo list \<Rightarrow> bool" where
  "blocks_at offs bs \<longleftrightarrow> map bi_Offset bs = offs"

lemma read_infos_blocks:
  "\<forall>off \<in> set offs. 0 \<le> off \<and> off + 16 \<le> int (length r) \<Longrightarrow> \<exists>bs. read_infos r Version2 offs = Inr bs \<and> blocks_at offs bs"
proof (induction offs)
  case (Cons off offs)
  then obtain bs where "read_infos r Version2 offs = Inr bs" "blocks_at offs bs"
    by auto
  then show ?case
    using Cons.prems by (auto simp: read_info_def read_at_def seq_field_len_def blocks_at_def)
qed (simp add: blocks_at_def)

lemma index_offsets_read:
  assumes "\<forall>c \<in> set chs. c \<noteq> []" "16 \<le> p" "ts = p + int (length (concat chs))" "ts < 2 ^ 63" "length pre = 8 * i"
    and "case prev of None \<Rightarrow> True | Some q \<Rightarrow> q < p"
  shows "index_offsets (pre @ concat (map (\<lambda>off. LE_PutUint64 (word_of_int off)) (chunk_offsets p chs))) ts i (length chs) prev = Inr (chunk_offsets p chs)"
  using assms
proof (induction chs arbitrary: p pre i prev)
  case (Cons ch chs)
  let ?rest = "concat (map (\<lambda>off. LE_PutUint64 (word_of_int off)) (chunk_offsets (p + int (length ch)) chs))"
  have "p < 2 ^ 63"
    using Cons.prems(3,4) by simp
  then have off: "i64_of (LE_Uint64 (drop (i * 8) (pre @ LE_PutUint64 (word_of_int p) @ ?rest))) = p"
    using Cons.prems(2,5) by (simp add: le_simps i64_of_word i64_wrap_id)
  have ch: "0 < length ch"
    using Cons.prems(1) by simp
  have "index_offsets ((pre @ LE_PutUint64 (word_of_int p)) @ ?rest) ts (Suc i) (length chs) (Some p) = Inr (chunk_offsets (p + int (length ch)) chs)"
    by (rule Cons.IH) (use Cons.prems ch in auto)
  moreover have "0 < int (length ch)"
    using ch by linarith
  then have "\<not> p \<ge> ts"
    unfolding Cons.prems(3) concat.simps length_append of_nat_add by linarith
  ultimately show ?case
    using Cons.prems(2,6) off by (auto simp: Let_def format_consts split: option.splits)
qed simp

text \<open>The files of finished runs: blocks and their chunks, within the limits of the format.\<close>

definition file_ok :: "zstd \<Rightarrow> JournalConfig \<Rightarrow> block_desc list \<Rightarrow> bytes list \<Rightarrow> bool" where
  "file_ok z cfg bl chs \<longleftrightarrow>
     settings_ok z cfg \<and> list_all2 (chunk_of z (jcf_Compression cfg)) bl chs \<and>
     list_all (\<lambda>d. desc_ok d \<and> length (blk_bytes d) = nat (jcf_BlockSize cfg)) bl \<and>
     (jcf_Compression cfg \<noteq> CompressionNone \<longrightarrow> length bl \<le> maxBlockIndexEntries)"

lemma file_okD:
  assumes "file_ok z cfg bl chs" "i < length bl"
  shows "chunk_of z (jcf_Compression cfg) (bl ! i) (chs ! i)" "length (blk_bytes (bl ! i)) = nat (jcf_BlockSize cfg)" "length chs = length bl"
  using assms by (auto simp: file_ok_def list_all2_conv_all_nth list_all_length)

lemma chunk_bound:
  assumes "chunk_of z ct d ch" "length (blk_bytes d) = bs" "codec_ok z bs" "bs \<le> 2 ^ 30"
  shows "length ch < 2 ^ 32"
proof (cases ct)
  case CompressionNone
  then show ?thesis
    using assms by (simp add: chunk_of_def)
next
  case CompressionZstd
  have "length (z_encode z (blk_bytes d)) \<le> 2 * bs"
    using assms(2,3) by (simp add: codec_ok_def)
  then show ?thesis
    using assms(1,4) CompressionZstd by (simp add: chunk_of_def)
next
  case CompressionZstdDict
  then obtain dict buf where c: "dict_payload z d dict buf" "length ch = 24 + length dict + length buf"
    using assms(1) by (auto simp: chunk_of_def)
  have "length buf \<le> 2 * bs"
    using c(1) assms(2,3) by (auto simp: dict_payload_def codec_ok_def split: if_splits)
  then show ?thesis
    using c assms(4) by (simp add: dict_payload_def)
qed

lemma length_concat_bound: "\<forall>c \<in> set chs. length c < n \<Longrightarrow> length (concat chs) \<le> length chs * n"
  by (induction chs) auto

lemma readBlockIndex_file:
  assumes f: "file_ok z cfg bl chs" "jcf_Compression cfg \<noteq> CompressionNone" "bl \<noteq> []"
  shows "\<exists>bs. readBlockIndex (file_content cfg chs) Version2 = Inr bs \<and> blocks_at (chunk_offsets 16 chs) bs \<and>
    read_infos (file_content cfg chs) Version2 (chunk_offsets 16 chs) = Inr bs"
proof -
  let ?h = "file_header (jcf_BlockSize cfg) (jcf_Compression cfg)" and ?offs = "chunk_offsets 16 chs" and ?n = "length chs"
  let ?tab = "concat (map (\<lambda>off. LE_PutUint64 (word_of_int off)) ?offs)" and ?tail = "LE_PutUint32 (of_nat ?n) @ BlockIndexMagic"
  let ?r = "file_content cfg chs"
  have r: "?r = (?h @ concat chs) @ ?tab @ ?tail"
    using f(2) by (simp add: file_content_def block_index_def)
  have n: "0 < ?n" "?n \<le> 2 ^ 18" "length chs = length bl"
    using f by (auto simp: file_ok_def maxBlockIndexEntries_def dest: list_all2_lengthD)
  have bs: "4096 \<le> nat (jcf_BlockSize cfg)" "nat (jcf_BlockSize cfg) \<le> 2 ^ 30" "codec_ok z (nat (jcf_BlockSize cfg))"
    using f(1) settings_bs [of z cfg] by (auto simp: file_ok_def settings_ok_def nat_le_iff)
  have chs: "c \<noteq> [] \<and> 20 \<le> length c \<and> length c < 2 ^ 32" if c: "c \<in> set chs" for c
  proof -
    obtain i where i: "i < length bl" "c = chs ! i"
      using c n(3) by (auto simp: in_set_conv_nth)
    note d = file_okD [OF f(1) i(1)]
    have "0 < nat (jcf_BlockSize cfg)"
      using bs(1) by simp
    then show ?thesis
      using chunk_length [OF d(1,2)] chunk_bound [OF d(1,2) bs(3,2)] f(2) i(2) by (cases "jcf_Compression cfg") auto
  qed
  have ltab: "length ?tab = 8 * ?n" for ys
    by (simp add: length_concat comp_def sum_list_triv)
  have lens: "length ?r = 16 + length (concat chs) + 8 * ?n + 8"
    unfolding r length_append ltab by (simp add: BlockIndexMagic_def)
  have tail: "read_at ?r (int (length ?r) - 8) 8 = Some ?tail"
  proof -
    have "length ?tail = 8" "nat (int (length ?r) - 8) = length ((?h @ concat chs) @ ?tab)"
      using lens ltab by (simp_all add: BlockIndexMagic_def)
    then show ?thesis
      using lens by (simp add: read_at_def r BlockIndexMagic_def)
  qed
  have count: "unat (LE_Uint32 ?tail) = ?n"
    using n(2) by (simp add: le_simps unat_of_nat take_bit_eq_mod)
  have total: "16 + int (length (concat chs)) < 2 ^ 63"
  proof -
    have "length (concat chs) \<le> ?n * 2 ^ 32"
      using chs by (intro length_concat_bound) auto
    also have "\<dots> \<le> 2 ^ 18 * 2 ^ 32"
      using n(2) by (intro mult_le_mono1)
    finally show ?thesis by simp
  qed
  have ts: "int (length ?r) - 8 - int ?n * 8 = 16 + int (length (concat chs))"
    using lens by simp
  have tab: "read_at ?r (16 + int (length (concat chs))) (?n * 8) = Some ?tab"
    using lens ltab by (simp add: read_at_def r nat_add_distrib mult.commute)
  have offs: "index_offsets ?tab (16 + int (length (concat chs))) 0 ?n None = Inr ?offs"
    using index_offsets_read [of chs 16 _ "[]" 0 None] chs total by simp
  have "\<forall>off \<in> set ?offs. 0 \<le> off \<and> off + 16 \<le> int (length ?r)"
  proof
    fix off
    assume "off \<in> set ?offs"
    then obtain i where i: "i < ?n" "off = 16 + int (length (concat (take i chs)))"
      by (auto simp: in_set_conv_nth nth_chunk_offsets)
    have "length (concat (take i chs)) + length (chs ! i) \<le> length (concat chs)"
      using concat_split [OF i(1)] by (metis add_le_mono1 le_add1 length_append add.assoc)
    then show "0 \<le> off \<and> off + 16 \<le> int (length ?r)"
      using i lens by simp
  qed
  then obtain bs where "read_infos ?r Version2 ?offs = Inr bs" "blocks_at ?offs bs"
    using read_infos_blocks by blast
  moreover have ts': "int (length ?r) - 8 - int (length bl) * 8 = 16 + int (length (concat chs))"
    using ts n(3) by simp
  ultimately show ?thesis
    using lens tail count tab offs n
    by (simp add: readBlockIndex_def Let_def maxBlockIndexEntries_def BlockIndexMagic_def format_consts ts')
qed

section \<open>Opening and loading\<close>

lemma NewReader_header:
  assumes "settings_ok z cfg" "r = file_header (jcf_BlockSize cfg) (jcf_Compression cfg) @ t"
  shows "\<exists>jr. NewReader r = Inr jr \<and> jr_r jr = r \<and> jr_blockSize jr = nat (jcf_BlockSize cfg) \<and> jr_compression jr = jcf_Compression cfg \<and>
    jr_version jr = Version2 \<and> jr_pf jr = None \<and> before_block 0 jr \<and>
    jr_blocks jr = (if jcf_Compression cfg = CompressionNone then fixed_blocks r (nat (jcf_BlockSize cfg))
                    else case readBlockIndex r Version2 of Inr bs \<Rightarrow> bs | Inl _ \<Rightarrow> scanBlocks r (jcf_Compression cfg) Version2 FileHeaderSize)"
proof -
  let ?bs = "jcf_BlockSize cfg" and ?ct = "jcf_Compression cfg"
  define hdr where "hdr = file_header ?bs ?ct"
  have bs: "4096 \<le> ?bs" "?bs AND (?bs - 1) = 0" "?bs \<le> 2 ^ 30"
    using assms(1) by (auto simp: settings_ok_def JournalConfig_validate_def split: if_splits)
  have hdr4: "drop 4 hdr = LE_PutUint32 (word_of_int ?bs) @ LE_PutUint32 (ucast (compression_byte ?ct)) @ [0, 0, 0, 0]"
    "drop 8 hdr = LE_PutUint32 (ucast (compression_byte ?ct)) @ [0, 0, 0, 0]" "take 3 hdr = Magic" "hdr ! 3 = Version2"
    by (simp_all add: hdr_def file_header_def Magic_def)
  have size: "unat (LE_Uint32 (drop 4 hdr)) = nat ?bs"
    using bs(1,3) by (simp add: hdr4 le_simps nat_take_bit_eq unsigned_of_int take_bit_int_eq_self)
  have "int (nat ?bs AND (nat ?bs - 1)) = ?bs AND (?bs - 1)"
    using bs(1) by (simp add: of_nat_and_eq of_nat_diff)
  then have pow: "nat ?bs AND (nat ?bs - 1) = 0" "\<not> nat ?bs < 4096"
    using bs by simp_all
  have comp: "compression_of (ucast (LE_Uint32 (drop 8 hdr) AND 0xFF)) = Some ?ct"
    by (cases ?ct) (simp_all add: hdr4 le_simps compression_of_def)
  have "read_at r 0 16 = Some hdr"
    by (simp add: assms(2) read_at_def hdr_def)
  then show ?thesis
    using size pow comp hdr4(3,4) by (simp add: NewReader_def Let_def before_block_def)
qed

lemma fetch_fixed_file:
  assumes "file_ok z cfg bl chs" "jcf_Compression cfg = CompressionNone" "i < length bl"
    and "jr_r jr = file_content cfg chs" "jr_blockSize jr = nat (jcf_BlockSize cfg)"
    and "bi_Offset (jr_blocks jr ! i) = 16 + int (length (concat (take i chs)))"
  shows "fetch_fixed i jr = Inr (blk_bytes (bl ! i))"
proof -
  note d = file_okD [OF assms(1,3)]
  have ch: "chs ! i = blk_bytes (bl ! i)"
    using d(1) assms(2) by (simp add: chunk_of_def)
  have "read_at (file_header (jcf_BlockSize cfg) (jcf_Compression cfg) @ concat chs @ []) (16 + int (length (concat (take i chs)))) (nat (jcf_BlockSize cfg))
      = Some (take (nat (jcf_BlockSize cfg)) (drop 0 (chs ! i)))"
    by (rule read_chunk) (use d assms(3) ch in simp_all)
  then show ?thesis
    using assms(2,4-6) d(2) ch by (simp add: fetch_fixed_def file_content_def)
qed

text \<open>Where the payload of a block may end: at the next block or at the end of the file.\<close>

lemma payload_limit:
  assumes "length chs = length bl" "i < length bl" "jr_r jr = h @ concat chs @ t" "length h = 16"
    and "blocks_at (chunk_offsets 16 chs) (jr_blocks jr)" "hl \<le> length (chs ! i)" "length t < 2 ^ 30" "length (chs ! i) < 2 ^ 31 + 2 ^ 20"
  shows "\<exists>m. blockPayloadLimit i hl jr = Inr m \<and> int (length (chs ! i) - hl) \<le> m \<and> m < 2 ^ 32"
proof -
  have off: "bi_Offset (jr_blocks jr ! j) = 16 + int (length (concat (take j chs)))" if "j < length bl" for j
    using assms(1,5) that unfolding blocks_at_def by (metis length_chunk_offsets length_map nth_chunk_offsets nth_map)
  have len: "length (jr_blocks jr) = length bl"
    using assms(1,5) unfolding blocks_at_def by (metis length_chunk_offsets length_map)
  have split: "length (concat chs) = length (concat (take i chs)) + length (chs ! i) + length (concat (drop (Suc i) chs))"
    using concat_split [of i chs] assms(1,2) by (metis add.assoc length_append)
  show ?thesis
  proof (cases "i + 1 < length bl")
    case True
    have "concat (take (Suc i) chs) = concat (take i chs) @ chs ! i"
      using assms(1,2) by (simp add: take_Suc_conv_app_nth)
    then have "blockPayloadLimit i hl jr = Inr (int (length (chs ! i)) - int hl)"
      using off [OF assms(2)] off [of "Suc i"] True len assms(6) by (simp add: blockPayloadLimit_def Let_def)
    then show ?thesis
      using assms(6,8) by (simp add: of_nat_diff)
  next
    case False
    then have "drop (Suc i) chs = []"
      using assms(1,2) by simp
    then have "blockPayloadLimit i hl jr = Inr (int (length (chs ! i)) + int (length t) - int hl)"
      using off [OF assms(2)] False len assms(3,4,6) split by (simp add: blockPayloadLimit_def Let_def)
    then show ?thesis
      using assms(6,7,8) by (simp add: of_nat_diff)
  qed
qed

text \<open>The bytes of a compressed block, in the order the reader takes them.\<close>

lemma u32_length: "n < 2 ^ 32 \<Longrightarrow> unat (of_nat n :: u32) = n" "n < 2 ^ 32 \<Longrightarrow> uint (of_nat n :: u32) = int n"
  by (simp_all add: unat_of_nat take_bit_eq_mod uint_nat)

lemma fetch_zstd_file:
  assumes c: "chs ! i = h16 @ LE_PutUint32 (of_nat (length buf)) @ buf" "length h16 = 16" "buf \<noteq> []" "length buf < 2 ^ 31 + 1"
    and dec: "z_decode z buf = Some b" "length b = jr_blockSize jr"
    and f: "length chs = length bl" "i < length bl" "jr_r jr = h @ concat chs @ t" "length h = 16" "length t < 2 ^ 30"
    and jr: "blocks_at (chunk_offsets 16 chs) (jr_blocks jr)" "jr_version jr = Version2"
  shows "fetch_zstd z i jr = Inr b"
proof -
  let ?off = "16 + int (length (concat (take i chs)))"
  have len: "length (chs ! i) = 20 + length buf"
    using c(1,2) by simp
  obtain m where m: "blockPayloadLimit i 20 jr = Inr m" "int (length buf) \<le> m"
    using payload_limit [OF f(1-4) jr(1), of 20] f(5) c(4) len by auto
  have off: "bi_Offset (jr_blocks jr ! i) = ?off"
    using jr(1) f(1,2) unfolding blocks_at_def by (metis length_chunk_offsets length_map nth_chunk_offsets nth_map)
  have hdr: "read_at (jr_r jr) ?off 20 = Some (h16 @ LE_PutUint32 (of_nat (length buf)))"
    unfolding f(3) by (subst read_chunk [of i chs 0]) (use f len c in simp_all)
  have payload: "read_at (jr_r jr) (?off + 20) (length buf) = Some buf"
    unfolding f(3) by (subst read_chunk [of i chs 20]) (use f len c in simp_all)
  have "length buf < 2 ^ 32" "of_nat (length buf) \<noteq> (0 :: u32)"
    using c(3,4) u32_length(1) [of "length buf"] by (auto simp flip: unat_eq_zero)
  then show ?thesis
    using off hdr payload m jr(2) dec c(2) u32_length [of "length buf"]
    by (simp add: fetch_zstd_def Let_def seq_field_len_def format_consts checked_size_def le_simps)
qed

lemma fetch_dict_file:
  assumes c: "chs ! i = h16 @ LE_PutUint32 (of_nat (length dict)) @ LE_PutUint32 (of_nat (length buf)) @ dict @ buf"
    "length h16 = 16" "buf \<noteq> []" "length buf < 2 ^ 31 + 1" "length dict \<le> 8192"
    and dec: "(if dict = [] then z_decode z buf else z_decodeDict z dict buf) = Some b" "length b = jr_blockSize jr"
    and f: "length chs = length bl" "i < length bl" "jr_r jr = h @ concat chs @ t" "length h = 16" "length t < 2 ^ 30"
    and jr: "blocks_at (chunk_offsets 16 chs) (jr_blocks jr)" "jr_version jr = Version2"
  shows "fetch_dict z i jr = Inr b"
proof -
  let ?off = "16 + int (length (concat (take i chs)))" and ?dl = "of_nat (length dict) :: u32" and ?cl = "of_nat (length buf) :: u32"
  have len: "length (chs ! i) = 24 + length dict + length buf"
    using c(1,2) by simp
  obtain m where m: "blockPayloadLimit i 24 jr = Inr m" "int (length dict + length buf) \<le> m" "m < 2 ^ 32"
    using payload_limit [OF f(1-4) jr(1), of 24] f(5) c(4,5) len by auto
  have off: "bi_Offset (jr_blocks jr ! i) = ?off"
    using jr(1) f(1,2) unfolding blocks_at_def by (metis length_chunk_offsets length_map nth_chunk_offsets nth_map)
  have hdr: "read_at (jr_r jr) ?off 24 = Some (h16 @ LE_PutUint32 ?dl @ LE_PutUint32 ?cl)"
    unfolding f(3) by (subst read_chunk [of i chs 0]) (use f len c in simp_all)
  have rdict: "read_at (jr_r jr) (?off + 24) (length dict) = Some dict"
    unfolding f(3) by (subst read_chunk [of i chs 24]) (use f len c in simp_all)
  have payload: "read_at (jr_r jr) (?off + 24 + int (length dict)) (length buf) = Some buf"
    unfolding f(3) by (subst read_chunk [of i chs "24 + length dict"]) (use f len c in simp_all)
  have lens: "unat ?dl = length dict" "uint ?dl = int (length dict)" "unat ?cl = length buf" "uint ?cl = int (length buf)"
    using c(4,5) by (simp_all add: u32_length)
  have nz: "?cl \<noteq> 0" "0 < ?dl \<longleftrightarrow> dict \<noteq> []"
    using c(3) lens(1,3) by (auto simp: word_gt_0 simp flip: unat_eq_zero)
  have "uint (word_of_int m :: u32) = m"
    using m(2,3) by (simp add: unsigned_of_int take_bit_int_eq_self)
  then have dl: "\<not> ?dl > word_of_int m"
    using m(2) lens(2) by (simp add: word_less_def)
  have cl: "\<not> uint ?cl > m - uint ?dl"
    using m(2) lens by simp
  have fields: "LE_Uint32 (drop 16 (h16 @ LE_PutUint32 ?dl @ LE_PutUint32 ?cl)) = ?dl" "LE_Uint32 (drop 20 (h16 @ LE_PutUint32 ?dl @ LE_PutUint32 ?cl)) = ?cl"
    using c(2) by (simp_all add: le_simps)
  show ?thesis
    using off hdr rdict payload m(1) jr(2) dec nz dl cl fields lens
    by (cases "dict = []") (simp_all add: fetch_dict_def Let_def seq_field_len_def format_consts checked_size_def)
qed

lemma fixed_blocks_at:
  assumes "\<forall>c \<in> set chs. length c = bs" "0 < bs" "r = h @ concat chs" "length h = 16"
  shows "blocks_at (chunk_offsets 16 chs) (fixed_blocks r bs)"
proof -
  have total: "length (concat chs) = length chs * bs"
    using assms(1) by (rule concat_fixed)
  have prefix: "length (concat (take i chs)) = i * bs" if "i < length chs" for i
    using concat_fixed [of "take i chs" bs] assms(1) that by (auto dest: in_set_takeD)
  have "(length r - 16) div bs = length chs"
    using assms(2-4) total by simp
  then show ?thesis
    unfolding blocks_at_def
    by (intro nth_equalityI) (simp_all add: fixed_blocks_def format_consts nth_chunk_offsets prefix)
qed

lemma index_size: "length (block_index offs) = 8 * length offs + 8"
  by (simp add: block_index_def BlockIndexMagic_def length_concat comp_def sum_list_triv)

lemma fetch_block_file:
  assumes f: "file_ok z cfg bl chs" "i < length bl" "jr_r jr = file_content cfg chs" "jr_blockSize jr = nat (jcf_BlockSize cfg)"
    and jr: "jr_compression jr = jcf_Compression cfg" "jr_version jr = Version2" "blocks_at (chunk_offsets 16 chs) (jr_blocks jr)"
  shows "fetch_block z i jr = Inr (blk_bytes (bl ! i))"
proof -
  note d = file_okD [OF f(1,2)]
  let ?d = "bl ! i" and ?hdr = "file_header (jcf_BlockSize cfg) (jcf_Compression cfg)" and ?idx = "block_index (chunk_offsets 16 chs)"
  have bs: "nat (jcf_BlockSize cfg) \<le> 2 ^ 30" "codec_ok z (nat (jcf_BlockSize cfg))"
    using f(1) by (auto simp: file_ok_def settings_ok_def nat_le_iff)
  have codec: "z_decode z (z_encode z (blk_bytes ?d)) = Some (blk_bytes ?d)" "z_encode z (blk_bytes ?d) \<noteq> []"
    "length (z_encode z (blk_bytes ?d)) < 2 ^ 31 + 1"
    using bs d(2) by (auto simp: codec_ok_def)
  have t: "length ?idx < 2 ^ 30" if "jcf_Compression cfg \<noteq> CompressionNone"
    using f(1) d(3) that by (auto simp: file_ok_def maxBlockIndexEntries_def index_size)
  show ?thesis
  proof (cases "jcf_Compression cfg")
    case CompressionNone
    have "bi_Offset (jr_blocks jr ! i) = 16 + int (length (concat (take i chs)))"
      using jr(3) f(2) d(3) unfolding blocks_at_def by (metis length_chunk_offsets length_map nth_chunk_offsets nth_map)
    then show ?thesis
      using fetch_fixed_file [OF f(1) CompressionNone f(2-4)] CompressionNone jr(1) by (simp add: fetch_block_def)
  next
    case CompressionZstd
    then have ch: "chs ! i = blk_head ?d @ LE_PutUint32 (of_nat (length (z_encode z (blk_bytes ?d)))) @ z_encode z (blk_bytes ?d)"
      using d(1) by (simp add: chunk_of_def)
    have "fetch_zstd z i jr = Inr (blk_bytes ?d)"
      by (rule fetch_zstd_file [where h = ?hdr, OF ch _ codec(2,3,1) _ d(3) f(2) _ _ t jr(3,2)])
        (use f(3,4) d(2) CompressionZstd in \<open>simp_all add: file_content_def\<close>)
    then show ?thesis
      using CompressionZstd jr(1) by (simp add: fetch_block_def)
  next
    case CompressionZstdDict
    then obtain dict buf where pay: "dict_payload z ?d dict buf"
      and ch: "chs ! i = blk_head ?d @ LE_PutUint32 (of_nat (length dict)) @ LE_PutUint32 (of_nat (length buf)) @ dict @ buf"
      using d(1) by (auto simp: chunk_of_def)
    have buf: "buf \<noteq> []" "length buf < 2 ^ 31 + 1" "length dict \<le> 8192"
      "(if dict = [] then z_decode z buf else z_decodeDict z dict buf) = Some (blk_bytes ?d)"
    proof -
      have "length buf \<le> 2 * nat (jcf_BlockSize cfg)"
        using pay bs(2) d(2) by (auto simp: dict_payload_def codec_ok_def split: if_splits)
      then show "length buf < 2 ^ 31 + 1"
        using bs(1) by simp
    qed (use pay codec bs(2) d(2) in \<open>auto simp: dict_payload_def codec_ok_def split: if_splits\<close>)
    have "fetch_dict z i jr = Inr (blk_bytes ?d)"
      by (rule fetch_dict_file [where h = ?hdr, OF ch _ buf _ d(3) f(2) _ _ t jr(3,2)])
        (use f(3,4) d(2) CompressionZstdDict in \<open>simp_all add: file_content_def\<close>)
    then show ?thesis
      using CompressionZstdDict jr(1) by (simp add: fetch_block_def)
  qed
qed

lemma open_file:
  assumes f: "file_ok z cfg bl chs" "bl \<noteq> []"
  shows "\<exists>jr. NewReader (file_content cfg chs) = Inr jr \<and> source_of z bl jr \<and> before_block 0 jr \<and>
    jr_r jr = file_content cfg chs \<and> jr_compression jr = jcf_Compression cfg \<and> blocks_at (chunk_offsets 16 chs) (jr_blocks jr) \<and>
    (jcf_Compression cfg \<noteq> CompressionNone \<longrightarrow> read_infos (file_content cfg chs) Version2 (chunk_offsets 16 chs) = Inr (jr_blocks jr))"
proof -
  let ?r = "file_content cfg chs" and ?ct = "jcf_Compression cfg" and ?bs = "nat (jcf_BlockSize cfg)"
  let ?hdr = "file_header (jcf_BlockSize cfg) ?ct"
  have ok: "settings_ok z cfg"
    using f(1) by (simp add: file_ok_def)
  obtain jr where jr: "NewReader ?r = Inr jr" "jr_r jr = ?r" "jr_blockSize jr = ?bs" "jr_compression jr = ?ct" "jr_version jr = Version2"
    "jr_pf jr = None" "before_block 0 jr"
    and blocks: "jr_blocks jr = (if ?ct = CompressionNone then fixed_blocks ?r ?bs
                    else case readBlockIndex ?r Version2 of Inr bs \<Rightarrow> bs | Inl _ \<Rightarrow> scanBlocks ?r ?ct Version2 FileHeaderSize)"
    using NewReader_header [OF ok, of ?r] unfolding file_content_def by blast
  have len: "length chs = length bl"
    using f(1) by (auto simp: file_ok_def dest: list_all2_lengthD)
  have at: "blocks_at (chunk_offsets 16 chs) (jr_blocks jr)"
  proof (cases "?ct = CompressionNone")
    case True
    have "\<forall>c \<in> set chs. length c = ?bs"
    proof
      fix c
      assume "c \<in> set chs"
      then obtain i where "i < length bl" "c = chs ! i"
        using len by (auto simp: in_set_conv_nth)
      then show "length c = ?bs"
        using file_okD [OF f(1)] True by (auto simp: chunk_of_def)
    qed
    moreover have "0 < ?bs"
      using settings_bs [OF ok] by linarith
    ultimately have "blocks_at (chunk_offsets 16 chs) (fixed_blocks ?r ?bs)"
      by (rule fixed_blocks_at [where h = ?hdr]) (use True in \<open>simp_all add: file_content_def\<close>)
    then show ?thesis
      using True blocks by simp
  next
    case False
    then show ?thesis
      using readBlockIndex_file [OF f(1) False f(2)] blocks by auto
  qed
  have "length (jr_blocks jr) = length bl"
    using at len unfolding blocks_at_def by (metis length_chunk_offsets length_map)
  moreover have "fetch_block z i jr = Inr (blk_bytes (bl ! i)) \<and> length (blk_bytes (bl ! i)) = jr_blockSize jr" if "i < length bl" for i
    using fetch_block_file [OF f(1) that jr(2,3,4,5) at] file_okD(2) [OF f(1) that] jr(3) by simp
  moreover have "list_all desc_ok bl"
    using f(1) by (simp add: file_ok_def list_all_iff)
  ultimately have "source_of z bl jr"
    using jr(5,6) by (simp add: source_of_def pf_ok_def)
  moreover have "read_infos ?r Version2 (chunk_offsets 16 chs) = Inr (jr_blocks jr)" if "?ct \<noteq> CompressionNone"
    using readBlockIndex_file [OF f(1) that f(2)] that blocks by auto
  ultimately show ?thesis
    using jr(1,2,4,7) at by blast
qed

section \<open>The round trip\<close>

text \<open>The writer's first frame opens the file; from there on the invariant of the writer holds.\<close>

lemma openFile_inv:
  assumes "NewJournalWriter cfg0 d = Inr w0"
  shows "writer_inv z (jw_cfg w0) (journal_path (jcf_Dir (jw_cfg w0)) (jcf_Prefix (jw_cfg w0)) ts) [] [] [] (openFile ts w0)"
    and "jw_file w0 = None" "\<not> jw_paused w0"
  using assms
  by (auto simp: NewJournalWriter_def Let_def openFile_def writer_inv_def file_state_def block_state_def starts_ok_def format_consts
      split: option.splits)

lemma run_frame_opens: "jw_file w0 = None \<Longrightarrow> \<not> jw_paused w0 \<Longrightarrow> run_frame z (dv, now, f) w0 = run_frame z (dv, now, f) (openFile (rx_Timestamp f) w0)"
  by (simp add: run_frame_def appendFrame_def openFile_def Let_def)

lemma run_opens:
  assumes "jw_file w0 = None" "\<not> jw_paused w0" "xs \<noteq> []"
  shows "run_frames z xs w0 = run_frames z xs (openFile (rx_Timestamp (frm (hd xs))) w0)"
    "keeps_room z xs w0 = keeps_room z xs (openFile (rx_Timestamp (frm (hd xs))) w0)"
  using assms run_frame_opens [OF assms(1,2)] by (cases xs; simp; force)+

text \<open>The sequence numbers of a block are counted from its first frame.\<close>

definition numbered :: "RxFrame list \<Rightarrow> bool" where
  "numbered fs \<longleftrightarrow> successively (\<lambda>f g. rx_Seq g = rx_Seq f + 1) fs"

lemma numbered_nth: "numbered fs \<Longrightarrow> i < length fs \<Longrightarrow> rx_Seq (fs ! i) = rx_Seq (hd fs) + of_nat i"
proof (induction i)
  case (Suc i)
  have "rx_Seq (fs ! Suc i) = rx_Seq (fs ! i) + 1"
    using Suc.prems unfolding numbered_def successively_conv_nth by blast
  then show ?case
    using Suc by simp
qed (simp add: hd_conv_nth)

definition record_of :: "RxFrame \<Rightarrow> u64 \<times> Entry" where
  "record_of f = (rx_Seq f, entry_of f)"

lemma block_out_numbered: "numbered fs \<Longrightarrow> block_out fs = map record_of fs"
  by (rule nth_equalityI) (simp_all add: block_out_def record_of_def numbered_nth)

lemma numbered_blocks: "numbered (concat fss) \<Longrightarrow> fs \<in> set fss \<Longrightarrow> numbered fs"
  unfolding numbered_def by (induction fss) (auto simp: successively_append_iff)

lemma blocks_out_numbered:
  assumes "numbered (concat (map blk_frames bl))"
  shows "concat (map (\<lambda>d. block_out (blk_frames d)) bl) = map record_of (concat (map blk_frames bl))"
proof -
  have "block_out (blk_frames d) = map record_of (blk_frames d)" if "d \<in> set bl" for d
    using numbered_blocks [OF assms, of "blk_frames d"] that by (intro block_out_numbered) auto
  then have "map (\<lambda>d. block_out (blk_frames d)) bl = map (\<lambda>d. map record_of (blk_frames d)) bl"
    by simp
  then show ?thesis
    by (simp only: map_concat map_map comp_def)
qed

lemma blocks_of_frames:
  assumes "list_all desc_ok bl"
  shows "length bl \<le> length (concat (map blk_frames bl))"
  using assms
proof (induction bl)
  case (Cons d bl)
  then have "Suc 0 \<le> length (blk_frames d)" "length bl \<le> length (concat (map blk_frames bl))"
    by (auto simp: desc_ok_def good_block_def Suc_le_eq)
  then show ?case
    unfolding list.map concat.simps length_append list.size by linarith
qed simp

lemma run_writes_file:
  assumes new: "NewJournalWriter cfg0 d = Inr w0" and ok: "settings_ok z (jw_cfg w0)" "registry_strings_ok devices" "list_all input_ok xs" "xs \<noteq> []"
    and order: "successively (\<lambda>f g. us f \<le> us g) (map frm xs)" and room: "keeps_room z xs w0"
    and path: "path = journal_path (jcf_Dir (jw_cfg w0)) (jcf_Prefix (jw_cfg w0)) (rx_Timestamp (frm (hd xs)))"
  shows "\<exists>w' bl chs. writer_Run z xs devices w0 = Inr w' \<and> gm_get (jw_disk w') path = Some (file_content (jw_cfg w0) chs) \<and>
    length (jw_blockOffsets w') \<le> length xs \<and> concat (map blk_frames bl) = map frm xs \<and> bl \<noteq> [] \<and> list_all desc_ok bl \<and>
    (jcf_Compression (jw_cfg w0) = CompressionNone \<longrightarrow> jw_blockOffsets w' = []) \<and>
    (length (jw_blockOffsets w') \<le> maxBlockIndexEntries \<longrightarrow> file_ok z (jw_cfg w0) bl chs)"
proof -
  let ?cfg = "jw_cfg w0" and ?w = "openFile (rx_Timestamp (frm (hd xs))) w0"
  note w0 = openFile_inv [OF new]
  obtain w1 bl chs cur where w1: "run_frames z xs ?w = Inr w1" "writer_inv z ?cfg path bl chs cur w1"
    "concat (map blk_frames bl) @ cur = map frm xs" "cur \<noteq> []"
  proof -
    have "keeps_room z xs ?w"
      using room run_opens(2) [OF w0(2,3) ok(4)] by simp
    then show ?thesis
      using run_inv [where seen = "[]" and w = ?w, OF w0(1) ok(1,3)] order ok(4) path that by auto
  qed
  obtain w' bl' chs' where w': "jw_finalize z devices w1 = Inr w'" "gm_get (jw_disk w') path = Some (file_content ?cfg chs')"
    "jw_blockOffsets w' = (if jcf_Compression ?cfg = CompressionNone then [] else chunk_offsets 16 chs')"
    "list_all2 (chunk_of z (jcf_Compression ?cfg)) bl' chs'" "list_all (\<lambda>d. desc_ok d \<and> length (blk_bytes d) = nat (jcf_BlockSize ?cfg)) bl'"
    and out: "concat (map blk_frames bl') = map frm xs"
    using finalize_file [OF w1(2) ok(1,2) w1(4)] w1(3) by auto
  have run: "writer_Run z xs devices w0 = Inr w'"
    using w1(1) w'(1) run_opens(1) [OF w0(2,3) ok(4)] by (simp add: writer_Run_frames)
  have len: "length chs' = length bl'"
    using w'(4) by (auto dest: list_all2_lengthD)
  have good: "list_all desc_ok bl'" "bl' \<noteq> []"
    using w'(5) out ok(4) by (auto simp: list_all_iff)
  then have "length (jw_blockOffsets w') \<le> length xs"
    using blocks_of_frames [of bl'] len w'(3) unfolding out by simp
  moreover have "length (jw_blockOffsets w') \<le> maxBlockIndexEntries \<longrightarrow> file_ok z ?cfg bl' chs'"
    using ok(1) w'(3-5) len by (auto simp: file_ok_def)
  ultimately show ?thesis
    using run w'(2,3) out good by (intro exI [of _ w'] exI [of _ bl'] exI [of _ chs']) simp
qed

text \<open>
  A sufficient condition for the room: frames that are no address claims, and a block that holds the
  device table of the moment beside the frame.
\<close>

definition start_table :: "DeviceRegistry \<Rightarrow> nat" where
  "start_table devices = sum_list (map jdevice_size (map jdevice_of (filter (\<lambda>dev. d_NAME dev \<noteq> 0) (DeviceRegistry_Snapshot devices))))"

definition ample :: "int \<Rightarrow> DeviceRegistry \<times> gotime \<times> RxFrame \<Rightarrow> bool" where
  "ample bs x \<longleftrightarrow>
     h_PGN (rx_Header (frm x)) \<noteq> 60928 \<and> start_table (fst x) + 2 < 2 ^ 16 \<and>
     int (18 + frame_size 0 (length (rx_Data (frm x))) + start_table (fst x) + BlockTrailerLen) \<le> bs"

lemma store_fits:
  assumes "length (jw_block v) = cfg_bs v" "h_PGN (rx_Header f) \<noteq> 60928" "deviceTableSize v < 2 ^ 16"
    "jw_dataOffset v + frame_size delta (length (rx_Data f)) + deviceTableSize v + BlockTrailerLen \<le> cfg_bs v"
  shows "\<exists>w'. store_in_block delta ts f v = Inr w' \<and> room w'"
proof -
  have "jw_dataOffset v + frame_size delta (length (rx_Data f)) \<le> length (jw_block v)"
    using assms(1,4) by linarith
  then show ?thesis
    using assms(2-4) by (simp add: store_in_block_def encode_frame_fits room_def device_change_def deviceTableSize_def)
qed

lemma ample_first:
  assumes "ample (jcf_BlockSize (jw_cfg v)) (devices, now, f)" "length (jw_block v) = cfg_bs v"
  shows "\<exists>w'. store_in_block 0 (us f) f (initBlock devices (us f) (rx_Seq f) v) = Inr w' \<and> room w'"
proof -
  have "deviceTableSize (initBlock devices (us f) (rx_Seq f) v) = 2 + start_table devices"
    by (simp add: deviceTableSize_def initBlock_def Let_def start_table_def)
  moreover have "16 \<le> cfg_bs v"
    using assms(1) unfolding ample_def of_nat_add by (simp add: le_nat_iff)
  then have "length (jw_block (initBlock devices (us f) (rx_Seq f) v)) = cfg_bs v"
    using assms(2) by (simp add: initBlock_def Let_def splice_at_def)
  moreover have "int (18 + frame_size 0 (length (rx_Data f)) + start_table devices + BlockTrailerLen) \<le> jcf_BlockSize (jw_cfg v)"
    using assms(1) by (simp add: ample_def)
  then have "18 + frame_size 0 (length (rx_Data f)) + start_table devices + BlockTrailerLen \<le> cfg_bs v"
    by linarith
  ultimately show ?thesis
    using assms by (intro store_fits) (simp_all add: ample_def)
qed

lemma ample_step:
  assumes inv: "writer_inv z cfg path bl chs cur w" and ok: "settings_ok z cfg" "registry_strings_ok devices" and amp: "ample (jcf_BlockSize cfg) (devices, now, f)"
  shows "\<exists>w'. appendFrame z devices now f w = Inr w' \<and> room w'"
proof -
  have w: "jw_file w = Some path" "length (jw_block w) = cfg_bs w" "jw_cfg w = cfg"
    using inv by (auto simp: writer_inv_def file_state_def block_state_def)
  define full where "full \<longleftrightarrow> jcf_BlockSize (jw_cfg w) - int (jw_dataOffset w) - int (deviceTableSize w) - int BlockTrailerLen
      < int (frame_size (frame_delta w (us f)) (length (rx_Data f)))"
  consider (full) "full" | (empty) "\<not> full" "cur = []" | (more) "\<not> full" "cur \<noteq> []"
    by blast
  then show ?thesis
  proof cases
    case full
    obtain v bl' chs' where v: "next_block z devices now (us f) (rx_Seq f) w = Inr (initBlock devices (us f) (rx_Seq f) v)"
      "writer_inv z cfg path bl' chs' [] v"
      using append_full [OF inv ok] by blast
    have "initBlock devices t q (initBlock devices t q v) = initBlock devices t q v" for t q
      by (simp add: initBlock_def Let_def splice_at_def)
    moreover have "\<exists>w'. store_in_block 0 (us f) f (initBlock devices (us f) (rx_Seq f) v) = Inr w' \<and> room w'"
      by (rule ample_first) (use v(2) amp in \<open>simp_all add: writer_inv_def block_state_def\<close>)
    ultimately show ?thesis
      using full v(1) w(1) unfolding full_def by (simp add: appendFrame_def Let_def)
  next
    case empty
    then have "jw_frameCount w = 0" "frame_delta w (us f) = 0"
      using inv by (simp_all add: writer_inv_def block_state_def frame_delta_def)
    then show ?thesis
      using ample_first [of w devices now f] empty(1) w amp unfolding full_def by (simp add: appendFrame_def Let_def)
  next
    case more
    have b: "block_state cur w" "cfg_bs w < 2 ^ 32"
      using inv settings_bs [OF ok(1)] by (auto simp: writer_inv_def)
    have fc: "jw_frameCount w \<noteq> 0"
      using current_count(2) [OF b(1) more(2) b(2)] b(1) more(2) by (auto simp: block_state_def)
    have "deviceTableSize w < 2 ^ 16"
      using b(1) more(2) by (simp add: block_state_def room_def)
    moreover have "jw_dataOffset w + frame_size (frame_delta w (us f)) (length (rx_Data f)) + deviceTableSize w + BlockTrailerLen \<le> cfg_bs w"
      using more(1) unfolding full_def by linarith
    ultimately have "\<exists>w'. store_in_block (frame_delta w (us f)) (us f) f w = Inr w' \<and> room w'"
      using w(2) amp by (intro store_fits) (simp_all add: ample_def)
    then show ?thesis
      using more(1) fc w(1) unfolding full_def by (simp add: appendFrame_def Let_def)
  qed
qed

lemma ample_keeps_room:
  assumes "writer_inv z cfg path bl chs cur w" "settings_ok z cfg" "list_all input_ok xs" "list_all (ample (jcf_BlockSize cfg)) xs"
    and "successively (\<lambda>f g. us f \<le> us g) (concat (map blk_frames bl) @ cur @ map frm xs)"
  shows "keeps_room z xs w"
  using assms
proof (induction xs arbitrary: w bl chs cur)
  case (Cons x xs)
  obtain dv now f where x: "x = (dv, now, f)"
    by (cases x)
  have i: "registry_strings_ok dv" "frame_ok f" "ample (jcf_BlockSize cfg) (dv, now, f)"
    using Cons.prems(3,4) by (auto simp: x input_ok_def)
  obtain w1 where w1: "appendFrame z dv now f w = Inr w1" "room w1"
    using ample_step [OF Cons.prems(1,2) i(1,3)] by blast
  have mono: "us (last cur) \<le> us f" if "cur \<noteq> []"
    using Cons.prems(5) that by (auto simp: x successively_append_iff)
  obtain bl1 chs1 cur1 where i1: "writer_inv z cfg path bl1 chs1 (cur1 @ [f]) w1"
    "concat (map blk_frames bl1) @ cur1 = concat (map blk_frames bl) @ cur"
    using append_step [OF Cons.prems(1,2) i(1,2) _ w1] mono by blast
  have seen: "concat (map blk_frames bl1) @ (cur1 @ [f]) @ map frm xs = concat (map blk_frames bl) @ cur @ map frm (x # xs)"
    using arg_cong [OF i1(2), of "\<lambda>l. l @ [f] @ map frm xs"] by (simp add: x)
  have "successively (\<lambda>f g. us f \<le> us g) (concat (map blk_frames bl1) @ (cur1 @ [f]) @ map frm xs)"
    unfolding seen by (rule Cons.prems(5))
  then have "keeps_room z xs w1"
    by (rule Cons.IH [OF i1(1) Cons.prems(2), rotated 2]) (use Cons.prems(3,4) in simp_all)
  moreover have "run_frame z x w = Inr w1"
    using w1(1) Cons.prems(1) by (simp add: run_frame_def x writer_inv_def)
  ultimately show ?case
    using w1(2) by simp
qed simp

lemma enough_room:
  assumes "NewJournalWriter cfg0 d = Inr w0" "settings_ok z (jw_cfg w0)" "xs \<noteq> []" "list_all input_ok xs"
    and "successively (\<lambda>f g. us f \<le> us g) (map frm xs)" "list_all (ample (jcf_BlockSize (jw_cfg w0))) xs \<or> keeps_room z xs w0"
  shows "keeps_room z xs w0"
proof -
  note w0 = openFile_inv [OF assms(1)]
  have "successively (\<lambda>f g. us f \<le> us g) (concat (map blk_frames []) @ [] @ map frm xs)"
    using assms(5) by simp
  then have "keeps_room z xs (openFile (rx_Timestamp (frm (hd xs))) w0)" if "list_all (ample (jcf_BlockSize (jw_cfg w0))) xs"
    by (rule ample_keeps_room [OF w0(1) assms(2,4) that])
  then show ?thesis
    using assms(6) run_opens(2) [OF w0(2,3) assms(3)] by blast
qed

text \<open>
  C4: A run of the journal writer on a fresh configuration that keeps one file (no rotation) ends without an
  error, and reading its file delivers every frame of the run, in order and once, with its sequence
  number, header, data and its timestamp in microseconds, and no error, with or without read-ahead. This holds for the three compressions with any
  codec that decodes what it encodes, for frames with non-decreasing timestamps and consecutive sequence
  numbers, as long as each block keeps room for its device table (always so without address claims in a
  block large enough for the devices) and, for compressed files, the file has no more blocks than the block index may list.
\<close>

theorem journal_roundtrip:
  assumes "NewJournalWriter cfg0 d = Inr w0" "settings_ok z (jw_cfg w0)" "registry_strings_ok devices" "xs \<noteq> []" "list_all input_ok xs"
    and "successively (\<lambda>f g. us f \<le> us g) (map frm xs)" "successively (\<lambda>f g. rx_Seq g = rx_Seq f + 1) (map frm xs)"
    and "list_all (ample (jcf_BlockSize (jw_cfg w0))) xs \<or> keeps_room z xs w0"
    and "path = journal_path (jcf_Dir (jw_cfg w0)) (jcf_Prefix (jw_cfg w0)) (rx_Timestamp (frm (hd xs)))"
  shows "\<exists>w' content. writer_Run z xs devices w0 = Inr w' \<and> gm_get (jw_disk w') path = Some content \<and> length (jw_blockOffsets w') \<le> length xs \<and>
    (length (jw_blockOffsets w') \<le> maxBlockIndexEntries \<longrightarrow>
      (\<exists>jr. NewReader content = Inr jr \<and>
        (\<forall>fuel > length xs. \<forall>ahead. \<exists>jr'. drain z fuel (if ahead then EnablePrefetch jr else jr) =
           Some (map (\<lambda>x. (rx_Seq (frm x), entry_of (frm x))) xs, jr') \<and> jr_err jr' = None)))"
proof -
  have "keeps_room z xs w0"
    by (rule enough_room [OF assms(1,2,4-6,8)])
  from run_writes_file [OF assms(1,2,3,5,4,6) this assms(9)]
  obtain w' bl chs where w': "writer_Run z xs devices w0 = Inr w'" "gm_get (jw_disk w') path = Some (file_content (jw_cfg w0) chs)"
    "length (jw_blockOffsets w') \<le> length xs" "concat (map blk_frames bl) = map frm xs" "bl \<noteq> []" "list_all desc_ok bl"
    "jcf_Compression (jw_cfg w0) = CompressionNone \<longrightarrow> jw_blockOffsets w' = []"
    "length (jw_blockOffsets w') \<le> maxBlockIndexEntries \<longrightarrow> file_ok z (jw_cfg w0) bl chs"
    by (elim exE conjE) (rule that)
  have out: "concat (map (\<lambda>d. block_out (blk_frames d)) bl) = map (\<lambda>x. (rx_Seq (frm x), entry_of (frm x))) xs"
    using blocks_out_numbered [of bl] w'(4) assms(7) by (simp add: numbered_def record_of_def)
  have "\<exists>jr. NewReader (file_content (jw_cfg w0) chs) = Inr jr \<and>
      (\<forall>fuel > length xs. \<forall>ahead. \<exists>jr'. drain z fuel (if ahead then EnablePrefetch jr else jr) =
         Some (map (\<lambda>x. (rx_Seq (frm x), entry_of (frm x))) xs, jr') \<and> jr_err jr' = None)"
    if small: "length (jw_blockOffsets w') \<le> maxBlockIndexEntries"
  proof -
    obtain jr where jr: "NewReader (file_content (jw_cfg w0) chs) = Inr jr" "source_of z bl jr" "before_block 0 jr"
      using open_file w'(5,8) small by blast
    have "source_of z bl (if ahead then EnablePrefetch jr else jr)" "before_block 0 (if ahead then EnablePrefetch jr else jr)" for ahead
      using jr(2,3) EnablePrefetch_source by (auto simp: EnablePrefetch_def before_block_def split: option.split)
    then show ?thesis
      using drain_file [of z bl] jr(1) unfolding out by auto
  qed
  then show ?thesis
    using w'(1-3) by blast
qed

definition marking_codec :: zstd where
  "marking_codec =
     \<lparr>z_encode = (\<lambda>b. 1 # b), z_decode = (\<lambda>c. case c of [] \<Rightarrow> None | m # b \<Rightarrow> if m = 1 then Some b else None),
      z_buildDict = (\<lambda>_. Some [7]), z_dictEncoder = (\<lambda>dict. Some (\<lambda>b. 2 # b)),
      z_decodeDict = (\<lambda>dict c. case c of [] \<Rightarrow> None | m # b \<Rightarrow> if m = 2 then Some b else None)\<rparr>"

definition sample_config :: JournalConfig where
  "sample_config = \<lparr>jcf_Dir = ''/var/log'', jcf_Prefix = [], jcf_BlockSize = 4096, jcf_Compression = CompressionZstdDict,
     jcf_RotateDuration = 0, jcf_RotateSize = 0, jcf_RotateCount = 0, jcf_OnRotate = False\<rparr>"

definition sample_frame :: "u64 \<Rightarrow> bytes \<Rightarrow> RxFrame" where
  "sample_frame q bs =
     \<lparr>rx_Timestamp = unixEpoch + 1000000 * uint q, rx_Header = \<lparr>h_Priority = 2, h_PGN = 129025, h_Source = 3, h_Destination = 255\<rparr>,
      rx_Data = bs, rx_Bus = ''can0'', rx_Seq = q\<rparr>"

lemma marking_codec_ok: "0 < bs \<Longrightarrow> codec_ok marking_codec bs"
  by (auto simp: codec_ok_def marking_codec_def)

lemma sample_settings: "settings_ok marking_codec (JournalConfig_setDefaults sample_config)"
  by (simp add: settings_ok_def no_rotation_def marking_codec_ok sample_config_def JournalConfig_setDefaults_def JournalConfig_validate_def)

lemma UvarintSize_max: "UvarintSize v \<le> 10"
proof (rule UvarintSize_le)
  have "unat v < 2 ^ 64"
    using unsigned_less [of v] by simp
  then show "unat v < 2 ^ (7 * 10)"
    by simp
qed simp

lemma sample_frame_ok: "length bs \<le> 1000 \<Longrightarrow> input_ok ([], now, sample_frame q bs) \<and> ample 4096 ([], now, sample_frame q bs)"
  using UvarintSize_max [of 0] UvarintSize_max [of "of_nat (length bs)"]
  by (simp add: input_ok_def registry_strings_ok_def frame_ok_def valid_header_def sample_frame_def ample_def start_table_def
      DeviceRegistry_Snapshot_def frame_size_def format_consts)

lemma rx_Seq_sample: "rx_Seq (sample_frame q bs) = q"
  by (simp add: sample_frame_def)

lemma rx_Timestamp_sample: "rx_Timestamp (sample_frame q bs) = unixEpoch + 1000000 * uint q"
  by (simp add: sample_frame_def)

lemma sample_times: "us (sample_frame 7 a) \<le> us (sample_frame 8 b)"
  by (simp add: sample_frame_def UnixMicro_def i64_wrap_def)

definition sample_frames :: "(DeviceRegistry \<times> gotime \<times> RxFrame) list" where
  "sample_frames = [([], 0, sample_frame 7 [1, 2, 3, 4, 5, 6, 7, 8]), ([], 0, sample_frame 8 [9])]"

definition sample_path :: string where
  "sample_path = journal_path ''/var/log'' ''nmea2k'' (unixEpoch + 7000000)"

lemma sample_run:
  "\<exists>w0. NewJournalWriter sample_config [] = Inr w0 \<and> settings_ok marking_codec (jw_cfg w0) \<and>
     (list_all (ample (jcf_BlockSize (jw_cfg w0))) sample_frames \<or> keeps_room marking_codec sample_frames w0) \<and>
     sample_path = journal_path (jcf_Dir (jw_cfg w0)) (jcf_Prefix (jw_cfg w0)) (rx_Timestamp (frm (hd sample_frames)))"
proof -
  obtain w0 where w0: "NewJournalWriter sample_config [] = Inr w0" "jw_cfg w0 = JournalConfig_setDefaults sample_config"
    by (simp add: NewJournalWriter_def sample_config_def JournalConfig_setDefaults_def JournalConfig_validate_def)
  moreover have "jcf_BlockSize (jw_cfg w0) = 4096" "jcf_Dir (jw_cfg w0) = ''/var/log''" "jcf_Prefix (jw_cfg w0) = ''nmea2k''"
    by (simp_all add: w0(2) sample_config_def JournalConfig_setDefaults_def)
  moreover have "settings_ok marking_codec (jw_cfg w0)"
    using sample_settings by (simp add: w0(2))
  ultimately show ?thesis
    using sample_frame_ok [of "[1, 2, 3, 4, 5, 6, 7, 8]" 0 7] sample_frame_ok [of "[9]" 0 8]
    by (simp add: sample_frames_def sample_path_def rx_Timestamp_sample)
qed

lemma sample_frames_ok:
  "registry_strings_ok []" "sample_frames \<noteq> []" "list_all input_ok sample_frames" "length sample_frames = 2"
  "successively (\<lambda>f g. us f \<le> us g) (map frm sample_frames)" "successively (\<lambda>f g. rx_Seq g = rx_Seq f + 1) (map frm sample_frames)"
  using sample_frame_ok [of "[1, 2, 3, 4, 5, 6, 7, 8]" 0 7] sample_frame_ok [of "[9]" 0 8] sample_times
  by (simp_all add: sample_frames_def registry_strings_ok_def rx_Seq_sample)

theorem journal_roundtrip_witness:
  "\<exists>w0 w' content jr jr'. NewJournalWriter sample_config [] = Inr w0 \<and> writer_Run marking_codec sample_frames [] w0 = Inr w' \<and>
     gm_get (jw_disk w') sample_path = Some content \<and> NewReader content = Inr jr \<and>
     drain marking_codec 3 jr = Some ([(7, entry_of (sample_frame 7 [1, 2, 3, 4, 5, 6, 7, 8])), (8, entry_of (sample_frame 8 [9]))], jr') \<and> jr_err jr' = None"
proof -
  obtain w0 where w0: "NewJournalWriter sample_config [] = Inr w0" "settings_ok marking_codec (jw_cfg w0)"
    "list_all (ample (jcf_BlockSize (jw_cfg w0))) sample_frames \<or> keeps_room marking_codec sample_frames w0"
    "sample_path = journal_path (jcf_Dir (jw_cfg w0)) (jcf_Prefix (jw_cfg w0)) (rx_Timestamp (frm (hd sample_frames)))"
    using sample_run by blast
  from journal_roundtrip [OF w0(1,2) sample_frames_ok(1-3,5,6) w0(3,4)]
  obtain w' content where w': "writer_Run marking_codec sample_frames [] w0 = Inr w'" "gm_get (jw_disk w') sample_path = Some content"
    "length (jw_blockOffsets w') \<le> length sample_frames"
    and rd: "length (jw_blockOffsets w') \<le> maxBlockIndexEntries \<longrightarrow> (\<exists>jr. NewReader content = Inr jr \<and>
      (\<forall>fuel > length sample_frames. \<forall>ahead. \<exists>jr'. drain marking_codec fuel (if ahead then EnablePrefetch jr else jr) =
         Some (map (\<lambda>x. (rx_Seq (frm x), entry_of (frm x))) sample_frames, jr') \<and> jr_err jr' = None))"
    by (elim exE conjE) (rule that)
  have "length (jw_blockOffsets w') \<le> maxBlockIndexEntries" "3 > length sample_frames"
    using w'(3) sample_frames_ok(4) by (simp_all add: maxBlockIndexEntries_def)
  then obtain jr where jr: "NewReader content = Inr jr"
    "\<forall>fuel > length sample_frames. \<forall>ahead. \<exists>jr'. drain marking_codec fuel (if ahead then EnablePrefetch jr else jr) =
       Some (map (\<lambda>x. (rx_Seq (frm x), entry_of (frm x))) sample_frames, jr') \<and> jr_err jr' = None"
    using rd by blast
  from jr(2) [rule_format, OF \<open>3 > length sample_frames\<close>, of False] obtain jr' where "jr_err jr' = None"
    "drain marking_codec 3 jr = Some (map (\<lambda>x. (rx_Seq (frm x), entry_of (frm x))) sample_frames, jr')"
    by auto
  then show ?thesis
    using w0(1) w'(1,2) jr(1) by (auto simp: sample_frames_def rx_Seq_sample)
qed

end
