(* ===== verification/JournalSeek.thy ===== *)
theory JournalSeek
  imports JournalRoundtrip
begin

text \<open>
  Seeking in a journal file: both search strategies of the reader find the last block that begins at or
  before the target, and reading goes on from there.
\<close>

section \<open>The searches\<close>

text \<open>The last of the first \<open>n\<close> blocks that begins at or before the target, the first block if there is none.\<close>

definition block_for :: "nat \<Rightarrow> (nat \<Rightarrow> bool) \<Rightarrow> nat" where
  "block_for n le = length (takeWhile le [0..<n]) - 1"

definition initial :: "nat \<Rightarrow> (nat \<Rightarrow> bool) \<Rightarrow> bool" where
  "initial n le \<longleftrightarrow> (\<forall>i j. i \<le> j \<longrightarrow> j < n \<longrightarrow> le j \<longrightarrow> le i)"

lemma length_takeWhile_initial:
  assumes "m \<le> n" "\<And>i. i < m \<Longrightarrow> le i" "m < n \<Longrightarrow> \<not> le m"
  shows "length (takeWhile le [0..<n]) = m"
proof -
  have "[0..<n] = [0..<m] @ [m..<n]"
    using assms(1) upt_add_eq_append [of 0 m "n - m"] by simp
  moreover have "takeWhile le [m..<n] = []"
    using assms(3) by (cases "m < n") (simp_all add: upt_conv_Cons)
  ultimately show ?thesis
    using assms(2) by (simp add: takeWhile_append)
qed

lemma block_for_less: "0 < n \<Longrightarrow> block_for n le < n"
  using length_takeWhile_le [of le "[0..<n]"] by (simp add: block_for_def)

lemma block_for_cong: "(\<And>i. i < n \<Longrightarrow> le i = le' i) \<Longrightarrow> block_for n le = block_for n le'"
  unfolding block_for_def by (intro arg_cong [where f = "\<lambda>l. length l - 1"] takeWhile_cong) simp_all

lemma seek_loop_spec:
  assumes "initial n p" "\<And>i. i < n \<Longrightarrow> le i = Some (p i)" "lo \<le> n" "m \<le> n" "lo \<le> m"
    and "\<And>i. i < lo \<Longrightarrow> p i" "\<And>i. m \<le> i \<Longrightarrow> i < n \<Longrightarrow> \<not> p i"
  shows "seek_loop le (int lo) (int m - 1) (lo - 1) = Some (block_for n p)"
  using assms(3-7)
proof (induction "m - lo" arbitrary: lo m rule: less_induct)
  case less
  show ?case
  proof (cases "lo < m")
    case True
    define k where "k = lo + (m - 1 - lo) div 2"
    have "int lo + (int m - 1 - int lo) div 2 = int k"
      using True by (simp add: k_def zdiv_int of_nat_diff)
    note step = seek_loop.simps [of le "int lo" "int m - 1" "lo - 1", unfolded this Let_def]
    have k: "lo \<le> k" "k < m" "k < n"
      using True less.prems(2) by (auto simp: k_def)
    show ?thesis
    proof (cases "p k")
      case p: True
      have below: "p i" if "i < Suc k" for i
        using assms(1) p k(3) that unfolding initial_def less_Suc_eq_le by blast
      have "seek_loop le (int (Suc k)) (int m - 1) (Suc k - 1) = Some (block_for n p)"
        by (rule less.hyps) (use k less.prems(2,5) below in auto)
      then show ?thesis
        using True p assms(2) [OF k(3)] unfolding step by (simp add: add.commute)
    next
      case np: False
      have above: "\<not> p i" if "k \<le> i" "i < n" for i
        using assms(1) np that unfolding initial_def by blast
      have "seek_loop le (int lo) (int k - 1) (lo - 1) = Some (block_for n p)"
        by (rule less.hyps) (use k less.prems(1,4) above in auto)
      then show ?thesis
        using True np assms(2) [OF k(3)] unfolding step by simp
    qed
  next
    case False
    then have "m = lo"
      using less.prems(3) by simp
    then have "length (takeWhile p [0..<n]) = lo"
      by (intro length_takeWhile_initial) (use less.prems in auto)
    then show ?thesis
      using False by (subst seek_loop.simps) (simp add: block_for_def)
  qed
qed

lemma seek_fixed_spec:
  assumes "initial (length (jr_blocks jr)) p" "\<And>i. i < length (jr_blocks jr) \<Longrightarrow> le i = Some (p i)"
  shows "seek_fixed z le jr = loadBlock z (block_for (length (jr_blocks jr)) p) jr"
  using seek_loop_spec [OF assms, of 0 "length (jr_blocks jr)"] by (simp add: seek_fixed_def)

lemma seek_compressed_spec:
  assumes "initial (length (jr_blocks jr)) p" "\<And>i. i < length (jr_blocks jr) \<Longrightarrow> gt (jr_blocks jr ! i) \<longleftrightarrow> \<not> p i"
  shows "seek_compressed z gt jr = loadBlock z (block_for (length (jr_blocks jr)) p) jr"
proof -
  let ?n = "length (jr_blocks jr)" and ?f = "\<lambda>i. gt (jr_blocks jr ! i)"
  have "\<forall>i j. i \<le> j \<and> j < ?n \<and> ?f i \<longrightarrow> ?f j"
    using assms(1) assms(2) unfolding initial_def by (meson le_less_trans)
  note spec = sort_Search_spec [of ?n ?f, OF this]
  have "length (takeWhile p [0..<?n]) = sort_Search ?n ?f"
  proof (rule length_takeWhile_initial [OF spec(1)])
    show "p i" if "i < sort_Search ?n ?f" for i
      using spec(1) spec(2) [OF that] assms(2) that by (meson less_le_trans)
    show "\<not> p (sort_Search ?n ?f)" if "sort_Search ?n ?f < ?n"
      using spec(3) [OF order_refl that] assms(2) that by blast
  qed
  then show ?thesis
    by (simp add: seek_compressed_def Let_def block_for_def)
qed

section \<open>Sequence numbers at the start of the blocks\<close>

definition base_seq :: "Reader \<Rightarrow> nat \<Rightarrow> u64 option" where
  "base_seq jr i =
     (if jr_compression jr \<noteq> CompressionNone then Some (bi_BaseSeq (jr_blocks jr ! i))
      else map_option LE_Uint64 (read_at (jr_r jr) (bi_Offset (jr_blocks jr ! i) + 8) 8))"

lemma SeekToSeq_loads:
  assumes "jr_version jr = Version2" "jr_blocks jr \<noteq> []" "\<And>i. i < length (jr_blocks jr) \<Longrightarrow> base_seq jr i = Some (b i)"
    and "\<And>i j. i \<le> j \<Longrightarrow> j < length (jr_blocks jr) \<Longrightarrow> b i \<le> b j"
  shows "SeekToSeq z q jr = loadBlock z (block_for (length (jr_blocks jr)) (\<lambda>i. b i \<le> q)) (cancelPrefetch jr)"
proof -
  let ?n = "length (jr_blocks jr)"
  have init: "initial ?n (\<lambda>i. b i \<le> q)"
    using assms(4) unfolding initial_def by (meson order_trans)
  let ?jr = "cancelPrefetch jr"
  have pf: "jr_version ?jr = jr_version jr" "jr_blocks ?jr = jr_blocks jr" "jr_compression ?jr = jr_compression jr" "jr_r ?jr = jr_r jr"
    by (auto simp: cancelPrefetch_def split: option.split)
  show ?thesis
  proof (cases "jr_compression jr = CompressionNone")
    case True
    have "map_option (\<lambda>buf. LE_Uint64 buf \<le> q) (read_at (jr_r jr) (bi_Offset (jr_blocks jr ! i) + 8) 8) = Some (b i \<le> q)" if "i < ?n" for i
      using assms(3) [OF that] True by (auto simp: base_seq_def)
    then show ?thesis
      using seek_fixed_spec [of ?jr, unfolded pf, OF init] True assms(1,2) pf by (simp add: SeekToSeq_def)
  next
    case False
    have "bi_BaseSeq (jr_blocks jr ! i) > q \<longleftrightarrow> \<not> b i \<le> q" if "i < ?n" for i
      using assms(3) [OF that] False by (auto simp: base_seq_def)
    then show ?thesis
      using seek_compressed_spec [of ?jr, unfolded pf, OF init] False assms(1,2) pf by (simp add: SeekToSeq_def)
  qed
qed

lemma chunk_head:
  assumes "chunk_of z ct d ch" "desc_ok d"
  shows "\<exists>rest. ch = blk_head d @ rest"
proof (cases ct)
  case CompressionNone
  then show ?thesis
    using assms by (auto simp: chunk_of_def desc_ok_def good_block_def block_header_def Let_def)
qed (use assms(1) in \<open>auto simp: chunk_of_def\<close>)

lemma read_infos_base:
  "read_infos r Version2 offs = Inr bs \<Longrightarrow> i < length offs \<Longrightarrow> \<exists>hdr. read_at r (offs ! i) 16 = Some hdr \<and> bi_BaseSeq (bs ! i) = LE_Uint64 (drop 8 hdr)"
proof (induction offs arbitrary: bs i)
  case (Cons off offs)
  then show ?case
    by (cases i) (auto simp: read_info_def seq_field_len_def split: option.splits sum.splits)
qed simp

lemma base_seq_file:
  assumes f: "file_ok z cfg bl chs" "jr_r jr = file_content cfg chs" "jr_compression jr = jcf_Compression cfg"
    and at: "blocks_at (chunk_offsets 16 chs) (jr_blocks jr)"
    and infos: "jcf_Compression cfg \<noteq> CompressionNone \<longrightarrow> read_infos (file_content cfg chs) Version2 (chunk_offsets 16 chs) = Inr (jr_blocks jr)"
    and i: "i < length bl"
  shows "base_seq jr i = Some (rx_Seq (hd (blk_frames (bl ! i))))"
proof -
  note d = file_okD [OF f(1) i]
  let ?hdr = "file_header (jcf_BlockSize cfg) (jcf_Compression cfg)" and ?off = "16 + int (length (concat (take i chs)))"
  obtain t where t: "file_content cfg chs = ?hdr @ concat chs @ t"
    by (auto simp: file_content_def)
  have "desc_ok (bl ! i)"
    using f(1) i by (auto simp: file_ok_def list_all_length)
  then obtain rest where ch: "chs ! i = blk_head (bl ! i) @ rest"
    using chunk_head d(1) by blast
  have off: "bi_Offset (jr_blocks jr ! i) = ?off"
    using at i d(3) unfolding blocks_at_def by (metis length_chunk_offsets length_map nth_chunk_offsets nth_map)
  have r16: "read_at (file_content cfg chs) ?off 16 = Some (blk_head (bl ! i))"
    unfolding t by (subst read_chunk [of i chs 0]) (use i d(3) ch in simp_all)
  have r8: "read_at (file_content cfg chs) (?off + 8) 8 = Some (LE_PutUint64 (rx_Seq (hd (blk_frames (bl ! i)))))"
    unfolding t by (subst read_chunk [of i chs 8]) (use i d(3) ch in \<open>simp_all add: block_header_def\<close>)
  show ?thesis
  proof (cases "jcf_Compression cfg = CompressionNone")
    case True
    then show ?thesis
      using r8 off f(2,3) by (simp add: base_seq_def le_simps)
  next
    case False
    have "chunk_offsets 16 chs ! i = ?off"
      using i d(3) by (simp add: nth_chunk_offsets)
    then show ?thesis
      using read_infos_base [of "file_content cfg chs" "chunk_offsets 16 chs" "jr_blocks jr" i] infos False r16 i d(3) f(3)
      by (simp add: base_seq_def block_header_def le_simps)
  qed
qed

section \<open>Seeking in the file of a run\<close>

lemma block_start:
  assumes "i < length fss" "[] \<notin> set fss"
  shows "concat fss ! length (concat (take i fss)) = hd (fss ! i)" "length (concat (take i fss)) < length (concat fss)"
proof -
  have "fss ! i \<noteq> []"
    using assms by (metis nth_mem)
  then show "concat fss ! length (concat (take i fss)) = hd (fss ! i)" "length (concat (take i fss)) < length (concat fss)"
    using concat_split [OF assms(1)] by (auto simp: nth_append hd_conv_nth length_concat)
qed

lemma numbered_starts:
  assumes "numbered (concat fss)" "unat (rx_Seq (hd (concat fss))) + length (concat fss) \<le> 2 ^ 64" "[] \<notin> set fss" "i \<le> j" "j < length fss"
  shows "rx_Seq (hd (fss ! i)) \<le> rx_Seq (hd (fss ! j))"
proof -
  let ?q = "rx_Seq (hd (concat fss))"
  have start: "unat (rx_Seq (hd (fss ! k))) = unat ?q + length (concat (take k fss))" if "k < length fss" for k
  proof -
    have "rx_Seq (hd (fss ! k)) = ?q + of_nat (length (concat (take k fss)))"
      using numbered_nth [OF assms(1)] block_start [OF that assms(3)] by metis
    then show ?thesis
      using block_start(2) [OF that assms(3)] assms(2) by (simp add: unat_word_ariths unat_of_nat take_bit_eq_mod)
  qed
  have "concat (take j fss) = concat (take i fss) @ concat (drop i (take j fss))"
    using assms(4) by (metis append_take_drop_id concat_append min.absorb1 take_take)
  then show ?thesis
    using start [of i] start [of j] assms(4,5) by (simp add: word_le_nat_alt)
qed

text \<open>Seeking positions the reader at the start of the block, and reading delivers the rest.\<close>

lemma seek_positions:
  assumes src: "source_of z bl jr" "jr_err jr = None" "bl \<noteq> []" and base: "\<And>i. i < length bl \<Longrightarrow> base_seq jr i = Some (rx_Seq (hd (blk_frames (bl ! i))))"
    and num: "numbered (concat (map blk_frames bl))" "unat (rx_Seq (hd (concat (map blk_frames bl)))) + length (concat (map blk_frames bl)) \<le> 2 ^ 64"
    and k: "k = block_for (length bl) (\<lambda>i. rx_Seq (hd (blk_frames (bl ! i))) \<le> q)"
  shows "\<exists>jr1. SeekToSeq z q jr = (jr1, None) \<and> at_block bl k 0 jr1 \<and> source_of z bl jr1 \<and> k < length bl"
proof -
  have jr: "jr_version jr = Version2" "length (jr_blocks jr) = length bl" "list_all desc_ok bl"
    using src(1) by (auto simp: source_of_def)
  have ne: "[] \<notin> set (map blk_frames bl)"
    using jr(3) by (auto simp: list_all_iff desc_ok_def good_block_def)
  have kl: "k < length bl"
    using src(3) block_for_less by (simp add: k)
  have sorted: "rx_Seq (hd (blk_frames (bl ! i))) \<le> rx_Seq (hd (blk_frames (bl ! j)))" if "i \<le> j" "j < length bl" for i j
    using numbered_starts [OF num ne that(1)] that by simp
  have blocks: "jr_blocks jr \<noteq> []"
    using jr(2) src(3) by auto
  have seek: "SeekToSeq z q jr = loadBlock z k (cancelPrefetch jr)"
    unfolding k jr(2) [symmetric] by (rule SeekToSeq_loads [OF jr(1) blocks]) (simp_all only: jr(2) base sorted)
  have "jr_err (cancelPrefetch jr) = None"
    using src(2) by (auto simp: cancelPrefetch_def split: option.split)
  then show ?thesis
    using loadBlock_source [OF cancelPrefetch_source [OF src(1)] _ kl] kl unfolding seek by blast
qed

lemma seek_then_read:
  assumes src: "source_of z bl jr" "before_block 0 jr" "bl \<noteq> []" and base: "\<And>i. i < length bl \<Longrightarrow> base_seq jr i = Some (rx_Seq (hd (blk_frames (bl ! i))))"
    and num: "numbered (concat (map blk_frames bl))" "unat (rx_Seq (hd (concat (map blk_frames bl)))) + length (concat (map blk_frames bl)) \<le> 2 ^ 64"
    and fuel: "length (concat (map blk_frames bl)) < fuel" and k: "k = block_for (length bl) (\<lambda>i. rx_Seq (hd (blk_frames (bl ! i))) \<le> q)"
  shows "\<exists>jr1 jr2. SeekToSeq z q jr = (jr1, None) \<and> drain z fuel jr1 = Some (map record_of (concat (map blk_frames (drop k bl))), jr2) \<and> jr_err jr2 = None"
proof -
  have "jr_err jr = None"
    using src(2) by (simp add: before_block_def)
  then obtain jr1 where seek: "SeekToSeq z q jr = (jr1, None)" and jr1: "at_block bl k 0 jr1" "source_of z bl jr1" and kl: "k < length bl"
    using seek_positions [OF src(1) _ src(3) base num k] by blast
  have parts: "concat (map blk_frames bl) = concat (map blk_frames (take k bl)) @ concat (map blk_frames (drop k bl))"
    by (simp flip: concat_append map_append)
  have "numbered (concat (map blk_frames (drop k bl)))"
    using num(1) unfolding numbered_def parts successively_append_iff by blast
  then have out: "rest_out bl k 0 = map record_of (concat (map blk_frames (drop k bl)))"
    using blocks_out_numbered [of "drop k bl"] Cons_nth_drop_Suc [OF kl, symmetric] by (simp add: rest_out_def)
  have "length (concat (map blk_frames (drop k bl))) \<le> length (concat (map blk_frames bl))"
    unfolding parts by simp
  then have "length (rest_out bl k 0) < fuel"
    using fuel by (simp add: out)
  then have "\<exists>jr2. drain z fuel jr1 = Some (rest_out bl k 0, jr2) \<and> jr_err jr2 = None"
    by (intro drain_from [OF jr1(2,1) kl]) simp_all
  then show ?thesis
    unfolding seek out by blast
qed



end
