(* ===== verification/Keeper.thy ===== *)
theory Keeper
  imports JournalWriter "HOL-Library.List_Lexorder" "HOL-Library.Char_ord"
begin

text \<open>
  The journal keeper (\<^verbatim>\<open>keeper/keeper.go\<close>): retention, archiving and the pause of the recording. The files
  are those of the disk of the journal writers, an archived file has an empty marker file beside it.
  The archive script is a parameter that answers a batch of files; what it does to the disk and
  failing removals are left out. A sort of files with equal timestamps is taken to be stable.
\<close>

section \<open>Configuration and state\<close>

record RotatedFile =
  rf_Path :: string
  rf_InstanceID :: string

datatype ArchiveTrigger = ArchiveDisabled | ArchiveOnRotate | ArchiveBeforeExpire

datatype OverflowPolicy = OverflowDeleteUnarchived | OverflowPauseRecording

record KeeperDir =
  kd_Dir :: string
  kd_InstanceID :: string

text \<open>\<open>kc_DirFunc\<close> is the callback that discovers the directories, \<open>kc_OnPauseChange\<close> whether a pause callback is set.\<close>

record KeeperConfig =
  kc_Dirs :: "KeeperDir list"
  kc_DirFunc :: "(disk \<Rightarrow> KeeperDir list) option"
  kc_MaxAge :: duration
  kc_MinKeep :: duration
  kc_MaxSize :: int
  kc_SoftPct :: int
  kc_OverflowPolicy :: OverflowPolicy
  kc_ArchiveCommand :: string
  kc_ArchiveTrigger :: ArchiveTrigger
  kc_OnPauseChange :: bool

definition hasArchive :: "KeeperConfig \<Rightarrow> bool" where
  "hasArchive c \<longleftrightarrow> kc_ArchiveCommand c \<noteq> [] \<and> kc_ArchiveTrigger c \<noteq> ArchiveDisabled"

record archiveResponse =
  ar_Path :: string
  ar_Status :: string
  ar_Error :: string

record pendingFile =
  pe_path :: string
  pe_instanceID :: string
  pe_size :: int
  pe_created :: gotime

text \<open>The parameter: what the archive script answers to a batch of files.\<close>

type_synonym script = "pendingFile list \<Rightarrow> archiveResponse list"

record JournalKeeper =
  jk_cfg :: KeeperConfig
  jk_rotateCh :: "RotatedFile list"
  jk_pending :: "pendingFile list"
  jk_backoff :: duration
  jk_paused :: "(string, bool) gomap"
  jk_disk :: disk
  jk_pauseCalls :: "(KeeperDir \<times> bool) list"

abbreviation minute :: duration where
  "minute \<equiv> 60000000000"

definition keeperInitialBackoff :: duration where
  "keeperInitialBackoff = minute"

definition keeperMaxBackoff :: duration where
  "keeperMaxBackoff = 60 * minute"

definition NewJournalKeeper :: "KeeperConfig \<Rightarrow> disk \<Rightarrow> JournalKeeper" where
  "NewJournalKeeper cfg d =
     \<lparr>jk_cfg = cfg, jk_rotateCh = [], jk_pending = [], jk_backoff = 0, jk_paused = [], jk_disk = d, jk_pauseCalls = []\<rparr>"

definition SetOnPauseChange :: "bool \<Rightarrow> JournalKeeper \<Rightarrow> JournalKeeper" where
  "SetOnPauseChange on k = k\<lparr>jk_cfg := (jk_cfg k)\<lparr>kc_OnPauseChange := on\<rparr>\<rparr>"

text \<open>A notification is dropped when the channel of capacity 64 is full.\<close>

definition Send :: "RotatedFile \<Rightarrow> JournalKeeper \<Rightarrow> JournalKeeper" where
  "Send rf k = (if length (jk_rotateCh k) < 64 then k\<lparr>jk_rotateCh := jk_rotateCh k @ [rf]\<rparr> else k)"

section \<open>Files and their markers\<close>

definition marker :: "string \<Rightarrow> string" where
  "marker path = path @ ''.archived''"

definition isArchived :: "string \<Rightarrow> disk \<Rightarrow> bool" where
  "isArchived path d \<longleftrightarrow> gm_get d (marker path) \<noteq> None"

definition markArchived :: "string \<Rightarrow> disk \<Rightarrow> disk" where
  "markArchived path d = gm_put (marker path) [] d"

definition deleteFile :: "string \<Rightarrow> disk \<Rightarrow> disk" where
  "deleteFile path d = gm_del (marker path) (gm_del path d)"

text \<open>\<^verbatim>\<open>os.ReadDir\<close>: the names of the files in a directory, in the order of names.\<close>

definition join_path :: "string \<Rightarrow> string \<Rightarrow> string" where
  "join_path dir name = dir @ ''/'' @ name"

definition name_in :: "string \<Rightarrow> string \<Rightarrow> string option" where
  "name_in dir path =
     (if HasPrefix path (dir @ ''/'') \<and> CHR ''/'' \<notin> set (drop (length dir + 1) path) then Some (drop (length dir + 1) path) else None)"

definition ReadDir :: "string \<Rightarrow> disk \<Rightarrow> string list" where
  "ReadDir dir d = sort (remdups (List.map_filter (name_in dir \<circ> fst) d))"

section \<open>Timestamps in file names\<close>

text \<open>
  \<^verbatim>\<open>time.Parse("20060102T150405.000Z", s)\<close>: fixed-width digit fields (\<^verbatim>\<open>getnum\<close>, \<^verbatim>\<open>atoi\<close>), the fraction after a
  point or a comma and read by an \<^verbatim>\<open>atoi\<close> that allows a sign, and the ranges of the fields.
\<close>

definition days_from_civil :: "int \<Rightarrow> int \<Rightarrow> int \<Rightarrow> int" where
  "days_from_civil y m d =
     (let y' = (if m \<le> 2 then y - 1 else y); era = y' div 400; yoe = y' mod 400;
          mp = (if m > 2 then m - 3 else m + 9);
          doy = (153 * mp + 2) div 5 + d - 1;
          doe = yoe * 365 + yoe div 4 - yoe div 100 + doy
      in era * 146097 + doe - 306)"

definition isLeap :: "int \<Rightarrow> bool" where
  "isLeap y \<longleftrightarrow> y mod 4 = 0 \<and> (y mod 100 \<noteq> 0 \<or> y mod 400 = 0)"

definition daysIn :: "int \<Rightarrow> int \<Rightarrow> int" where
  "daysIn m y = (if m = 2 then (if isLeap y then 29 else 28) else if m \<in> {4, 6, 9, 11} then 30 else 31)"

definition is_digit :: "char \<Rightarrow> bool" where
  "is_digit c \<longleftrightarrow> 48 \<le> bcode c \<and> bcode c \<le> 57"

definition digits :: "string \<Rightarrow> int option" where
  "digits s = (if s \<noteq> [] \<and> list_all is_digit s then Some (int (foldl (\<lambda>n c. 10 * n + (bcode c - 48)) 0 s)) else None)"

definition num_field :: "nat \<Rightarrow> string \<Rightarrow> (int \<times> string) option" where
  "num_field w s = (if length s < w then None else map_option (\<lambda>n. (n, drop w s)) (digits (take w s)))"

definition lit_field :: "char \<Rightarrow> string \<Rightarrow> string option" where
  "lit_field c s = (case s of x # xs \<Rightarrow> if x = c then Some xs else None | [] \<Rightarrow> None)"

definition frac_field :: "string \<Rightarrow> (int \<times> string) option" where
  "frac_field s =
     (if length s < 4 \<or> hd s \<notin> {CHR ''.'', CHR '',''} then None
      else let f = take 3 (drop 1 s); neg = (hd f = CHR ''-''); u = (if hd f \<in> {CHR ''-'', CHR ''+''} then tl f else f)
           in case digits u of
                None \<Rightarrow> None
              | Some n \<Rightarrow> if neg \<and> n > 0 then None else Some (n * 10 ^ 6, drop 4 s))"

definition time_Parse :: "string \<Rightarrow> gotime option" where
  "time_Parse s0 = do {
     (y, s1) \<leftarrow> num_field 4 s0;
     (mo, s2) \<leftarrow> num_field 2 s1;
     (d, s3) \<leftarrow> num_field 2 s2;
     s4 \<leftarrow> lit_field (CHR ''T'') s3;
     (h, s5) \<leftarrow> num_field 2 s4;
     (mi, s6) \<leftarrow> num_field 2 s5;
     (se, s7) \<leftarrow> num_field 2 s6;
     (ns, s8) \<leftarrow> frac_field s7;
     s9 \<leftarrow> lit_field (CHR ''Z'') s8;
     if s9 = [] \<and> 1 \<le> mo \<and> mo \<le> 12 \<and> h < 24 \<and> mi < 60 \<and> se < 60 \<and> 1 \<le> d \<and> d \<le> daysIn mo y
     then Some (((days_from_civil y mo d * 24 + h) * 60 + mi) * 60 * 10 ^ 9 + se * 10 ^ 9 + ns)
     else None
   }"

definition TrimSuffix :: "string \<Rightarrow> string \<Rightarrow> string" where
  "TrimSuffix s suf = (case CutSuffix s suf of Some t \<Rightarrow> t | None \<Rightarrow> s)"

text \<open>\<^verbatim>\<open>strings.LastIndex(name, "-")\<close> cuts the name after its last hyphen.\<close>

definition after_last_hyphen :: "string \<Rightarrow> string option" where
  "after_last_hyphen s = (if CHR ''-'' \<in> set s then Some (rev (takeWhile (\<lambda>c. c \<noteq> CHR ''-'') (rev s))) else None)"

definition parseTimestampFromFilename :: "string \<Rightarrow> gotime" where
  "parseTimestampFromFilename name =
     (case after_last_hyphen (TrimSuffix name ''.lpj'') of
        None \<Rightarrow> zeroTime
      | Some tsPart \<Rightarrow> if tsPart = [] then zeroTime else case time_Parse tsPart of None \<Rightarrow> zeroTime | Some t \<Rightarrow> t)"

section \<open>Archiving\<close>

definition isPending :: "string \<Rightarrow> JournalKeeper \<Rightarrow> bool" where
  "isPending path k \<longleftrightarrow> list_ex (\<lambda>p. pe_path p = path) (jk_pending k)"

text \<open>Whether the \<open>i\<close>-th file of a batch was archived according to the answers of the script.\<close>

definition archived_ok :: "archiveResponse list \<Rightarrow> nat \<Rightarrow> bool" where
  "archived_ok results i \<longleftrightarrow> i < length results \<and> ar_Status (results ! i) = ''ok''"

definition batch :: "bool \<Rightarrow> archiveResponse list \<Rightarrow> pendingFile list \<Rightarrow> pendingFile list" where
  "batch ok results files = map snd (filter (\<lambda>(i, _). archived_ok results i = ok) (enumerate 0 files))"

definition archiveFiles :: "script \<Rightarrow> pendingFile list \<Rightarrow> JournalKeeper \<Rightarrow> JournalKeeper" where
  "archiveFiles script files k =
     (if files = [] \<or> kc_ArchiveCommand (jk_cfg k) = [] then k
      else let results = script files;
               d = fold (markArchived \<circ> pe_path) (batch True results files) (jk_disk k);
               failed = filter (\<lambda>p. \<not> isPending (pe_path p) k) (batch False results files)
           in if failed \<noteq> [] then k\<lparr>jk_disk := d, jk_pending := jk_pending k @ failed\<rparr>
              else k\<lparr>jk_disk := d, jk_backoff := (if jk_pending k = [] then 0 else jk_backoff k)\<rparr>)"

definition retryArchive :: "script \<Rightarrow> JournalKeeper \<Rightarrow> JournalKeeper" where
  "retryArchive script k =
     (if jk_pending k = [] then k
      else let alive = filter (\<lambda>p. gm_get (jk_disk k) (pe_path p) \<noteq> None) (jk_pending k)
           in if alive = [] then k\<lparr>jk_pending := [], jk_backoff := 0\<rparr>
              else let results = script alive;
                       d = fold (markArchived \<circ> pe_path) (batch True results alive) (jk_disk k);
                       stillFailed = batch False results alive
                   in k\<lparr>jk_disk := d, jk_pending := stillFailed,
                        jk_backoff := (if stillFailed = [] then 0 else min (jk_backoff k * 2) keeperMaxBackoff)\<rparr>)"

text \<open>\<^verbatim>\<open>filepath.Base\<close> of a path that does not end in a slash.\<close>

definition base_name :: "string \<Rightarrow> string" where
  "base_name path = rev (takeWhile (\<lambda>c. c \<noteq> CHR ''/'') (rev path))"

definition handleRotation :: "script \<Rightarrow> RotatedFile \<Rightarrow> JournalKeeper \<Rightarrow> JournalKeeper" where
  "handleRotation script rf k =
     (if kc_ArchiveTrigger (jk_cfg k) \<noteq> ArchiveOnRotate then k
      else case gm_get (jk_disk k) (rf_Path rf) of
             None \<Rightarrow> k
           | Some content \<Rightarrow>
               archiveFiles script
                 [\<lparr>pe_path = rf_Path rf, pe_instanceID = rf_InstanceID rf, pe_size = int (length content),
                   pe_created = parseTimestampFromFilename (base_name (rf_Path rf))\<rparr>] k)"

section \<open>Retention\<close>

record journalFileInfo =
  fi_path :: string
  fi_instanceID :: string
  fi_size :: int
  fi_created :: gotime
  fi_archived :: bool

definition makePending :: "journalFileInfo \<Rightarrow> pendingFile" where
  "makePending f = \<lparr>pe_path = fi_path f, pe_instanceID = fi_instanceID f, pe_size = fi_size f, pe_created = fi_created f\<rparr>"

definition file_info :: "KeeperDir \<Rightarrow> disk \<Rightarrow> string \<Rightarrow> journalFileInfo" where
  "file_info dir d name =
     (let path = join_path (kd_Dir dir) name
      in \<lparr>fi_path = path, fi_instanceID = kd_InstanceID dir,
          fi_size = (case gm_get d path of None \<Rightarrow> 0 | Some c \<Rightarrow> int (length c)),
          fi_created = parseTimestampFromFilename name, fi_archived = isArchived path d\<rparr>)"

definition dir_files :: "KeeperDir \<Rightarrow> disk \<Rightarrow> journalFileInfo list" where
  "dir_files dir d = map (file_info dir d) (filter (\<lambda>n. CutSuffix n ''.lpj'' \<noteq> None) (ReadDir (kd_Dir dir) d))"

definition softThreshold :: "KeeperConfig \<Rightarrow> int" where
  "softThreshold c =
     (if kc_MaxSize c > 0 \<and> hasArchive c \<and> kc_SoftPct c > 0
      then let x = i64_wrap (kc_MaxSize c * kc_SoftPct c) in if x \<ge> 0 then x div 100 else - ((- x) div 100)
      else 0)"

definition over_cap :: "KeeperConfig \<Rightarrow> int \<Rightarrow> bool" where
  "over_cap c totalSize \<longleftrightarrow> kc_MaxSize c > 0 \<and> totalSize > kc_MaxSize c"

definition hard_expire :: "KeeperConfig \<Rightarrow> gotime \<Rightarrow> int \<Rightarrow> journalFileInfo \<Rightarrow> bool" where
  "hard_expire c now totalSize f \<longleftrightarrow>
     (if over_cap c totalSize then True
      else if kc_MaxAge c > 0 then
        let age = time_Sub now (fi_created f)
        in if kc_MinKeep c > 0 then age > kc_MaxAge c \<and> age > kc_MinKeep c else age > kc_MaxAge c
      else False)"

record scan_state =
  sc_disk :: disk
  sc_toArchive :: "pendingFile list"
  sc_needPause :: bool

text \<open>What happens to an expired file, and the loop over the files, oldest first.\<close>

definition expire_file :: "JournalKeeper \<Rightarrow> int \<Rightarrow> journalFileInfo \<Rightarrow> scan_state \<Rightarrow> scan_state" where
  "expire_file k totalSize f s =
     (if hasArchive (jk_cfg k) \<and> \<not> fi_archived f then
        if over_cap (jk_cfg k) totalSize \<and> isPending (fi_path f) k then
          (case kc_OverflowPolicy (jk_cfg k) of
             OverflowDeleteUnarchived \<Rightarrow> s\<lparr>sc_disk := deleteFile (fi_path f) (sc_disk s)\<rparr>
           | OverflowPauseRecording \<Rightarrow> s\<lparr>sc_needPause := True\<rparr>)
        else if \<not> isPending (fi_path f) k then s\<lparr>sc_toArchive := sc_toArchive s @ [makePending f]\<rparr>
        else s
      else s\<lparr>sc_disk := deleteFile (fi_path f) (sc_disk s)\<rparr>)"

definition soft_files :: "JournalKeeper \<Rightarrow> journalFileInfo list \<Rightarrow> pendingFile list" where
  "soft_files k files = map makePending (filter (\<lambda>f. \<not> fi_archived f \<and> \<not> isPending (fi_path f) k) files)"

fun scan_files :: "JournalKeeper \<Rightarrow> gotime \<Rightarrow> int \<Rightarrow> journalFileInfo list \<Rightarrow> scan_state \<Rightarrow> scan_state" where
  "scan_files k now totalSize [] s = s"
| "scan_files k now totalSize (f # fs) s =
     (if hard_expire (jk_cfg k) now totalSize f
      then scan_files k now (totalSize - fi_size f) fs (expire_file k totalSize f s)
      else if softThreshold (jk_cfg k) = 0 \<or> totalSize \<le> softThreshold (jk_cfg k) then s
      else s\<lparr>sc_toArchive := sc_toArchive s @ soft_files k (f # fs)\<rparr>)"

definition sorted_files :: "KeeperDir \<Rightarrow> disk \<Rightarrow> journalFileInfo list" where
  "sorted_files dir d = sort_key fi_created (dir_files dir d)"

definition scan_result :: "KeeperDir \<Rightarrow> gotime \<Rightarrow> JournalKeeper \<Rightarrow> scan_state" where
  "scan_result dir now k =
     (let files = sorted_files dir (jk_disk k)
      in scan_files k now (sum_list (map fi_size files)) files \<lparr>sc_disk = jk_disk k, sc_toArchive = [], sc_needPause = False\<rparr>)"

definition set_pause :: "KeeperDir \<Rightarrow> bool \<Rightarrow> JournalKeeper \<Rightarrow> JournalKeeper" where
  "set_pause dir needPause k =
     (let wasPaused = (gm_get (jk_paused k) (kd_Dir dir) = Some True)
      in if needPause \<noteq> wasPaused
         then k\<lparr>jk_paused := gm_put (kd_Dir dir) needPause (jk_paused k),
                jk_pauseCalls := jk_pauseCalls k @ (if kc_OnPauseChange (jk_cfg k) then [(dir, needPause)] else [])\<rparr>
         else k)"

text \<open>\<open>readable\<close> tells which directories can be listed.\<close>

definition scanDir :: "script \<Rightarrow> (string \<Rightarrow> bool) \<Rightarrow> gotime \<Rightarrow> KeeperDir \<Rightarrow> JournalKeeper \<Rightarrow> JournalKeeper" where
  "scanDir script readable now dir k =
     (if \<not> readable (kd_Dir dir) then k
      else let s = scan_result dir now k
           in set_pause dir (sc_needPause s) (archiveFiles script (sc_toArchive s) (k\<lparr>jk_disk := sc_disk s\<rparr>)))"

definition keeper_dirs :: "JournalKeeper \<Rightarrow> KeeperDir list" where
  "keeper_dirs k = (case kc_DirFunc (jk_cfg k) of None \<Rightarrow> kc_Dirs (jk_cfg k) | Some f \<Rightarrow> f (jk_disk k))"

text \<open>\<open>active\<close> tells for each directory whether the context is still alive when its turn comes.\<close>

definition scanAll :: "script \<Rightarrow> (string \<Rightarrow> bool) \<Rightarrow> (KeeperDir \<Rightarrow> bool) \<Rightarrow> gotime \<Rightarrow> JournalKeeper \<Rightarrow> JournalKeeper" where
  "scanAll script readable active now k = fold (scanDir script readable now) (takeWhile active (keeper_dirs k)) k"

definition unarchived :: "JournalKeeper \<Rightarrow> KeeperDir \<Rightarrow> pendingFile list" where
  "unarchived k dir =
     map makePending (filter (\<lambda>f. \<not> fi_archived f \<and> \<not> isPending (fi_path f) k) (dir_files dir (jk_disk k)))"

definition archiveUnarchived :: "script \<Rightarrow> (string \<Rightarrow> bool) \<Rightarrow> (KeeperDir \<Rightarrow> bool) \<Rightarrow> JournalKeeper \<Rightarrow> JournalKeeper" where
  "archiveUnarchived script readable active k =
     (if kc_ArchiveCommand (jk_cfg k) = [] \<or> kc_ArchiveTrigger (jk_cfg k) \<noteq> ArchiveOnRotate \<or> \<not> list_all active (keeper_dirs k) then k
      else archiveFiles script (concat (map (unarchived k) (filter (\<lambda>d. readable (kd_Dir d)) (keeper_dirs k)))) k)"

section \<open>The loop\<close>

text \<open>
  \<^verbatim>\<open>Run\<close>: the start-up scan and sweep, then one event at a time; after each event the retry timer is armed
  if files are pending. The retry event can only come while the timer is armed.
\<close>

datatype keeper_event = Rotated | ScanTick gotime | RetryFired

record keeper_loop =
  kl_k :: JournalKeeper
  kl_armed :: bool

definition arm_retry :: "keeper_loop \<Rightarrow> keeper_loop" where
  "arm_retry l =
     (if jk_pending (kl_k l) \<noteq> [] \<and> \<not> kl_armed l
      then l\<lparr>kl_k := (kl_k l)\<lparr>jk_backoff := (if jk_backoff (kl_k l) = 0 then keeperInitialBackoff else jk_backoff (kl_k l))\<rparr>, kl_armed := True\<rparr>
      else l)"

definition keeper_start :: "script \<Rightarrow> (string \<Rightarrow> bool) \<Rightarrow> (KeeperDir \<Rightarrow> bool) \<Rightarrow> gotime \<Rightarrow> JournalKeeper \<Rightarrow> keeper_loop" where
  "keeper_start script readable active now k =
     \<lparr>kl_k = archiveUnarchived script readable active (scanAll script readable active now k), kl_armed = False\<rparr>"

definition keeper_step :: "script \<Rightarrow> (string \<Rightarrow> bool) \<Rightarrow> (KeeperDir \<Rightarrow> bool) \<Rightarrow> keeper_event \<Rightarrow> keeper_loop \<Rightarrow> keeper_loop" where
  "keeper_step script readable active ev l =
     (case ev of
        Rotated \<Rightarrow>
          (case jk_rotateCh (kl_k l) of
             [] \<Rightarrow> l
           | rf # rest \<Rightarrow> arm_retry (l\<lparr>kl_k := handleRotation script rf ((kl_k l)\<lparr>jk_rotateCh := rest\<rparr>)\<rparr>))
      | ScanTick now \<Rightarrow> arm_retry (l\<lparr>kl_k := scanAll script readable active now (kl_k l)\<rparr>)
      | RetryFired \<Rightarrow>
          if kl_armed l then arm_retry (l\<lparr>kl_k := retryArchive script (kl_k l), kl_armed := False\<rparr>) else l)"

text \<open>At the end the notifications still in the channel are handled.\<close>

definition keeper_shutdown :: "script \<Rightarrow> JournalKeeper \<Rightarrow> JournalKeeper" where
  "keeper_shutdown script k = fold (handleRotation script) (jk_rotateCh k) (k\<lparr>jk_rotateCh := []\<rparr>)"

section \<open>Settings\<close>

definition ParseArchiveTrigger :: "string \<Rightarrow> ArchiveTrigger option" where
  "ParseArchiveTrigger s =
     (if s \<in> {[], ''disabled''} then Some ArchiveDisabled
      else if s = ''on-rotate'' then Some ArchiveOnRotate
      else if s = ''before-expire'' then Some ArchiveBeforeExpire
      else None)"

fun ArchiveTrigger_String :: "ArchiveTrigger \<Rightarrow> string" where
  "ArchiveTrigger_String ArchiveOnRotate = ''on-rotate''"
| "ArchiveTrigger_String ArchiveBeforeExpire = ''before-expire''"
| "ArchiveTrigger_String ArchiveDisabled = ''disabled''"

definition ParseOverflowPolicy :: "string \<Rightarrow> OverflowPolicy option" where
  "ParseOverflowPolicy s =
     (if s \<in> {[], ''delete-unarchived''} then Some OverflowDeleteUnarchived
      else if s = ''pause-recording'' then Some OverflowPauseRecording
      else None)"

fun OverflowPolicy_String :: "OverflowPolicy \<Rightarrow> string" where
  "OverflowPolicy_String OverflowPauseRecording = ''pause-recording''"
| "OverflowPolicy_String OverflowDeleteUnarchived = ''delete-unarchived''"

end
