(* ===== verification/ConsumerJournal.thy ===== *)
theory ConsumerJournal
  imports Consumer JournalSeek Keeper
begin

text \<open>
  The journal fallback of the consumer (\<^verbatim>\<open>readFromJournal\<close>, \<^verbatim>\<open>readFirstSeq\<close>, \<^verbatim>\<open>findJournalFile\<close>,
  \<^verbatim>\<open>openJournalFile\<close>, \<^verbatim>\<open>closeJournal\<close> of \<^verbatim>\<open>consumer.go\<close>): a consumer that is behind the ring reads the frames
  from the journal files of the broker's directory. The broker runs on meanwhile, so every pass of the loop
  has an observation of its own: the choice of the \<^verbatim>\<open>select\<close>, the tail of the ring at the first and at the
  second \<^verbatim>\<open>ringRange\<close> of the pass, and whether the context is cancelled. A panic of the reader is \<open>None\<close>.
\<close>

section \<open>The files\<close>

text \<open>\<open>js_files\<close> is \<open>None\<close> for a nil slice.\<close>

record journal_state =
  js_files :: "string list option"
  js_idx :: nat
  js_reader :: "Reader option"

definition no_journal :: journal_state where
  "no_journal = \<lparr>js_files = None, js_idx = 0, js_reader = None\<rparr>"

definition closeCurrentFile :: "journal_state \<Rightarrow> journal_state" where
  "closeCurrentFile js = js\<lparr>js_reader := None\<rparr>"

definition closeJournal :: "journal_state \<Rightarrow> journal_state" where
  "closeJournal js = (closeCurrentFile js)\<lparr>js_files := None\<rparr>"

text \<open>\<^verbatim>\<open>filepath.Glob(dir + "/*.lpj")\<close> for a directory name without pattern characters, sorted.\<close>

definition journal_files :: "string \<Rightarrow> disk \<Rightarrow> string list" where
  "journal_files dir d = map (join_path dir) (filter (\<lambda>n. CutSuffix n ''.lpj'' \<noteq> None) (ReadDir dir d))"

definition readFirstSeq :: "zstd \<Rightarrow> disk \<Rightarrow> string \<Rightarrow> u64 option option" where
  "readFirstSeq z d path =
     (case gm_get d path of
        None \<Rightarrow> Some None
      | Some content \<Rightarrow>
          (case NewReader content of
             Inl _ \<Rightarrow> Some None
           | Inr r \<Rightarrow>
               if jr_version r \<noteq> Version2 \<or> jr_blocks r = [] then Some None
               else case SeekBlock z 0 r of
                      (_, Some _) \<Rightarrow> Some None
                    | (r1, None) \<Rightarrow>
                        (case Reader_Next z r1 of
                           None \<Rightarrow> None
                         | Some (r2, ok) \<Rightarrow> if \<not> ok \<or> FrameSeq r2 = 0 then Some None else Some (Some (FrameSeq r2)))))"

fun journal_candidates :: "zstd \<Rightarrow> disk \<Rightarrow> nat \<Rightarrow> string list \<Rightarrow> (nat \<times> u64) list option" where
  "journal_candidates z d i [] = Some []"
| "journal_candidates z d i (p # ps) =
     (case readFirstSeq z d p of
        None \<Rightarrow> None
      | Some q \<Rightarrow>
          (case journal_candidates z d (Suc i) ps of
             None \<Rightarrow> None
           | Some cs \<Rightarrow> Some (case q of Some s \<Rightarrow> if s > 0 then (i, s) # cs else cs | None \<Rightarrow> cs)))"

fun last_candidate :: "u64 \<Rightarrow> nat \<Rightarrow> (nat \<times> u64) list \<Rightarrow> nat" where
  "last_candidate seq result [] = result"
| "last_candidate seq result ((i, base) # cs) = (if base \<le> seq then last_candidate seq i cs else result)"

definition findJournalFile :: "zstd \<Rightarrow> disk \<Rightarrow> string list \<Rightarrow> u64 \<Rightarrow> nat option option" where
  "findJournalFile z d files seq =
     (case journal_candidates z d 0 files of
        None \<Rightarrow> None
      | Some [] \<Rightarrow> Some None
      | Some (c # cs) \<Rightarrow> Some (Some (last_candidate seq (fst c) (c # cs))))"

text \<open>The result tells whether the file could be opened.\<close>

definition openJournalFile :: "disk \<Rightarrow> string list \<Rightarrow> nat \<Rightarrow> journal_state \<Rightarrow> journal_state \<times> bool" where
  "openJournalFile d files idx js0 =
     (let js = closeCurrentFile js0
      in case gm_get d (files ! idx) of
           None \<Rightarrow> (js, False)
         | Some content \<Rightarrow>
             (case NewReader content of
                Inl _ \<Rightarrow> (js, False)
              | Inr r \<Rightarrow> if jr_version r \<noteq> Version2 then (js, False) else (js\<lparr>js_reader := Some (EnablePrefetch r)\<rparr>, True)))"

section \<open>The loop\<close>

datatype journal_replay_error = ReplayFallenBehind | ReplayGap u64 u64 | ReplayClosed | ReplayContext

datatype replay_result = RAgain | RCaughtUp | RError journal_replay_error | RFrame Frame

text \<open>The discovery of the files at the first call; the flag tells whether it succeeded.\<close>

definition begin_journal :: "zstd \<Rightarrow> disk \<Rightarrow> string \<Rightarrow> u64 \<Rightarrow> journal_state \<Rightarrow> (journal_state \<times> bool) option" where
  "begin_journal z d dir cursor js =
     (if js_files js \<noteq> None then Some (js, True)
      else let files = journal_files dir d
           in if files = [] then Some (js, False)
              else case findJournalFile z d files cursor of
                     None \<Rightarrow> None
                   | Some None \<Rightarrow> Some (js\<lparr>js_files := None, js_idx := 0\<rparr>, False)
                   | Some (Some idx) \<Rightarrow>
                       (case openJournalFile d files idx (js\<lparr>js_files := Some files, js_idx := idx\<rparr>) of
                          (js1, False) \<Rightarrow> Some (js1\<lparr>js_files := None\<rparr>, False)
                        | (js1, True) \<Rightarrow>
                            (case js_reader js1 of
                               None \<Rightarrow> None
                             | Some r \<Rightarrow>
                                 (case SeekToSeq z cursor r of
                                    (r1, Some _) \<Rightarrow> Some (closeJournal (js1\<lparr>js_reader := Some r1\<rparr>), False)
                                  | (r1, None) \<Rightarrow> Some (js1\<lparr>js_reader := Some r1\<rparr>, True)))))"

record observation =
  ob_pick :: nat
  ob_tail :: u64
  ob_tail2 :: u64
  ob_cancelled :: bool

definition replay_next_file :: "disk \<Rightarrow> observation \<Rightarrow> Consumer \<Rightarrow> journal_state \<Rightarrow> (Consumer \<times> journal_state) \<times> replay_result" where
  "replay_next_file d ob c js =
     (let files = (case js_files js of None \<Rightarrow> [] | Some fs \<Rightarrow> fs); js1 = js\<lparr>js_idx := js_idx js + 1\<rparr>
      in if js_idx js1 \<ge> length files then
           if c_cursor c \<ge> ob_tail2 ob then ((c, closeJournal js1), RCaughtUp) else ((c, js1), RError ReplayFallenBehind)
         else case openJournalFile d files (js_idx js1) js1 of
                (js2, False) \<Rightarrow> ((c, closeJournal js2), RError ReplayFallenBehind)
              | (js2, True) \<Rightarrow> ((c, js2), RAgain))"

definition journal_frame :: "Reader \<Rightarrow> Frame" where
  "journal_frame r =
     \<lparr>fr_Seq = FrameSeq r, fr_Timestamp = je_Timestamp (jr_entry r), fr_Header = je_Header (jr_entry r), fr_Bus = [],
      fr_Data = je_Data (jr_entry r), fr_json = None\<rparr>"

definition replay_frame :: "observation \<Rightarrow> Consumer \<Rightarrow> journal_state \<Rightarrow> Reader \<Rightarrow> (Consumer \<times> journal_state) \<times> replay_result" where
  "replay_frame ob c js r =
     (let seq = FrameSeq r; js1 = js\<lparr>js_reader := Some r\<rparr>
      in if seq = 0 then ((c, closeCurrentFile js1), RAgain)
         else if seq < c_cursor c then ((c, js1), RAgain)
         else if seq > c_cursor c then
           if c_cursor c \<ge> ob_tail2 ob then ((c, closeJournal js1), RCaughtUp)
           else ((c, js1), RError (ReplayGap (c_cursor c) seq))
         else let c' = c\<lparr>c_cursor := c_cursor c + 1\<rparr>
              in if \<not> resolvedFilter_matches (c_filter c) [] (je_Header (jr_entry r)) then ((c', js1), RAgain)
                 else ((c', js1), RFrame (journal_frame r)))"

definition replay_action :: "zstd \<Rightarrow> disk \<Rightarrow> observation \<Rightarrow> Consumer \<times> journal_state \<Rightarrow> ((Consumer \<times> journal_state) \<times> replay_result) option" where
  "replay_action z d ob = (\<lambda>(c, js).
     case select_ready (ob_pick ob) (ready_cases c (ob_cancelled ob) False) of
       Some SelDone \<Rightarrow> Some ((c, js), RError ReplayClosed)
     | Some SelCtx \<Rightarrow> Some ((c, js), RError ReplayContext)
     | _ \<Rightarrow>
         if c_cursor c \<ge> ob_tail ob then Some ((c, closeJournal js), RCaughtUp)
         else case js_reader js of
                None \<Rightarrow> Some (replay_next_file d ob c js)
              | Some r \<Rightarrow>
                  (case Reader_Next z r of
                     None \<Rightarrow> None
                   | Some (r1, True) \<Rightarrow> Some (replay_frame ob c js r1)
                   | Some (r1, False) \<Rightarrow>
                       if jr_err r1 \<noteq> None then Some ((c, closeCurrentFile (js\<lparr>js_reader := Some r1\<rparr>)), RAgain)
                       else Some (replay_next_file d ob c (js\<lparr>js_reader := Some r1\<rparr>))))"

text \<open>The loop passes as long as there are observations; \<open>RAgain\<close> as the result means that it is still running.\<close>

fun replay_loop :: "zstd \<Rightarrow> disk \<Rightarrow> observation list \<Rightarrow> Consumer \<times> journal_state \<Rightarrow> ((Consumer \<times> journal_state) \<times> replay_result) option" where
  "replay_loop z d [] s = Some (s, RAgain)"
| "replay_loop z d (ob # obs) s =
     (case replay_action z d ob s of
        None \<Rightarrow> None
      | Some (s', RAgain) \<Rightarrow> replay_loop z d obs s'
      | Some (s', res) \<Rightarrow> Some (s', res))"

definition readFromJournal_files :: "zstd \<Rightarrow> disk \<Rightarrow> string \<Rightarrow> observation list \<Rightarrow> Consumer \<times> journal_state \<Rightarrow> ((Consumer \<times> journal_state) \<times> replay_result) option" where
  "readFromJournal_files z d dir obs = (\<lambda>(c, js).
     if dir = [] then Some ((c, js), RError ReplayFallenBehind)
     else case begin_journal z d dir (c_cursor c) js of
            None \<Rightarrow> None
          | Some (js1, False) \<Rightarrow> Some ((c, js1), RError ReplayFallenBehind)
          | Some (js1, True) \<Rightarrow> replay_loop z d obs (c, js1))"

text \<open>\<^verbatim>\<open>Close\<close>; the removal from the broker is \<open>removeConsumer\<close> of the broker.\<close>

definition Consumer_Close :: "Consumer \<times> journal_state \<Rightarrow> Consumer \<times> journal_state" where
  "Consumer_Close = (\<lambda>(c, js). if c_done c then (c, js) else (c\<lparr>c_done := True\<rparr>, closeJournal js))"

end
