(* ===== verification/ConsumerReplay.thy ===== *)
theory ConsumerReplay
  imports ConsumerJournal
begin

text \<open>
  The journal fallback of the consumer delivers the frames of the journal files: the reader of a file
  is a stream of records, the files of consecutive writer runs follow each other without a gap, and
  repeated calls of \<^verbatim>\<open>readFromJournal\<close> deliver the frames from the cursor on, each once and in order.
\<close>

section \<open>A reader as a stream of records\<close>

definition streams :: "zstd \<Rightarrow> Reader \<Rightarrow> (u64 \<times> Entry) list \<Rightarrow> bool" where
  "streams z r recs \<longleftrightarrow> (\<exists>r'. drain z (Suc (length recs)) r = Some (recs, r') \<and> jr_err r' = None)"

lemma streams_Cons:
  assumes "streams z r (x # recs)"
  shows "\<exists>r1. Reader_Next z r = Some (r1, True) \<and> (FrameSeq r1, jr_entry r1) = x \<and> streams z r1 recs"
  using assms by (auto simp: streams_def simp del: drain.simps(2) simp: drain.simps(2) [of z "Suc (length recs)"]
      split: option.splits prod.splits bool.splits)

lemma streams_Nil: "streams z r [] \<Longrightarrow> \<exists>r1. Reader_Next z r = Some (r1, False) \<and> jr_err r1 = None"
  by (auto simp: streams_def split: option.splits prod.splits bool.splits)

text \<open>What the consumer relies on in a journal file that holds the records.\<close>

definition holds_records :: "zstd \<Rightarrow> bytes \<Rightarrow> (u64 \<times> Entry) list \<Rightarrow> bool" where
  "holds_records z content recs \<longleftrightarrow>
     recs \<noteq> [] \<and>
     (\<exists>r. NewReader content = Inr r \<and> jr_version r = Version2 \<and> jr_blocks r \<noteq> [] \<and>
        streams z (EnablePrefetch r) recs \<and>
        (\<exists>r1 r2. SeekBlock z 0 r = (r1, None) \<and> Reader_Next z r1 = Some (r2, True) \<and> FrameSeq r2 = fst (hd recs)) \<and>
        (\<forall>q. \<exists>r1 m. SeekToSeq z q (EnablePrefetch r) = (r1, None) \<and> m < length recs \<and> streams z r1 (drop m recs) \<and>
              (m = 0 \<or> fst (recs ! m) \<le> q)))"

section \<open>Finding the file\<close>

text \<open>The files of the directory and the records they hold, numbered one after the other from a positive number on.\<close>

definition journal_holds :: "zstd \<Rightarrow> disk \<Rightarrow> string list \<Rightarrow> (u64 \<times> Entry) list list \<Rightarrow> bool" where
  "journal_holds z d files recss \<longleftrightarrow>
     list_all2 (\<lambda>p recs. \<exists>content. gm_get d p = Some content \<and> holds_records z content recs) files recss"

definition counted :: "(u64 \<times> Entry) list \<Rightarrow> bool" where
  "counted recs \<longleftrightarrow>
     successively (\<lambda>x y. fst y = fst x + 1) recs \<and> (recs \<noteq> [] \<longrightarrow> fst (hd recs) \<noteq> 0 \<and> unat (fst (hd recs)) + length recs \<le> 2 ^ 64)"

lemma counted_nth:
  assumes "counted recs" "i < length recs"
  shows "unat (fst (recs ! i)) = unat (fst (hd recs)) + i"
  using assms(2)
proof (induction i)
  case 0
  then show ?case
    by (simp add: hd_conv_nth)
next
  case (Suc i)
  have "fst (recs ! Suc i) = fst (recs ! i) + 1"
    using assms(1) Suc.prems unfolding counted_def successively_conv_nth by blast
  moreover have "unat (fst (recs ! i)) + 1 < 2 ^ 64"
    using Suc assms(1) by (auto simp: counted_def)
  ultimately show ?case
    using Suc by (simp add: unat_word_ariths)
qed

lemma counted_le: "counted recs \<Longrightarrow> i < length recs \<Longrightarrow> j < length recs \<Longrightarrow> fst (recs ! i) \<le> fst (recs ! j) \<longleftrightarrow> i \<le> j"
  by (simp add: word_le_nat_alt counted_nth)

lemma counted_nonzero: "counted recs \<Longrightarrow> i < length recs \<Longrightarrow> fst (recs ! i) \<noteq> 0"
  using counted_nth [of recs i] by (cases recs) (auto simp: counted_def unat_eq_0)

lemma counted_less: "counted recs \<Longrightarrow> i < length recs \<Longrightarrow> j < length recs \<Longrightarrow> fst (recs ! i) < fst (recs ! j) \<longleftrightarrow> i < j"
  by (simp add: word_less_nat_alt counted_nth)

lemma readFirstSeq_holds:
  assumes "gm_get d p = Some content" "holds_records z content recs" "fst (hd recs) \<noteq> 0"
  shows "readFirstSeq z d p = Some (Some (fst (hd recs)))"
  using assms by (auto simp: readFirstSeq_def holds_records_def)

lemma journal_candidates_holds:
  assumes "journal_holds z d files recss" "\<forall>recs \<in> set recss. fst (hd recs) \<noteq> 0"
  shows "journal_candidates z d i files = Some (zip [i..<i + length files] (map (fst \<circ> hd) recss))"
  using assms unfolding journal_holds_def
proof (induction files recss arbitrary: i rule: list_all2_induct)
  case (Cons p ps recs recss)
  then obtain content where "gm_get d p = Some content" "holds_records z content recs"
    by blast
  then have "readFirstSeq z d p = Some (Some (fst (hd recs)))"
    using readFirstSeq_holds Cons.prems by simp
  moreover have "fst (hd recs) > 0"
    using Cons.prems by (simp add: word_gt_0)
  ultimately show ?case
    using Cons.IH [of "Suc i"] Cons.prems by (simp add: upt_conv_Cons del: upt_Suc)
qed simp

lemma last_candidate_in:
  assumes "last_candidate q i0 cs = i"
  shows "i = i0 \<or> (\<exists>b \<le> q. (i, b) \<in> set cs)"
  using assms
proof (induction cs arbitrary: i0)
  case (Cons c cs)
  then show ?case
    by (cases c) (fastforce split: if_splits)
qed simp

lemma journal_holds_length: "journal_holds z d files recss \<Longrightarrow> length files = length recss"
  by (auto simp: journal_holds_def dest: list_all2_lengthD)

lemma findJournalFile_holds:
  assumes j: "journal_holds z d files recss" and nz: "\<forall>recs \<in> set recss. fst (hd recs) \<noteq> 0"
    and first: "recss \<noteq> []" "fst (hd (hd recss)) \<le> q"
  shows "\<exists>i < length files. findJournalFile z d files q = Some (Some i) \<and> fst (hd (recss ! i)) \<le> q"
proof -
  have len: "length files = length recss"
    using journal_holds_length [OF j] .
  let ?cs = "zip [0..<length files] (map (fst \<circ> hd) recss)"
  have n: "0 < length files"
    using first(1) len by simp
  have "?cs = (0, fst (hd (recss ! 0))) # zip [1..<length files] (map (fst \<circ> hd) (tl recss))"
    using n first(1) by (cases recss) (simp_all add: upt_conv_Cons del: upt_Suc)
  then obtain b cs where cs: "?cs = (0, b) # cs"
    by blast
  define i where "i = last_candidate q 0 ?cs"
  consider "i = 0" | b where "b \<le> q" "(i, b) \<in> set ?cs"
    using last_candidate_in [OF i_def [symmetric]] by blast
  then have "i < length files \<and> fst (hd (recss ! i)) \<le> q"
  proof cases
    case 1
    then show ?thesis
      using first n by (simp add: hd_conv_nth)
  next
    case 2
    then show ?thesis
      using len by (auto simp: in_set_zip)
  qed
  moreover have "findJournalFile z d files q = Some (Some i)"
    using journal_candidates_holds [OF j nz, of 0] unfolding findJournalFile_def i_def by (simp add: cs)
  ultimately show ?thesis
    by blast
qed

section \<open>The loop\<close>

text \<open>The records the open reader and the files after it have left.\<close>

definition pending_records :: "zstd \<Rightarrow> string list \<Rightarrow> (u64 \<times> Entry) list list \<Rightarrow> (u64 \<times> Entry) list \<Rightarrow> journal_state \<Rightarrow> bool" where
  "pending_records z files recss rest js \<longleftrightarrow>
     js_files js = Some files \<and> js_idx js < length files \<and>
     (\<exists>r recs. js_reader js = Some r \<and> streams z r recs \<and> rest = recs @ concat (drop (Suc (js_idx js)) recss))"

definition record_frame :: "u64 \<times> Entry \<Rightarrow> Frame" where
  "record_frame x =
     \<lparr>fr_Seq = fst x, fr_Timestamp = je_Timestamp (snd x), fr_Header = je_Header (snd x), fr_Bus = [],
      fr_Data = je_Data (snd x), fr_json = None\<rparr>"

definition wanted :: "Consumer \<Rightarrow> u64 \<times> Entry \<Rightarrow> bool" where
  "wanted c x \<longleftrightarrow> resolvedFilter_matches (c_filter c) [] (je_Header (snd x))"

lemma open_next_file:
  assumes "journal_holds z d files recss" "i < length files" "js_files js = Some files" "js_idx js = i"
  shows "\<exists>js'. openJournalFile d files i js = (js', True) \<and> pending_records z files recss (concat (drop i recss)) js' \<and> js_idx js' = i"
proof -
  obtain content where c: "gm_get d (files ! i) = Some content" "holds_records z content (recss ! i)"
    using assms(1,2) unfolding journal_holds_def by (auto dest: list_all2_nthD)
  have "drop i recss = recss ! i # drop (Suc i) recss"
    using assms(1,2) by (auto simp: journal_holds_def Cons_nth_drop_Suc dest: list_all2_lengthD)
  then show ?thesis
    using c assms(2-4)
    by (auto simp: openJournalFile_def holds_records_def pending_records_def closeCurrentFile_def Let_def)
qed

text \<open>One pass of the loop: it takes the next record, or goes on to the next file.\<close>

definition still_running :: "observation \<Rightarrow> Consumer \<Rightarrow> bool" where
  "still_running ob c \<longleftrightarrow> \<not> c_done c \<and> \<not> ob_cancelled ob \<and> c_cursor c < ob_tail ob"

lemma replay_action_record:
  assumes "still_running ob c" "js_reader js = Some r" "streams z r (x # recs)" "js_files js = Some files" "js_idx js < length files"
  shows "\<exists>r1. replay_action z d ob (c, js) = Some (replay_frame ob c js r1) \<and> (FrameSeq r1, jr_entry r1) = x \<and>
    pending_records z files recss (recs @ concat (drop (Suc (js_idx js)) recss)) (js\<lparr>js_reader := Some r1\<rparr>)"
proof -
  obtain r1 where r1: "Reader_Next z r = Some (r1, True)" "(FrameSeq r1, jr_entry r1) = x" "streams z r1 recs"
    using streams_Cons [OF assms(3)] by blast
  then show ?thesis
    using assms(1,2,4,5)
    by (auto simp: replay_action_def still_running_def ready_cases_def select_ready_def pending_records_def)
qed

lemma replay_action_file:
  assumes "journal_holds z d files recss" "still_running ob c" "js_reader js = Some r" "streams z r []"
    and "js_files js = Some files" "Suc (js_idx js) < length files"
  shows "\<exists>js'. replay_action z d ob (c, js) = Some ((c, js'), RAgain) \<and> js_idx js' = Suc (js_idx js) \<and>
    pending_records z files recss (concat (drop (Suc (js_idx js)) recss)) js'"
proof -
  obtain r1 where r1: "Reader_Next z r = Some (r1, False)" "jr_err r1 = None"
    using streams_Nil [OF assms(4)] by blast
  let ?js = "js\<lparr>js_reader := Some r1, js_idx := Suc (js_idx js)\<rparr>"
  obtain js' where js': "openJournalFile d files (Suc (js_idx js)) ?js = (js', True)" "js_idx js' = Suc (js_idx js)"
    "pending_records z files recss (concat (drop (Suc (js_idx js)) recss)) js'"
    using open_next_file [OF assms(1,6), of ?js] assms(5) by auto
  then show ?thesis
    using r1 assms(2,3,5,6)
    by (auto simp: replay_action_def still_running_def ready_cases_def select_ready_def replay_next_file_def Let_def)
qed

text \<open>The passes that end with the next record, and how the loop goes on from there.\<close>

definition goes_on :: "zstd \<Rightarrow> disk \<Rightarrow> observation list \<Rightarrow> (Consumer \<times> journal_state) \<times> replay_result \<Rightarrow> ((Consumer \<times> journal_state) \<times> replay_result) option" where
  "goes_on z d obs out = (if snd out = RAgain then replay_loop z d obs (fst out) else Some out)"

lemma replay_loop_goes_on: "replay_action z d ob s = Some out \<Longrightarrow> replay_loop z d (ob # obs) s = goes_on z d obs out"
  by (cases out; cases "snd out") (auto simp: goes_on_def)

lemma loop_takes_record:
  assumes j: "journal_holds z d files recss"
  shows "pending_records z files recss (y # rest) js \<Longrightarrow> \<forall>ob \<in> set obs. still_running ob c \<Longrightarrow> length files \<le> length obs + js_idx js \<Longrightarrow>
    \<exists>ob obs' js1 r. replay_loop z d obs (c, js) = goes_on z d obs' (replay_frame ob c js1 r) \<and> (FrameSeq r, jr_entry r) = y \<and>
      pending_records z files recss rest (js1\<lparr>js_reader := Some r\<rparr>) \<and> set obs' \<subseteq> set obs \<and>
      Suc (length obs') + js_idx js1 = length obs + js_idx js"
proof (induction obs arbitrary: js)
  case Nil
  then show ?case
    by (simp add: pending_records_def)
next
  case (Cons ob obs)
  have run: "still_running ob c"
    using Cons.prems(2) by simp
  obtain r recs where p: "js_files js = Some files" "js_idx js < length files" "js_reader js = Some r" "streams z r recs"
    "y # rest = recs @ concat (drop (Suc (js_idx js)) recss)"
    using Cons.prems(1) by (auto simp: pending_records_def)
  show ?case
  proof (cases recs)
    case Nil
    have "Suc (js_idx js) < length files"
      using p(2,5) journal_holds_length [OF j] Nil by (cases "Suc (js_idx js) < length files") simp_all
    then obtain js1 where js1: "replay_action z d ob (c, js) = Some ((c, js1), RAgain)" "js_idx js1 = Suc (js_idx js)"
      "pending_records z files recss (y # rest) js1"
      using replay_action_file [OF j run p(3) _ p(1)] p(4,5) Nil by auto
    have "length files \<le> length obs + js_idx js1" "\<forall>ob \<in> set obs. still_running ob c"
      using Cons.prems(2,3) js1(2) by simp_all
    from Cons.IH [OF js1(3) this(2,1)] obtain ob' obs' js2 r' where
      l: "replay_loop z d obs (c, js1) = goes_on z d obs' (replay_frame ob' c js2 r')" "(FrameSeq r', jr_entry r') = y"
      "pending_records z files recss rest (js2\<lparr>js_reader := Some r'\<rparr>)" "set obs' \<subseteq> set obs"
      "Suc (length obs') + js_idx js2 = length obs + js_idx js1"
      by blast
    moreover have "replay_loop z d (ob # obs) (c, js) = replay_loop z d obs (c, js1)"
      using js1(1) by simp
    ultimately show ?thesis
      using js1(2) by (intro exI [of _ ob'] exI [of _ obs'] exI [of _ js2] exI [of _ r']) auto
  next
    case (Cons x recs')
    then have x: "y = x" "rest = recs' @ concat (drop (Suc (js_idx js)) recss)" "streams z r (x # recs')"
      using p(4,5) by simp_all
    obtain r1 where "replay_action z d ob (c, js) = Some (replay_frame ob c js r1)" "(FrameSeq r1, jr_entry r1) = x"
      "pending_records z files recss rest (js\<lparr>js_reader := Some r1\<rparr>)"
      using replay_action_record [OF run p(3) x(3) p(1,2)] x(2) by blast
    then show ?thesis
      using replay_loop_goes_on x(1) by (intro exI [of _ ob] exI [of _ obs] exI [of _ js] exI [of _ r1]) auto
  qed
qed

text \<open>The loop passes over the records below the cursor.\<close>

lemma loop_skips:
  assumes "journal_holds z d files recss"
  shows "pending_records z files recss (skip @ rest) js \<Longrightarrow> \<forall>x \<in> set skip. fst x < c_cursor c \<and> fst x \<noteq> 0 \<Longrightarrow>
    \<forall>ob \<in> set obs. still_running ob c \<Longrightarrow> length skip + length files \<le> length obs + js_idx js \<Longrightarrow>
    \<exists>obs' js'. replay_loop z d obs (c, js) = replay_loop z d obs' (c, js') \<and> pending_records z files recss rest js' \<and>
      set obs' \<subseteq> set obs \<and> length obs' + js_idx js' + length skip = length obs + js_idx js"
proof (induction skip arbitrary: js obs)
  case (Cons x skip)
  obtain ob obs1 js1 r where l: "replay_loop z d obs (c, js) = goes_on z d obs1 (replay_frame ob c js1 r)" "(FrameSeq r, jr_entry r) = x"
    "pending_records z files recss (skip @ rest) (js1\<lparr>js_reader := Some r\<rparr>)" "set obs1 \<subseteq> set obs"
    "Suc (length obs1) + js_idx js1 = length obs + js_idx js"
    using loop_takes_record [OF assms, of x "skip @ rest" js obs c] Cons.prems by auto
  have "replay_frame ob c js1 r = ((c, js1\<lparr>js_reader := Some r\<rparr>), RAgain)"
    using Cons.prems(2) l(2) by (auto simp: replay_frame_def Let_def)
  then have eq: "replay_loop z d obs (c, js) = replay_loop z d obs1 (c, js1\<lparr>js_reader := Some r\<rparr>)"
    using l(1) by (simp add: goes_on_def)
  have "\<forall>ob \<in> set obs1. still_running ob c" "length skip + length files \<le> length obs1 + js_idx (js1\<lparr>js_reader := Some r\<rparr>)"
    using Cons.prems(3,4) l(4,5) by auto
  from Cons.IH [OF l(3) _ this] Cons.prems(2) obtain obs' js' where
    "replay_loop z d obs1 (c, js1\<lparr>js_reader := Some r\<rparr>) = replay_loop z d obs' (c, js')" "pending_records z files recss rest js'"
    "set obs' \<subseteq> set obs1" "length obs' + js_idx js' + length skip = length obs1 + js_idx js1"
    by auto
  then show ?case
    using eq l(4,5) by (intro exI [of _ obs'] exI [of _ js']) auto
qed auto

text \<open>From the cursor on, the loop passes over the records the filter rejects and returns the first one that is wanted.\<close>

definition passed :: "nat \<Rightarrow> Consumer \<Rightarrow> Consumer" where
  "passed n c = c\<lparr>c_cursor := c_cursor c + of_nat n\<rparr>"

lemma passed_simps [simp]:
  "c_done (passed n c) = c_done c" "wanted (passed n c) = wanted c" "c_cursor (passed n c) = c_cursor c + of_nat n"
  "passed m (passed n c) = passed (n + m) c"
  by (simp_all add: passed_def wanted_def [abs_def])

definition from_cursor :: "Consumer \<Rightarrow> (u64 \<times> Entry) list \<Rightarrow> bool" where
  "from_cursor c todo \<longleftrightarrow>
     successively (\<lambda>x y. fst y = fst x + 1) todo \<and> (todo \<noteq> [] \<longrightarrow> fst (hd todo) = c_cursor c) \<and> (\<forall>y \<in> set todo. fst y \<noteq> 0)"

definition ahead_of :: "(u64 \<times> Entry) list \<Rightarrow> observation \<Rightarrow> bool" where
  "ahead_of todo ob \<longleftrightarrow> \<not> ob_cancelled ob \<and> (\<forall>y \<in> set todo. fst y < ob_tail ob)"

lemma ahead_of_mono: "set later \<subseteq> set todo \<Longrightarrow> ahead_of todo ob \<Longrightarrow> ahead_of later ob"
  unfolding ahead_of_def by blast

lemma from_cursor_Cons: "from_cursor c (y # todo) \<Longrightarrow> from_cursor (passed (Suc 0) c) todo \<and> fst y = c_cursor c \<and> fst y \<noteq> 0"
  by (cases todo) (auto simp: from_cursor_def)

lemma from_cursor_drops: "from_cursor c (drops @ x # later) \<Longrightarrow> from_cursor (passed (Suc (length drops)) c) later"
proof (induction drops arbitrary: c)
  case Nil
  then show ?case
    using from_cursor_Cons [of c x later] by simp
next
  case (Cons y drops)
  then show ?case
    using from_cursor_Cons [of c y "drops @ x # later"] Cons.IH [of "passed (Suc 0) c"] by simp
qed

lemma loop_takes_first:
  assumes "journal_holds z d files recss" "pending_records z files recss (y # todo) js" "from_cursor c (y # todo)" "\<not> c_done c"
    and "\<forall>ob \<in> set obs. ahead_of (y # todo) ob" "length files \<le> length obs + js_idx js"
  shows "\<exists>obs' js'. replay_loop z d obs (c, js) =
      goes_on z d obs' ((passed (Suc 0) c, js'), if wanted c y then RFrame (record_frame y) else RAgain) \<and>
    pending_records z files recss todo js' \<and> set obs' \<subseteq> set obs \<and> Suc (length obs') + js_idx js' = length obs + js_idx js"
proof -
  have y: "fst y = c_cursor c" "fst y \<noteq> 0"
    using from_cursor_Cons [OF assms(3)] by blast+
  then have "\<forall>ob \<in> set obs. still_running ob c"
    using assms(4,5) by (auto simp: still_running_def ahead_of_def)
  then obtain ob obs' js1 r where l: "replay_loop z d obs (c, js) = goes_on z d obs' (replay_frame ob c js1 r)" "(FrameSeq r, jr_entry r) = y"
    "pending_records z files recss todo (js1\<lparr>js_reader := Some r\<rparr>)" "set obs' \<subseteq> set obs"
    "Suc (length obs') + js_idx js1 = length obs + js_idx js"
    using loop_takes_record [OF assms(1,2) _ assms(6)] by blast
  have "replay_frame ob c js1 r = ((passed (Suc 0) c, js1\<lparr>js_reader := Some r\<rparr>), if wanted c y then RFrame (record_frame y) else RAgain)"
    using l(2) y by (auto simp: replay_frame_def Let_def wanted_def passed_def record_frame_def journal_frame_def)
  then show ?thesis
    using l by (intro exI [of _ obs'] exI [of _ "js1\<lparr>js_reader := Some r\<rparr>"]) simp
qed

lemma loop_returns:
  assumes "journal_holds z d files recss"
  shows "pending_records z files recss (drops @ x # later) js \<Longrightarrow> \<forall>y \<in> set drops. \<not> wanted c y \<Longrightarrow> wanted c x \<Longrightarrow>
    from_cursor c (drops @ x # later) \<Longrightarrow> \<not> c_done c \<Longrightarrow> \<forall>ob \<in> set obs. ahead_of (drops @ x # later) ob \<Longrightarrow>
    length drops + length files \<le> length obs + js_idx js \<Longrightarrow>
    \<exists>js'. replay_loop z d obs (c, js) = Some ((passed (Suc (length drops)) c, js'), RFrame (record_frame x)) \<and>
      pending_records z files recss later js'"
proof (induction drops arbitrary: c js obs)
  case Nil
  then show ?case
    using loop_takes_first [OF assms, of x later js c obs] by (auto simp: goes_on_def)
next
  case (Cons y drops)
  obtain obs' js' where l: "replay_loop z d obs (c, js) = goes_on z d obs' ((passed (Suc 0) c, js'), if wanted c y then RFrame (record_frame y) else RAgain)"
    "pending_records z files recss (drops @ x # later) js'" "set obs' \<subseteq> set obs" "Suc (length obs') + js_idx js' = length obs + js_idx js"
    using loop_takes_first [OF assms, of y "drops @ x # later" js c obs] Cons.prems by auto
  have "replay_loop z d obs (c, js) = replay_loop z d obs' (passed (Suc 0) c, js')"
    using l(1) Cons.prems(2) by (simp add: goes_on_def)
  moreover have "from_cursor (passed (Suc 0) c) (drops @ x # later)" "\<forall>ob \<in> set obs'. ahead_of (drops @ x # later) ob"
    using from_cursor_Cons [of c y "drops @ x # later"] Cons.prems(4,6) l(3) by (auto simp: ahead_of_def)
  ultimately show ?case
    using Cons.IH [OF l(2), of "passed (Suc 0) c" obs'] Cons.prems(2,3,5,7) l(4) by simp
qed

section \<open>The calls\<close>

text \<open>The records of consecutive files, the consumer at one of them.\<close>

lemma begin_journal_holds:
  assumes j: "journal_holds z d files recss" and files: "journal_files dir d = files" "files \<noteq> []"
    and all: "counted (concat recss)" "k < length (concat recss)" "q = fst (concat recss ! k)"
  shows "\<exists>js' m. begin_journal z d dir q no_journal = Some (js', True) \<and> m \<le> k \<and> pending_records z files recss (drop m (concat recss)) js'"
proof -
  note len = journal_holds_length [OF j]
  have ne: "[] \<notin> set recss"
    using j by (auto simp: journal_holds_def holds_records_def list_all2_conv_all_nth in_set_conv_nth)
  have start: "concat recss ! length (concat (take i recss)) = hd (recss ! i)" "length (concat (take i recss)) < length (concat recss)" if "i < length recss" for i
    using block_start [OF that ne] by auto
  have nz: "\<forall>recs \<in> set recss. fst (hd recs) \<noteq> 0"
    using counted_nonzero [OF all(1)] start by (metis in_set_conv_nth)
  have "fst (hd (hd recss)) \<le> q"
    using counted_le [OF all(1) _ all(2), of 0] start [of 0] files(2) len all(2,3) by (cases recss) auto
  then obtain i where i: "i < length files" "findJournalFile z d files q = Some (Some i)" "fst (hd (recss ! i)) \<le> q"
    using findJournalFile_holds [OF j nz] files(2) len by (cases recss) auto
  obtain content r where r: "gm_get d (files ! i) = Some content" "NewReader content = Inr r" "jr_version r = Version2"
    and seek: "\<exists>r1 m. SeekToSeq z q (EnablePrefetch r) = (r1, None) \<and> m < length (recss ! i) \<and> streams z r1 (drop m (recss ! i)) \<and>
              (m = 0 \<or> fst (recss ! i ! m) \<le> q)"
    using j i(1) unfolding journal_holds_def holds_records_def by (auto dest!: list_all2_nthD)
  obtain r1 m where m: "SeekToSeq z q (EnablePrefetch r) = (r1, None)" "m < length (recss ! i)" "streams z r1 (drop m (recss ! i))"
    and m0: "m = 0 \<or> fst (recss ! i ! m) \<le> q"
    using seek by blast
  have below: "fst (recss ! i ! m) \<le> q"
    using m0 m(2) i(3) by (cases "m = 0") (auto simp: hd_conv_nth)
  let ?m = "length (concat (take i recss)) + m" and ?js = "\<lparr>js_files = Some files, js_idx = i, js_reader = Some r1\<rparr>"
  have parts: "concat recss = concat (take i recss) @ recss ! i @ concat (drop (Suc i) recss)"
    using concat_split i(1) len by simp
  then have "concat recss ! ?m = recss ! i ! m" "?m < length (concat recss)" "drop ?m (concat recss) = drop m (recss ! i) @ concat (drop (Suc i) recss)"
    using m(2) by (simp_all add: nth_append)
  then have "?m \<le> k" "pending_records z files recss (drop ?m (concat recss)) ?js"
    using m below counted_le [OF all(1) _ all(2), of ?m] all(3) i(1) by (auto simp: pending_records_def)
  moreover have "begin_journal z d dir q no_journal = Some (?js, True)"
    using files i(2) r m(1) by (simp add: begin_journal_def no_journal_def openJournalFile_def closeCurrentFile_def Let_def)
  ultimately show ?thesis
    by blast
qed

text \<open>Several calls of \<^verbatim>\<open>readFromJournal\<close>, one after the other.\<close>

fun replay_calls :: "zstd \<Rightarrow> disk \<Rightarrow> string \<Rightarrow> observation list list \<Rightarrow> Consumer \<times> journal_state \<Rightarrow> ((Consumer \<times> journal_state) \<times> replay_result list) option" where
  "replay_calls z d dir [] s = Some (s, [])"
| "replay_calls z d dir (obs # obss) s =
     (case readFromJournal_files z d dir obs s of
        None \<Rightarrow> None
      | Some (s1, res) \<Rightarrow> (case replay_calls z d dir obss s1 of None \<Rightarrow> None | Some (s2, ress) \<Rightarrow> Some (s2, res # ress)))"

lemma readFromJournal_pending:
  "dir \<noteq> [] \<Longrightarrow> pending_records z files recss rest js \<Longrightarrow> readFromJournal_files z d dir obs (c, js) = replay_loop z d obs (c, js)"
  by (simp add: readFromJournal_files_def begin_journal_def pending_records_def)

lemma call_returns:
  assumes j: "journal_holds z d files recss" and p: "pending_records z files recss (skip @ todo) js"
    and skip: "\<forall>x \<in> set skip. fst x < c_cursor c \<and> fst x \<noteq> 0" and c: "from_cursor c todo" "\<not> c_done c"
    and obs: "\<forall>ob \<in> set obs. ahead_of todo ob" "length skip + length todo + length files \<le> length obs" and w: "filter (wanted c) todo = x # ws"
  shows "\<exists>n js' later. replay_loop z d obs (c, js) = Some ((passed n c, js'), RFrame (record_frame x)) \<and> pending_records z files recss later js' \<and>
    from_cursor (passed n c) later \<and> set later \<subseteq> set todo \<and> length later \<le> length todo \<and> ws = filter (wanted c) later"
proof -
  obtain drops later where t: "todo = drops @ x # later" "\<forall>y \<in> set drops. \<not> wanted c y" "wanted c x" "ws = filter (wanted c) later"
    using w by (auto dest: filter_eq_ConsD)
  have "fst (hd todo) = c_cursor c" "hd todo \<in> set todo"
    using c(1) t(1) by (auto simp: from_cursor_def hd_append split: list.split)
  then have "\<forall>ob \<in> set obs. still_running ob c"
    using obs(1) c(2) unfolding ahead_of_def still_running_def by metis
  then obtain obs' js' where l: "replay_loop z d obs (c, js) = replay_loop z d obs' (c, js')" "pending_records z files recss todo js'"
    "set obs' \<subseteq> set obs" "length obs' + js_idx js' + length skip = length obs + js_idx js"
    using loop_skips [OF j p skip, of obs] obs(2) by auto
  have "\<forall>ob \<in> set obs'. ahead_of (drops @ x # later) ob" "length drops + length files \<le> length obs' + js_idx js'"
    using obs l(3,4) t(1) by auto
  then obtain js2 where "replay_loop z d obs' (c, js') = Some ((passed (Suc (length drops)) c, js2), RFrame (record_frame x))"
    "pending_records z files recss later js2"
    using loop_returns [OF j, of drops x later js' c obs'] l(2) c t by auto
  moreover have "from_cursor (passed (Suc (length drops)) c) later"
    using c(1) unfolding t(1) by (rule from_cursor_drops)
  ultimately show ?thesis
    using l(1) t by (intro exI [of _ "Suc (length drops)"] exI [of _ js2] exI [of _ later]) auto
qed

lemma calls_return:
  assumes j: "journal_holds z d files recss" "dir \<noteq> []"
  shows "pending_records z files recss todo js \<Longrightarrow> from_cursor c todo \<Longrightarrow> \<not> c_done c \<Longrightarrow>
    \<forall>obs \<in> set obss. length todo + length files \<le> length obs \<and> (\<forall>ob \<in> set obs. ahead_of todo ob) \<Longrightarrow>
    length obss \<le> length (filter (wanted c) todo) \<Longrightarrow>
    \<exists>s. replay_calls z d dir obss (c, js) = Some (s, map (RFrame \<circ> record_frame) (take (length obss) (filter (wanted c) todo)))"
proof (induction obss arbitrary: c js todo)
  case (Cons obs obss)
  obtain x ws where w: "filter (wanted c) todo = x # ws"
    using Cons.prems(5) by (cases "filter (wanted c) todo") auto
  obtain n js' later where l: "replay_loop z d obs (c, js) = Some ((passed n c, js'), RFrame (record_frame x))" "pending_records z files recss later js'"
    "from_cursor (passed n c) later" "set later \<subseteq> set todo" "length later \<le> length todo" "ws = filter (wanted c) later"
    using call_returns [OF j(1), of "[]" todo js c obs x ws] Cons.prems(1-4) w by auto
  have "\<forall>obs \<in> set obss. length later + length files \<le> length obs \<and> (\<forall>ob \<in> set obs. ahead_of later ob)"
    using Cons.prems(4) l(5) ahead_of_mono [OF l(4)] by fastforce
  moreover have "length obss \<le> length (filter (wanted (passed n c)) later)"
    using Cons.prems(5) w l(6) by simp
  ultimately obtain s where "replay_calls z d dir obss (passed n c, js') = Some (s, map (RFrame \<circ> record_frame) (take (length obss) ws))"
    using Cons.IH [OF l(2,3)] Cons.prems(3) l(6) by auto
  then show ?case
    using readFromJournal_pending [OF j(2) Cons.prems(1)] l(1) w by simp
qed simp

lemma counted_drop:
  assumes "counted recs" "k < length recs" "fst (recs ! k) = c_cursor c"
  shows "from_cursor c (drop k recs)" "m \<le> k \<Longrightarrow> \<forall>x \<in> set (take (k - m) (drop m recs)). fst x < c_cursor c \<and> fst x \<noteq> 0"
proof -
  have parts: "recs = take k recs @ drop k recs"
    by simp
  have "successively (\<lambda>x y. fst y = fst x + 1) (drop k recs)"
    using assms(1) unfolding counted_def by (metis parts successively_append_iff)
  moreover have "\<forall>y \<in> set (drop k recs). fst y \<noteq> 0"
    using counted_nonzero [OF assms(1)] by (metis in_set_conv_nth in_set_dropD)
  ultimately show "from_cursor c (drop k recs)"
    using assms(2,3) by (simp add: from_cursor_def hd_drop_conv_nth)
  show "\<forall>x \<in> set (take (k - m) (drop m recs)). fst x < c_cursor c \<and> fst x \<noteq> 0" if "m \<le> k"
  proof
    fix x
    assume "x \<in> set (take (k - m) (drop m recs))"
    then obtain i where "x = recs ! (m + i)" "m + i < k"
      by (auto simp: in_set_conv_nth)
    then show "fst x < c_cursor c \<and> fst x \<noteq> 0"
      using counted_less [OF assms(1) _ assms(2), of "m + i"] counted_nonzero [OF assms(1), of "m + i"] assms(2,3) by simp
  qed
qed

lemma calls_from_start:
  assumes j: "journal_holds z d files recss" "dir \<noteq> []" "journal_files dir d = files" "files \<noteq> []"
    and all: "concat recss = recs" "counted recs" "k < length recs" and c: "fst (recs ! k) = c_cursor c" "\<not> c_done c"
    and obs: "\<forall>obs \<in> set obss. length recs + length files \<le> length obs \<and> (\<forall>ob \<in> set obs. ahead_of recs ob)"
    and n: "length obss \<le> length (filter (wanted c) (drop k recs))"
  shows "\<exists>s. replay_calls z d dir obss (c, no_journal) = Some (s, map (RFrame \<circ> record_frame) (take (length obss) (filter (wanted c) (drop k recs))))"
proof (cases obss)
  case (Cons obs1 obss1)
  obtain js m where b: "begin_journal z d dir (c_cursor c) no_journal = Some (js, True)" "m \<le> k" "pending_records z files recss (drop m recs) js"
    using begin_journal_holds [OF j(1,3,4), of k "c_cursor c"] all c(1) by auto
  let ?skip = "take (k - m) (drop m recs)" and ?todo = "drop k recs"
  have parts: "drop m recs = ?skip @ ?todo"
    using b(2) by (metis append_take_drop_id drop_drop le_add_diff_inverse2)
  have mono: "ahead_of recs ob \<Longrightarrow> ahead_of ?todo ob" for ob
    by (rule ahead_of_mono [of _ recs]) (simp add: set_drop_subset)
  have call: "readFromJournal_files z d dir obs1 (c, no_journal) = replay_loop z d obs1 (c, js)"
    using j(2) b(1) by (simp add: readFromJournal_files_def)
  obtain x ws where w: "filter (wanted c) ?todo = x # ws"
    using n Cons by (cases "filter (wanted c) ?todo") auto
  have o1: "\<forall>ob \<in> set obs1. ahead_of ?todo ob" "length ?skip + length ?todo + length files \<le> length obs1"
    using obs Cons mono all(3) b(2) by auto
  obtain i js' later where l: "replay_loop z d obs1 (c, js) = Some ((passed i c, js'), RFrame (record_frame x))" "pending_records z files recss later js'"
    "from_cursor (passed i c) later" "set later \<subseteq> set ?todo" "length later \<le> length ?todo" "ws = filter (wanted c) later"
    using call_returns [OF j(1) _ counted_drop(2) [OF all(2,3) c(1) b(2)] counted_drop(1) [OF all(2,3) c(1)] c(2) o1 w, of js] b(3) parts by auto
  have "\<forall>obs \<in> set obss1. length later + length files \<le> length obs \<and> (\<forall>ob \<in> set obs. ahead_of later ob)"
    using obs Cons l(5) ahead_of_mono [OF l(4)] mono by fastforce
  then obtain s where "replay_calls z d dir obss1 (passed i c, js') = Some (s, map (RFrame \<circ> record_frame) (take (length obss1) ws))"
    using calls_return [OF j(1,2) l(2,3), of obss1] c(2) n w Cons l(6) by auto
  then show ?thesis
    using Cons call l(1) w by simp
qed simp

section \<open>The files of the journal writer\<close>

text \<open>The content of the file a finished run of the writer leaves, with the conditions of the journal round trip.\<close>

definition journal_run :: "zstd \<Rightarrow> bytes \<Rightarrow> (DeviceRegistry \<times> gotime \<times> RxFrame) list \<Rightarrow> bool" where
  "journal_run z content xs \<longleftrightarrow>
     (\<exists>cfg0 d w0 devices w'. NewJournalWriter cfg0 d = Inr w0 \<and> settings_ok z (jw_cfg w0) \<and> registry_strings_ok devices \<and>
        xs \<noteq> [] \<and> list_all input_ok xs \<and> successively (\<lambda>f g. us f \<le> us g) (map frm xs) \<and>
        (list_all (ample (jcf_BlockSize (jw_cfg w0))) xs \<or> keeps_room z xs w0) \<and>
        (length xs \<le> maxBlockIndexEntries \<or> jcf_Compression (jw_cfg w0) = CompressionNone) \<and>
        writer_Run z xs devices w0 = Inr w' \<and>
        gm_get (jw_disk w') (journal_path (jcf_Dir (jw_cfg w0)) (jcf_Prefix (jw_cfg w0)) (rx_Timestamp (frm (hd xs)))) = Some content)"

lemma run_file_blocks:
  assumes "journal_run z content xs"
  shows "\<exists>cfg bl chs. content = file_content cfg chs \<and> file_ok z cfg bl chs \<and> bl \<noteq> [] \<and> concat (map blk_frames bl) = map frm xs"
proof -
  obtain cfg0 d w0 devices w' where h: "NewJournalWriter cfg0 d = Inr w0" "settings_ok z (jw_cfg w0)" "registry_strings_ok devices"
    "xs \<noteq> []" "list_all input_ok xs" "successively (\<lambda>f g. us f \<le> us g) (map frm xs)"
    "list_all (ample (jcf_BlockSize (jw_cfg w0))) xs \<or> keeps_room z xs w0"
    "length xs \<le> maxBlockIndexEntries \<or> jcf_Compression (jw_cfg w0) = CompressionNone" "writer_Run z xs devices w0 = Inr w'"
    "gm_get (jw_disk w') (journal_path (jcf_Dir (jw_cfg w0)) (jcf_Prefix (jw_cfg w0)) (rx_Timestamp (frm (hd xs)))) = Some content"
    using assms unfolding journal_run_def by (elim exE conjE) (rule that)
  have "keeps_room z xs w0"
    by (rule enough_room [OF h(1,2,4-7)])
  from run_writes_file [OF h(1-3,5,4,6) this refl] h(9,10)
  obtain bl chs where w': "content = file_content (jw_cfg w0) chs" "length (jw_blockOffsets w') \<le> length xs"
    "concat (map blk_frames bl) = map frm xs" "bl \<noteq> []" "jcf_Compression (jw_cfg w0) = CompressionNone \<longrightarrow> jw_blockOffsets w' = []"
    "length (jw_blockOffsets w') \<le> maxBlockIndexEntries \<longrightarrow> file_ok z (jw_cfg w0) bl chs"
    by auto
  moreover have "length (jw_blockOffsets w') \<le> maxBlockIndexEntries"
    using w'(2,5) h(8) by auto
  ultimately show ?thesis
    by blast
qed

lemma streams_at_block:
  assumes "source_of z bl r" "at_block bl n 0 r" "n < length bl" "numbered (concat (map blk_frames bl))"
  shows "streams z r (map record_of (concat (map blk_frames (drop n bl))))"
proof -
  have "concat (map blk_frames bl) = concat (map blk_frames (take n bl)) @ concat (map blk_frames (drop n bl))"
    by (simp flip: concat_append map_append)
  then have "numbered (concat (map blk_frames (drop n bl)))"
    using assms(4) unfolding numbered_def by (metis successively_append_iff)
  then have "rest_out bl n 0 = map record_of (concat (map blk_frames (drop n bl)))"
    using blocks_out_numbered [of "drop n bl"] Cons_nth_drop_Suc [OF assms(3), symmetric] by (simp add: rest_out_def)
  then show ?thesis
    using drain_from [OF assms(1-3), of "Suc (length (rest_out bl n 0))"] by (simp add: streams_def del: drain.simps)
qed

lemma block_for_le: "le 0 \<Longrightarrow> 0 < n \<Longrightarrow> le (block_for n le)"
proof -
  assume "le 0" "0 < n"
  let ?l = "takeWhile le [0..<n]"
  have ne: "?l \<noteq> []"
    using \<open>le 0\<close> \<open>0 < n\<close> by (simp add: upt_conv_Cons)
  then have "le (last ?l)"
    using set_takeWhileD last_in_set by fast
  moreover have "length ?l - 1 < n"
    using length_takeWhile_le [of le "[0..<n]"] \<open>0 < n\<close> by simp
  then have "last ?l = block_for n le"
    using ne by (simp add: last_conv_nth takeWhile_nth block_for_def)
  ultimately show "le (block_for n le)"
    by simp
qed

lemma seek_streams:
  assumes src: "source_of z bl r" "jr_err r = None" "bl \<noteq> []" and base: "\<And>i. i < length bl \<Longrightarrow> base_seq r i = Some (rx_Seq (hd (blk_frames (bl ! i))))"
    and num: "numbered (concat (map blk_frames bl))" "unat (rx_Seq (hd (concat (map blk_frames bl)))) + length (concat (map blk_frames bl)) \<le> 2 ^ 64"
  shows "\<exists>r1 m. SeekToSeq z q r = (r1, None) \<and> m < length (concat (map blk_frames bl)) \<and>
    streams z r1 (drop m (map record_of (concat (map blk_frames bl)))) \<and> (m = 0 \<or> rx_Seq (concat (map blk_frames bl) ! m) \<le> q)"
proof -
  let ?le = "\<lambda>i. rx_Seq (hd (blk_frames (bl ! i))) \<le> q"
  define k where "k = block_for (length bl) ?le"
  obtain r1 where r1: "SeekToSeq z q r = (r1, None)" "at_block bl k 0 r1" "source_of z bl r1" "k < length bl"
    using seek_positions [OF src base num k_def] by blast
  let ?fss = "map blk_frames bl" and ?m = "length (concat (map blk_frames (take k bl)))"
  have ne: "[] \<notin> set ?fss"
    using src(1) by (auto simp: source_of_def list_all_iff desc_ok_def good_block_def)
  have start: "concat ?fss ! ?m = hd (blk_frames (bl ! k))" "?m < length (concat ?fss)"
    using block_start [of k ?fss] ne r1(4) by (simp_all add: take_map)
  have "concat ?fss = concat (map blk_frames (take k bl)) @ concat (map blk_frames (drop k bl))"
    by (simp flip: concat_append map_append)
  then have "drop ?m (map record_of (concat ?fss)) = map record_of (concat (map blk_frames (drop k bl)))"
    by simp
  then have "streams z r1 (drop ?m (map record_of (concat ?fss)))"
    using streams_at_block [OF r1(3,2,4) num(1)] by simp
  moreover have "?m = 0 \<or> ?le k"
  proof (cases "?le 0")
    case True
    then show ?thesis
      using block_for_le [of ?le] src(3) k_def by simp
  next
    case False
    then have "k = 0"
      by (cases "length bl") (simp_all add: k_def block_for_def upt_conv_Cons del: upt_Suc)
    then show ?thesis
      by simp
  qed
  ultimately show ?thesis
    using r1(1) start by (intro exI [of _ r1] exI [of _ ?m]) simp
qed

lemma first_frame:
  assumes "source_of z bl r" "jr_err r = None" "bl \<noteq> []" "hd (concat (map blk_frames bl)) = f"
  shows "\<exists>r1 r2. SeekBlock z 0 r = (r1, None) \<and> Reader_Next z r1 = Some (r2, True) \<and> FrameSeq r2 = rx_Seq f"
proof -
  have n: "0 < length bl" "length (jr_blocks r) = length bl"
    using assms(1,3) by (simp_all add: source_of_def)
  have "jr_err (cancelPrefetch r) = None"
    using assms(2) by (auto simp: cancelPrefetch_def split: option.split)
  then obtain r1 where r1: "loadBlock z 0 (cancelPrefetch r) = (r1, None)" "at_block bl 0 0 r1" "source_of z bl r1"
    using loadBlock_source [OF cancelPrefetch_source [OF assms(1)] _ n(1)] by blast
  have ne: "blk_frames (bl ! 0) \<noteq> []"
    using assms(1) n(1) by (auto simp: source_of_def list_all_length desc_ok_def good_block_def)
  then have "hd (blk_frames (bl ! 0)) = f" "0 < length (blk_frames (bl ! 0))"
    using assms(3,4) by (cases bl; simp)+
  then obtain r2 where "Reader_Next z r1 = Some (r2, True)" "FrameSeq r2 = rx_Seq f"
    using Next_delivers [OF r1(3,2) n(1)] by (auto simp: block_out_def)
  then show ?thesis
    using r1(1) n by (auto simp: SeekBlock_def)
qed

lemma run_file_holds:
  assumes "journal_run z content xs" "numbered (map frm xs)" "unat (rx_Seq (frm (hd xs))) + length xs \<le> 2 ^ 64"
  shows "holds_records z content (map (record_of \<circ> frm) xs)"
proof -
  obtain cfg bl chs where f: "content = file_content cfg chs" "file_ok z cfg bl chs" "bl \<noteq> []" "concat (map blk_frames bl) = map frm xs"
    using run_file_blocks [OF assms(1)] by blast
  have xs: "xs \<noteq> []"
    using assms(1) by (auto simp: journal_run_def)
  obtain r where r: "NewReader content = Inr r" "source_of z bl r" "before_block 0 r" "jr_r r = file_content cfg chs"
    "jr_compression r = jcf_Compression cfg" "blocks_at (chunk_offsets 16 chs) (jr_blocks r)"
    "jcf_Compression cfg \<noteq> CompressionNone \<longrightarrow> read_infos (file_content cfg chs) Version2 (chunk_offsets 16 chs) = Inr (jr_blocks r)"
    using open_file [OF f(2,3)] f(1) by (elim exE conjE) (metis that)
  let ?r = "EnablePrefetch r"
  have same: "jr_r ?r = jr_r r" "jr_compression ?r = jr_compression r" "jr_blocks ?r = jr_blocks r" "before_block 0 ?r" "jr_err ?r = None"
    using r(3) by (auto simp: EnablePrefetch_def before_block_def split: option.split)
  note src = EnablePrefetch_source [OF r(2)]
  note base = base_seq_file [OF f(2), of ?r, unfolded same(1-3), OF r(4-7)]
  have num: "numbered (concat (map blk_frames bl))" "unat (rx_Seq (hd (concat (map blk_frames bl)))) + length (concat (map blk_frames bl)) \<le> 2 ^ 64"
    using assms(2,3) xs by (simp_all add: f(4) hd_map)
  have "streams z ?r (map record_of (map frm xs))"
    using drain_file [OF src same(4), of "Suc (length xs)"] blocks_out_numbered [OF num(1)] f(4)
    by (simp add: streams_def del: drain.simps)
  moreover have "\<exists>r1 r2. SeekBlock z 0 r = (r1, None) \<and> Reader_Next z r1 = Some (r2, True) \<and> FrameSeq r2 = rx_Seq (frm (hd xs))"
    by (rule first_frame [OF r(2) _ f(3)]) (use r(3) f(4) xs in \<open>simp_all add: before_block_def hd_map\<close>)
  moreover have "\<exists>r1 m. SeekToSeq z q ?r = (r1, None) \<and> m < length xs \<and> streams z r1 (drop m (map record_of (map frm xs))) \<and>
      (m = 0 \<or> fst (map record_of (map frm xs) ! m) \<le> q)" for q
  proof -
    obtain r1 m where "SeekToSeq z q ?r = (r1, None)" "m < length xs" "streams z r1 (drop m (map record_of (map frm xs)))"
      "m = 0 \<or> rx_Seq (map frm xs ! m) \<le> q"
      using seek_streams [OF src same(5) f(3) base num, of q] unfolding f(4) length_map by blast
    then show ?thesis
      by (intro exI [of _ r1] exI [of _ m]) (auto simp: record_of_def)
  qed
  moreover have "jr_version r = Version2" "jr_blocks r \<noteq> []"
    using r(2) f(3) by (auto simp: source_of_def)
  ultimately show ?thesis
    using r(1) xs by (simp add: holds_records_def hd_map record_of_def)
qed

section \<open>The consumer on the files of the writer\<close>

definition journal_copy :: "RxFrame \<Rightarrow> Frame" where
  "journal_copy f =
     \<lparr>fr_Seq = rx_Seq f, fr_Timestamp = time_UnixMicro (us f), fr_Header = rx_Header f, fr_Bus = [], fr_Data = rx_Data f, fr_json = None\<rparr>"

lemma record_frame_of: "record_frame (record_of f) = journal_copy f"
  by (simp add: record_frame_def record_of_def entry_of_def journal_copy_def)

lemma wanted_record_of: "wanted c (record_of f) \<longleftrightarrow> resolvedFilter_matches (c_filter c) [] (rx_Header f)"
  by (simp add: wanted_def record_of_def entry_of_def)

lemma unat_add_of_nat_le: "unat (q + of_nat n :: u64) \<le> unat q + n"
  by (simp add: unat_word_ariths unat_of_nat take_bit_eq_mod mod_simps)

lemma journal_runs_hold:
  assumes "list_all2 (\<lambda>p xs. \<exists>content. gm_get d p = Some content \<and> journal_run z content xs) files xss"
    and "numbered (map frm (concat xss))" "unat (rx_Seq (frm (hd (concat xss)))) + length (concat xss) \<le> 2 ^ 64"
  shows "journal_holds z d files (map (map (record_of \<circ> frm)) xss)"
proof -
  have ne: "[] \<notin> set xss"
    using assms(1) by (auto simp: journal_run_def list_all2_conv_all_nth in_set_conv_nth)
  have run: "numbered (map frm (xss ! i)) \<and> unat (rx_Seq (frm (hd (xss ! i)))) + length (xss ! i) \<le> 2 ^ 64" if i: "i < length xss" for i
  proof -
    let ?s = "length (concat (take i xss))"
    have parts: "concat xss = concat (take i xss) @ xss ! i @ concat (drop (Suc i) xss)"
      using concat_split [OF i] .
    have "numbered (map frm (xss ! i))"
      using assms(2) unfolding parts numbered_def map_append successively_append_iff by blast
    have "rx_Seq (frm (hd (xss ! i))) = rx_Seq (frm (hd (concat xss))) + of_nat ?s"
    proof -
      have "map frm (concat xss) ! ?s = frm (hd (xss ! i))" "hd (map frm (concat xss)) = frm (hd (concat xss))" "?s < length (map frm (concat xss))"
        using block_start [OF i ne] by (simp_all only: nth_map length_map) (metis hd_map length_0_conv not_less_zero)
      then show ?thesis
        using numbered_nth [OF assms(2), of ?s] by simp
    qed
    then have "unat (rx_Seq (frm (hd (xss ! i)))) \<le> unat (rx_Seq (frm (hd (concat xss)))) + ?s"
      using unat_add_of_nat_le by simp
    moreover have "?s + length (xss ! i) \<le> length (concat xss)"
      using arg_cong [OF parts, of length] by simp
    ultimately have "unat (rx_Seq (frm (hd (xss ! i)))) + length (xss ! i) \<le> 2 ^ 64"
      using assms(3) by linarith
    then show ?thesis
      using \<open>numbered (map frm (xss ! i))\<close> by blast
  qed
  then show ?thesis
    using assms(1) run_file_holds unfolding journal_holds_def list_all2_conv_all_nth by fastforce
qed

text \<open>
  C6: A consumer that has fallen behind the ring reads on from the journal: when the journal files of the
  directory are those of finished writer runs whose frames are numbered consecutively across the files, and
  the cursor is the number of one of the frames, then repeated calls of readFromJournal deliver the
  frames from the cursor on that the filter accepts (on an empty bus name), each once, in order, with its
  sequence number, header, data and its timestamp in microseconds; no call ends early, fails or panics as long as the
  consumer is not closed, the context is not cancelled and the ring has not come to hold the cursor.
\<close>

theorem consumer_replays_journal:
  assumes "dir \<noteq> []" "journal_files dir d = files"
    and "list_all2 (\<lambda>p xs. \<exists>content. gm_get d p = Some content \<and> journal_run z content xs) files xss"
    and "fs = map frm (concat xss)" "successively (\<lambda>f g. rx_Seq g = rx_Seq f + 1) fs" "rx_Seq (hd fs) \<noteq> 0" "unat (rx_Seq (hd fs)) + length fs \<le> 2 ^ 64"
    and "k < length fs" "c_cursor c = rx_Seq (fs ! k)" "\<not> c_done c"
    and "\<forall>obs \<in> set obss. length fs + length files \<le> length obs \<and> (\<forall>ob \<in> set obs. \<not> ob_cancelled ob \<and> rx_Seq (last fs) < ob_tail ob)"
    and "fs' = filter (\<lambda>f. resolvedFilter_matches (c_filter c) [] (rx_Header f)) (drop k fs)" "length obss \<le> length fs'"
  shows "\<exists>s. replay_calls z d dir obss (c, no_journal) = Some (s, map (RFrame \<circ> journal_copy) (take (length obss) fs'))"
proof -
  let ?recss = "map (map (record_of \<circ> frm)) xss" and ?all = "map record_of fs"
  have all: "concat ?recss = ?all"
    by (simp add: assms(4) map_concat comp_def)
  have ne: "concat xss \<noteq> []"
    using assms(4,8) by (metis length_0_conv length_map not_less_zero)
  have hd: "rx_Seq (frm (hd (concat xss))) = rx_Seq (hd fs)" "length (concat xss) = length fs"
    using hd_map [OF ne, of frm] by (simp_all only: assms(4) length_map)
  have j: "journal_holds z d files ?recss"
    by (rule journal_runs_hold [OF assms(3)]) (simp_all only: numbered_def hd assms(5,7) flip: assms(4))
  have cnt: "counted ?all"
  proof -
    have "successively (\<lambda>x y. fst y = fst x + 1) ?all"
      using assms(5) by (simp add: successively_map record_of_def)
    then show ?thesis
      using assms(6-8) hd_map [of fs record_of] by (auto simp: counted_def record_of_def)
  qed
  have k: "k < length ?all" "fst (?all ! k) = c_cursor c"
    using assms(8,9) by (simp_all add: record_of_def)
  have le: "fst y \<le> rx_Seq (last fs)" if y: "y \<in> set ?all" for y
  proof -
    obtain i where i: "y = ?all ! i" "i < length fs"
      using y by (auto simp: in_set_conv_nth)
    have "last fs = fs ! (length fs - 1)" "length fs - 1 < length fs"
      using assms(8) by (cases fs; simp add: last_conv_nth)+
    then have "fst (?all ! (length fs - 1)) = rx_Seq (last fs)"
      by (simp add: record_of_def)
    then show ?thesis
      using counted_le [OF cnt, of i "length fs - 1"] i by simp
  qed
  have "ahead_of ?all ob" if "\<not> ob_cancelled ob" "rx_Seq (last fs) < ob_tail ob" for ob
    unfolding ahead_of_def using that(1) order_le_less_trans [OF le that(2)] by blast
  then have obs: "\<forall>obs \<in> set obss. length ?all + length files \<le> length obs \<and> (\<forall>ob \<in> set obs. ahead_of ?all ob)"
    using assms(11) by simp
  have fs': "filter (wanted c) (drop k ?all) = map record_of fs'"
    by (simp only: assms(12) drop_map filter_map comp_def wanted_record_of)
  have len: "length obss \<le> length (filter (wanted c) (drop k ?all))"
    using assms(13) by (simp only: fs' length_map)
  have "files \<noteq> []"
    using assms(3) ne by auto
  from calls_from_start [OF j assms(1,2) this all cnt k assms(10) obs len] show ?thesis
    unfolding fs' by (simp only: take_map map_map comp_def record_frame_of)
qed

definition behind_consumer :: Consumer where
  "behind_consumer = (NewConsumer NewDeviceRegistry \<lparr>cc_Cursor = 7, cc_Filter = None\<rparr>)"

definition steady :: observation where
  "steady = \<lparr>ob_pick = 0, ob_tail = 100, ob_tail2 = 100, ob_cancelled = False\<rparr>"

lemma sample_path_name: "sample_path = ''/var/log/nmea2k-'' @ ''19700101T000000.007Z.lpj''"
  unfolding sample_path_def by code_simp

lemma sample_files: "journal_files ''/var/log'' [(sample_path, content)] = [sample_path]"
  unfolding sample_path_name
  by (simp add: journal_files_def ReadDir_def name_in_def HasPrefix_def CutSuffix_def join_path_def map_filter_simps)

lemma sample_journal_run: "\<exists>content. journal_run marking_codec content sample_frames"
proof -
  obtain w0 where w0: "NewJournalWriter sample_config [] = Inr w0" "settings_ok marking_codec (jw_cfg w0)"
    "list_all (ample (jcf_BlockSize (jw_cfg w0))) sample_frames \<or> keeps_room marking_codec sample_frames w0"
    using sample_run by blast
  have room: "keeps_room marking_codec sample_frames w0"
    by (rule enough_room [OF w0(1,2) sample_frames_ok(2,3,5) w0(3)])
  have "length sample_frames \<le> maxBlockIndexEntries"
    by (simp add: sample_frames_ok(4) maxBlockIndexEntries_def)
  then show ?thesis
    using run_writes_file [OF w0(1,2) sample_frames_ok(1,3,2,5) room refl] w0 sample_frames_ok(1,2,3,5) unfolding journal_run_def by blast
qed

theorem consumer_replays_journal_witness:
  "\<exists>content s. journal_run marking_codec content sample_frames \<and>
     replay_calls marking_codec [(sample_path, content)] ''/var/log'' [replicate 3 steady, replicate 3 steady] (behind_consumer, no_journal) =
       Some (s, [RFrame (journal_copy (sample_frame 7 [1, 2, 3, 4, 5, 6, 7, 8])), RFrame (journal_copy (sample_frame 8 [9]))])"
proof -
  obtain content where run: "journal_run marking_codec content sample_frames"
    using sample_journal_run by blast
  let ?fs = "[sample_frame 7 [1, 2, 3, 4, 5, 6, 7, 8], sample_frame 8 [9]]"
  have fs: "?fs = map frm (concat [sample_frames])"
    by (simp add: sample_frames_def)
  have "c_filter behind_consumer = None" "c_cursor behind_consumer = 7" "\<not> c_done behind_consumer"
    by (simp_all add: behind_consumer_def NewConsumer_def resolve_filter_def EventFilter_IsEmpty_def)
  then have "\<exists>s. replay_calls marking_codec [(sample_path, content)] ''/var/log'' [replicate 3 steady, replicate 3 steady] (behind_consumer, no_journal) =
      Some (s, map (RFrame \<circ> journal_copy) (take 2 ?fs))"
    using consumer_replays_journal [of "''/var/log''" "[(sample_path, content)]" "[sample_path]" marking_codec "[sample_frames]" ?fs 0 behind_consumer
        "[replicate 3 steady, replicate 3 steady]" ?fs, OF _ sample_files _ fs] run
    by (simp add: gm_get_def rx_Seq_sample steady_def resolvedFilter_matches_def del: replay_calls.simps)
  then show ?thesis
    using run by auto
qed

end
