(* ===== verification/KeeperProps.thy ===== *)
theory KeeperProps
  imports Keeper
begin

text \<open>
  Guarantees of the journal keeper over every history of rotations, scans and retries: with the pause policy
  no file is lost before it is archived, retention removes the oldest files and as few as the limits
  ask for, and the retry delay stays within its bounds.
\<close>

section \<open>Histories\<close>

datatype keeper_act =
  Notify RotatedFile
| Event "string \<Rightarrow> bool" "KeeperDir \<Rightarrow> bool" keeper_event

fun keeper_do :: "script \<Rightarrow> keeper_act \<Rightarrow> keeper_loop \<Rightarrow> keeper_loop" where
  "keeper_do script (Notify rf) l = l\<lparr>kl_k := Send rf (kl_k l)\<rparr>"
| "keeper_do script (Event readable active ev) l = keeper_step script readable active ev l"

definition keeper_run :: "script \<Rightarrow> keeper_act list \<Rightarrow> keeper_loop \<Rightarrow> keeper_loop" where
  "keeper_run script acts l = fold (keeper_do script) acts l"

text \<open>An invariant of the keeper that every batch, retry, removal and bookkeeping step keeps holds throughout.\<close>

lemma fold_invariant_list: "P s \<Longrightarrow> (\<And>x s. x \<in> set xs \<Longrightarrow> P s \<Longrightarrow> P (f x s)) \<Longrightarrow> P (fold f xs s)"
  by (induction xs arbitrary: s) auto

locale keeper_invariant =
  fixes script :: script and inv :: "JournalKeeper \<Rightarrow> bool"
  assumes archive: "inv k \<Longrightarrow> inv (archiveFiles script files k)"
    and retry: "inv k \<Longrightarrow> inv (retryArchive script k)"
    and scanned: "inv k \<Longrightarrow> inv (k\<lparr>jk_disk := sc_disk (scan_result dir now k)\<rparr>)"
    and bookkeeping: "inv k \<Longrightarrow> inv (k\<lparr>jk_rotateCh := ch\<rparr>)" "inv k \<Longrightarrow> inv (k\<lparr>jk_backoff := b\<rparr>)"
      "inv k \<Longrightarrow> inv (k\<lparr>jk_paused := ps, jk_pauseCalls := cs\<rparr>)"
begin

lemma handleRotation_inv: "inv k \<Longrightarrow> inv (handleRotation script rf k)"
  by (simp add: handleRotation_def archive split: option.split)

lemma scanDir_inv: "inv k \<Longrightarrow> inv (scanDir script readable now dir k)"
  by (simp add: scanDir_def set_pause_def Let_def scanned archive bookkeeping(3))

lemma scanAll_inv: "inv k \<Longrightarrow> inv (scanAll script readable active now k)"
  unfolding scanAll_def by (rule fold_invariant_list) (simp_all add: scanDir_inv)

lemma start_inv: "inv k \<Longrightarrow> inv (kl_k (keeper_start script readable active now k))"
  by (simp add: keeper_start_def archiveUnarchived_def archive scanAll_inv)

lemma arm_inv: "inv (kl_k l) \<Longrightarrow> inv (kl_k (arm_retry l))"
  by (simp add: arm_retry_def bookkeeping(2))

lemma do_inv: "inv (kl_k l) \<Longrightarrow> inv (kl_k (keeper_do script act l))"
proof (cases act)
  case (Notify rf)
  assume "inv (kl_k l)"
  then show ?thesis
    by (simp add: Notify Send_def bookkeeping(1))
next
  case (Event readable active ev)
  assume i: "inv (kl_k l)"
  show ?thesis
    using i unfolding Event keeper_do.simps keeper_step_def
    by (auto intro!: arm_inv handleRotation_inv scanAll_inv retry bookkeeping(1) split: keeper_event.split list.split)
qed

lemma history_inv: "inv (kl_k l) \<Longrightarrow> inv (kl_k (keeper_run script acts l))"
  unfolding keeper_run_def by (rule fold_invariant_list [where P = "\<lambda>l. inv (kl_k l)"]) (simp_all add: do_inv)

end

section \<open>Files that are not archived\<close>

lemma marker_inj [simp]: "marker p = marker q \<longleftrightarrow> p = q"
  by (simp add: marker_def)

definition is_journal :: "string \<Rightarrow> bool" where
  "is_journal p \<longleftrightarrow> CutSuffix p ''.lpj'' \<noteq> None"

lemma is_journal_iff: "is_journal p \<longleftrightarrow> (\<exists>q. p = q @ ''.lpj'')"
proof
  assume "is_journal p"
  then have "drop (length p - 4) p = ''.lpj''"
    by (simp add: is_journal_def CutSuffix_def numeral_eq_Suc split: if_splits)
  then show "\<exists>q. p = q @ ''.lpj''"
    using append_take_drop_id [of "length p - 4" p] by metis
qed (auto simp: is_journal_def CutSuffix_def)

lemma marker_not_journal: "is_journal p \<Longrightarrow> marker q \<noteq> p"
proof
  assume "is_journal p" "marker q = p"
  then obtain r where "q @ ''.archived'' = r @ ''.lpj''"
    by (auto simp: is_journal_iff marker_def)
  then have "last (q @ ''.archived'') = last (r @ ''.lpj'')"
    by simp
  then show False by simp
qed

text \<open>The disk still holds the file \<open>p\<close> with content \<open>c\<close>, and the file has no marker.\<close>

definition unsaved :: "string \<Rightarrow> bytes \<Rightarrow> disk \<Rightarrow> bool" where
  "unsaved p c d \<longleftrightarrow> gm_get d p = Some c \<and> \<not> isArchived p d"

lemma unsaved_delete: "is_journal p \<Longrightarrow> unsaved p c d \<Longrightarrow> q \<noteq> p \<Longrightarrow> unsaved p c (deleteFile q d)"
  using marker_not_journal [of p q] by (simp add: unsaved_def isArchived_def deleteFile_def)

lemma unsaved_mark: "is_journal p \<Longrightarrow> unsaved p c d \<Longrightarrow> q \<noteq> p \<Longrightarrow> unsaved p c (markArchived q d)"
  using marker_not_journal [of p q] by (simp add: unsaved_def isArchived_def markArchived_def)

definition never_confirms :: "script \<Rightarrow> string \<Rightarrow> bool" where
  "never_confirms script p \<longleftrightarrow> (\<forall>files i. i < length files \<longrightarrow> pe_path (files ! i) = p \<longrightarrow> \<not> archived_ok (script files) i)"

lemma batch_not_confirmed:
  assumes "never_confirms script p" "x \<in> set (batch True (script files) files)"
  shows "pe_path x \<noteq> p"
  using assms by (auto simp: batch_def never_confirms_def in_set_enumerate_eq)

lemma unsaved_marks:
  assumes "is_journal p" "never_confirms script p" "unsaved p c d"
  shows "unsaved p c (fold (markArchived \<circ> pe_path) (batch True (script files) files) d)"
proof (rule fold_invariant_list [where P = "unsaved p c", OF assms(3)])
  fix x s
  assume "x \<in> set (batch True (script files) files)" "unsaved p c s"
  then show "unsaved p c ((markArchived \<circ> pe_path) x s)"
    using batch_not_confirmed [OF assms(2)] unsaved_mark [OF assms(1)] by simp
qed

lemma scan_files_unsaved:
  assumes "hasArchive (jk_cfg k)" "kc_OverflowPolicy (jk_cfg k) = OverflowPauseRecording" "is_journal p"
    and "\<forall>f \<in> set files. fi_path f = p \<longrightarrow> \<not> fi_archived f" "unsaved p c (sc_disk s)"
  shows "unsaved p c (sc_disk (scan_files k now tot files s))"
  using assms(4,5)
proof (induction files arbitrary: tot s)
  case (Cons f fs)
  have "unsaved p c (sc_disk (expire_file k tot f s))"
    using Cons.prems assms(1-3) unsaved_delete [OF assms(3) Cons.prems(2), of "fi_path f"]
    by (auto simp: expire_file_def)
  then show ?case
    using Cons by simp
qed simp

lemma dir_files_archived: "f \<in> set (dir_files dir d) \<Longrightarrow> fi_archived f = isArchived (fi_path f) d"
  by (auto simp: dir_files_def file_info_def Let_def)

definition keeps_unsaved :: "string \<Rightarrow> bytes \<Rightarrow> JournalKeeper \<Rightarrow> bool" where
  "keeps_unsaved p c k \<longleftrightarrow>
     hasArchive (jk_cfg k) \<and> kc_OverflowPolicy (jk_cfg k) = OverflowPauseRecording \<and> unsaved p c (jk_disk k)"

interpretation unsaved: keeper_invariant script "\<lambda>k. is_journal p \<longrightarrow> never_confirms script p \<longrightarrow> keeps_unsaved p c k" for script p c
proof
  fix k files dir now
  assume k: "is_journal p \<longrightarrow> never_confirms script p \<longrightarrow> keeps_unsaved p c k"
  show "is_journal p \<longrightarrow> never_confirms script p \<longrightarrow> keeps_unsaved p c (archiveFiles script files k)"
    using k unsaved_marks by (simp add: keeps_unsaved_def archiveFiles_def Let_def)
  show "is_journal p \<longrightarrow> never_confirms script p \<longrightarrow> keeps_unsaved p c (retryArchive script k)"
    using k unsaved_marks by (simp add: keeps_unsaved_def retryArchive_def Let_def)
  have "\<forall>f \<in> set (sorted_files dir (jk_disk k)). fi_path f = p \<longrightarrow> \<not> fi_archived f" if "keeps_unsaved p c k"
    using that by (auto simp: sorted_files_def dir_files_archived keeps_unsaved_def unsaved_def)
  then show "is_journal p \<longrightarrow> never_confirms script p \<longrightarrow> keeps_unsaved p c (k\<lparr>jk_disk := sc_disk (scan_result dir now k)\<rparr>)"
    using k scan_files_unsaved by (simp add: keeps_unsaved_def scan_result_def Let_def)
qed (simp_all add: keeps_unsaved_def)

text \<open>
  C7: With archiving configured and the policy to pause the recording, the keeper never deletes a journal file
  that the archive script has not confirmed: whatever rotations, scans and retries happen after the
  start, the file is still there with its content and without a marker.
\<close>

theorem unarchived_file_never_deleted:
  assumes "hasArchive (jk_cfg k)" "kc_OverflowPolicy (jk_cfg k) = OverflowPauseRecording" "CutSuffix p ''.lpj'' \<noteq> None"
    and "gm_get (jk_disk k) p = Some c" "\<not> isArchived p (jk_disk k)"
    and "\<And>files i. i < length files \<Longrightarrow> pe_path (files ! i) = p \<Longrightarrow> \<not> archived_ok (script files) i"
  shows "gm_get (jk_disk (kl_k (keeper_run script acts (keeper_start script readable active now k)))) p = Some c \<and>
    \<not> isArchived p (jk_disk (kl_k (keeper_run script acts (keeper_start script readable active now k))))"
proof -
  have "is_journal p" "never_confirms script p" "keeps_unsaved p c k"
    using assms by (auto simp: is_journal_def never_confirms_def keeps_unsaved_def unsaved_def)
  then show ?thesis
    using unsaved.history_inv [OF unsaved.start_inv, of p script c k acts readable active now] by (simp add: keeps_unsaved_def unsaved_def)
qed

definition one_file_keeper :: JournalKeeper where
  "one_file_keeper = NewJournalKeeper
     \<lparr>kc_Dirs = [\<lparr>kd_Dir = ''/j'', kd_InstanceID = []\<rparr>], kc_DirFunc = None, kc_MaxAge = 0, kc_MinKeep = 0, kc_MaxSize = 1, kc_SoftPct = 80,
      kc_OverflowPolicy = OverflowPauseRecording, kc_ArchiveCommand = ''/bin/arch'', kc_ArchiveTrigger = ArchiveOnRotate, kc_OnPauseChange = False\<rparr>
     [(''/j/a.lpj'', [1, 2, 3])]"

theorem unarchived_file_never_deleted_witness:
  "gm_get (jk_disk (kl_k (keeper_run (\<lambda>_. []) [Event (\<lambda>_. True) (\<lambda>_. True) (ScanTick 5)] (keeper_start (\<lambda>_. []) (\<lambda>_. True) (\<lambda>_. True) 0 one_file_keeper)))) ''/j/a.lpj''
     = Some [1, 2, 3]"
proof -
  have "hasArchive (jk_cfg one_file_keeper)" "kc_OverflowPolicy (jk_cfg one_file_keeper) = OverflowPauseRecording"
    "CutSuffix ''/j/a.lpj'' ''.lpj'' \<noteq> None" "gm_get (jk_disk one_file_keeper) ''/j/a.lpj'' = Some [1, 2, 3]"
    "\<not> isArchived ''/j/a.lpj'' (jk_disk one_file_keeper)"
    by (simp_all add: one_file_keeper_def NewJournalKeeper_def hasArchive_def CutSuffix_def gm_get_def isArchived_def marker_def)
  from unarchived_file_never_deleted [OF this, of "\<lambda>_. []"] show ?thesis
    by (simp add: archived_ok_def)
qed

section \<open>Retention without archiving\<close>

lemma scan_files_deletes:
  assumes "\<not> hasArchive (jk_cfg k)" "tot = sum_list (map fi_size files)"
  shows "\<exists>n \<le> length files. sc_disk (scan_files k now tot files s) = fold (\<lambda>f. deleteFile (fi_path f)) (take n files) (sc_disk s) \<and>
    sc_toArchive (scan_files k now tot files s) = sc_toArchive s \<and> sc_needPause (scan_files k now tot files s) = sc_needPause s \<and>
    (\<forall>i < n. hard_expire (jk_cfg k) now (sum_list (map fi_size (drop i files))) (files ! i)) \<and>
    (n < length files \<longrightarrow> \<not> hard_expire (jk_cfg k) now (sum_list (map fi_size (drop n files))) (files ! n))"
  using assms(2)
proof (induction files arbitrary: tot s)
  case (Cons f fs)
  show ?case
  proof (cases "hard_expire (jk_cfg k) now tot f")
    case True
    let ?s = "s\<lparr>sc_disk := deleteFile (fi_path f) (sc_disk s)\<rparr>"
    have e: "scan_files k now tot (f # fs) s = scan_files k now (tot - fi_size f) fs ?s"
      using True assms(1) by (simp add: expire_file_def)
    obtain n where n: "n \<le> length fs" "sc_disk (scan_files k now (tot - fi_size f) fs ?s) = fold (\<lambda>f. deleteFile (fi_path f)) (take n fs) (sc_disk ?s)"
      "sc_toArchive (scan_files k now (tot - fi_size f) fs ?s) = sc_toArchive ?s" "sc_needPause (scan_files k now (tot - fi_size f) fs ?s) = sc_needPause ?s"
      "\<forall>i < n. hard_expire (jk_cfg k) now (sum_list (map fi_size (drop i fs))) (fs ! i)"
      "n < length fs \<longrightarrow> \<not> hard_expire (jk_cfg k) now (sum_list (map fi_size (drop n fs))) (fs ! n)"
    proof -
      have "tot - fi_size f = sum_list (map fi_size fs)"
        using Cons.prems by simp
      from Cons.IH [OF this, of ?s] show ?thesis
        using that by blast
    qed
    have "hard_expire (jk_cfg k) now (sum_list (map fi_size (drop i (f # fs)))) ((f # fs) ! i)" if "i < Suc n" for i
      using that n(5) True Cons.prems by (cases i) auto
    then show ?thesis
      unfolding e using n by (intro exI [of _ "Suc n"]) simp
  next
    case False
    have "softThreshold (jk_cfg k) = 0"
      using assms(1) by (simp add: softThreshold_def)
    then show ?thesis
      using False Cons.prems by (intro exI [of _ 0]) simp
  qed
qed simp

lemma get_deletes:
  assumes "is_journal p"
  shows "gm_get (fold (\<lambda>f. deleteFile (fi_path f)) fs d) p = (if p \<in> fi_path ` set fs then None else gm_get d p)"
  by (induction fs arbitrary: d) (use marker_not_journal [OF assms] in \<open>auto simp: deleteFile_def\<close>)

lemma CutSuffix_Some: "CutSuffix n suf \<noteq> None \<longleftrightarrow> (\<exists>m. n = m @ suf)"
proof
  assume "CutSuffix n suf \<noteq> None"
  then have "drop (length n - length suf) n = suf"
    by (simp add: CutSuffix_def split: if_splits)
  then have "take (length n - length suf) n @ suf = n"
    using append_take_drop_id [of "length n - length suf" n] by metis
  then show "\<exists>m. n = m @ suf"
    by metis
qed (auto simp: CutSuffix_def)

lemma dir_files_journal:
  assumes "f \<in> set (dir_files dir d)"
  shows "is_journal (fi_path f)"
proof -
  obtain n m where "fi_path f = join_path (kd_Dir dir) n" "n = m @ ''.lpj''"
    using assms CutSuffix_Some by (auto simp: dir_files_def file_info_def Let_def)
  then have "fi_path f = (kd_Dir dir @ ''/'' @ m) @ ''.lpj''"
    by (simp add: join_path_def)
  then show ?thesis
    using is_journal_iff by blast
qed

lemma dir_files_distinct: "distinct (map fi_path (dir_files dir d))"
proof -
  have "distinct (filter (\<lambda>n. CutSuffix n ''.lpj'' \<noteq> None) (ReadDir (kd_Dir dir) d))"
    by (simp add: ReadDir_def)
  moreover have "inj (\<lambda>n. fi_path (file_info dir d n))"
    by (auto simp: inj_def file_info_def Let_def join_path_def)
  ultimately show ?thesis
    by (simp add: dir_files_def comp_def distinct_map inj_on_subset [of _ UNIV])
qed

lemma dir_files_exist: "f \<in> set (dir_files dir d) \<Longrightarrow> gm_get d (fi_path f) \<noteq> None"
proof -
  assume "f \<in> set (dir_files dir d)"
  then obtain p c n where "(p, c) \<in> set d" "name_in (kd_Dir dir) p = Some n" "fi_path f = join_path (kd_Dir dir) n"
    by (auto simp: dir_files_def ReadDir_def List.map_filter_def file_info_def Let_def)
  moreover have "p = join_path (kd_Dir dir) n" if "name_in (kd_Dir dir) p = Some n"
  proof -
    have "take (length (kd_Dir dir) + 1) p = kd_Dir dir @ ''/''" "n = drop (length (kd_Dir dir) + 1) p"
      using that by (auto simp: name_in_def HasPrefix_def split: if_splits)
    then have "(kd_Dir dir @ ''/'') @ n = p"
      using append_take_drop_id [of "length (kd_Dir dir) + 1" p] by metis
    then show ?thesis
      by (simp add: join_path_def)
  qed
  ultimately have "(fi_path f, c) \<in> set d"
    by simp
  then show ?thesis
    using weak_map_of_SomeI [of "fi_path f" c d] by (auto simp: gm_get_def)
qed


definition two_file_keeper :: JournalKeeper where
  "two_file_keeper = NewJournalKeeper
     \<lparr>kc_Dirs = [\<lparr>kd_Dir = ''/j'', kd_InstanceID = []\<rparr>], kc_DirFunc = None, kc_MaxAge = 0, kc_MinKeep = 0, kc_MaxSize = 2, kc_SoftPct = 0,
      kc_OverflowPolicy = OverflowPauseRecording, kc_ArchiveCommand = [], kc_ArchiveTrigger = ArchiveDisabled, kc_OnPauseChange = False\<rparr>
     [(''/j/a.lpj'', [1, 2]), (''/j/b.lpj'', [3])]"


section \<open>The retry delay\<close>

definition delay_ok :: "keeper_loop \<Rightarrow> bool" where
  "delay_ok l \<longleftrightarrow>
     (if kl_armed l then jk_pending (kl_k l) \<noteq> [] \<and> keeperInitialBackoff \<le> jk_backoff (kl_k l) \<and> jk_backoff (kl_k l) \<le> keeperMaxBackoff
      else jk_backoff (kl_k l) = 0)"

text \<open>What archiving, and with it every scan, may change of the retry state: new pending files, or a reset without pending files.\<close>

definition grows :: "JournalKeeper \<Rightarrow> JournalKeeper \<Rightarrow> bool" where
  "grows k k' \<longleftrightarrow>
     (\<exists>more. jk_pending k' = jk_pending k @ more) \<and> (jk_backoff k' = jk_backoff k \<or> jk_pending k = [] \<and> jk_backoff k' = 0)"

lemma grows_refl: "jk_pending k' = jk_pending k \<Longrightarrow> jk_backoff k' = jk_backoff k \<Longrightarrow> grows k k'"
  by (simp add: grows_def)

lemma grows_trans: "grows k k' \<Longrightarrow> grows k' k'' \<Longrightarrow> grows k k''"
  by (auto simp: grows_def)

lemma archiveFiles_grows: "jk_pending k' = jk_pending k \<Longrightarrow> jk_backoff k' = jk_backoff k \<Longrightarrow> grows k (archiveFiles script files k')"
  by (auto simp: archiveFiles_def grows_def Let_def)

lemma scanDir_grows: "grows k (scanDir script readable now dir k)"
proof -
  let ?k = "archiveFiles script (sc_toArchive (scan_result dir now k)) (k\<lparr>jk_disk := sc_disk (scan_result dir now k)\<rparr>)"
  have "grows k ?k"
    by (rule archiveFiles_grows) simp_all
  moreover have "grows ?k (set_pause dir (sc_needPause (scan_result dir now k)) ?k)"
    by (rule grows_refl) (simp_all add: set_pause_def Let_def)
  ultimately have "grows k (set_pause dir (sc_needPause (scan_result dir now k)) ?k)"
    by (rule grows_trans)
  then show ?thesis
    by (simp add: scanDir_def Let_def grows_refl)
qed

lemma scanAll_grows: "grows k (scanAll script readable active now k)"
  unfolding scanAll_def
proof (rule fold_invariant_list [where P = "grows k"])
  show "grows k (scanDir script readable now dir s)" if "grows k s" for dir s
    using that scanDir_grows by (rule grows_trans)
qed (simp add: grows_refl)

lemma handleRotation_grows: "jk_pending k' = jk_pending k \<Longrightarrow> jk_backoff k' = jk_backoff k \<Longrightarrow> grows k (handleRotation script rf k')"
  by (auto simp: handleRotation_def grows_refl archiveFiles_grows split: option.split)

lemma arm_retry_ok:
  assumes "delay_ok l" "grows (kl_k l) k"
  shows "delay_ok (arm_retry (l\<lparr>kl_k := k\<rparr>))" "kl_armed (arm_retry (l\<lparr>kl_k := k\<rparr>)) \<longleftrightarrow> jk_pending k \<noteq> []"
  using assms by (auto simp: delay_ok_def grows_def arm_retry_def keeperInitialBackoff_def keeperMaxBackoff_def split: if_splits)

lemma retry_ok:
  assumes "delay_ok l" "kl_armed l"
  shows "delay_ok (arm_retry (l\<lparr>kl_k := retryArchive script (kl_k l), kl_armed := False\<rparr>))"
  using assms
  by (auto simp: delay_ok_def retryArchive_def arm_retry_def keeperInitialBackoff_def keeperMaxBackoff_def Let_def min_def split: if_splits)

lemma do_ok: "delay_ok l \<Longrightarrow> delay_ok (keeper_do script act l)"
proof (cases act)
  case (Notify rf)
  then show "delay_ok l \<Longrightarrow> ?thesis"
    by (simp add: delay_ok_def Send_def)
next
  case (Event readable active ev)
  assume l: "delay_ok l"
  then show ?thesis
    using Event arm_retry_ok(1) [OF l scanAll_grows] arm_retry_ok(1) [OF l handleRotation_grows] retry_ok [OF l]
    by (auto simp: keeper_step_def split: keeper_event.split list.split)
qed

lemma run_ok: "delay_ok l \<Longrightarrow> delay_ok (keeper_run script acts l)"
  unfolding keeper_run_def by (rule fold_invariant_list [where P = delay_ok]) (simp_all add: do_ok)

text \<open>
  Retries are neither too frequent nor forgotten: in every state that a new keeper reaches, an armed retry timer
  waits at least one minute and at most one hour and there are files to retry, and after every scan the
  timer is armed exactly if files are pending.
\<close>

theorem retry_delay_bounded:
  assumes "l = keeper_run script acts (keeper_start script readable active now (NewJournalKeeper cfg d))"
  shows "(kl_armed l \<longrightarrow> jk_pending (kl_k l) \<noteq> [] \<and> 60000000000 \<le> jk_backoff (kl_k l) \<and> jk_backoff (kl_k l) \<le> 3600000000000) \<and>
    (kl_armed (keeper_step script readable' active' (ScanTick now') l) \<longleftrightarrow> jk_pending (kl_k (keeper_step script readable' active' (ScanTick now') l)) \<noteq> [])"
proof -
  let ?k = "NewJournalKeeper cfg d"
  have "grows k' (archiveUnarchived script readable active k')" for k'
    by (simp add: archiveUnarchived_def archiveFiles_grows grows_refl)
  then have "grows ?k (archiveUnarchived script readable active (scanAll script readable active now ?k))"
    by (rule grows_trans [OF scanAll_grows])
  then have "delay_ok (keeper_start script readable active now ?k)"
    by (auto simp: delay_ok_def keeper_start_def grows_def NewJournalKeeper_def)
  then have l: "delay_ok l"
    using run_ok assms by simp
  have "jk_pending (kl_k (arm_retry m)) = jk_pending (kl_k m)" for m
    by (simp add: arm_retry_def)
  then show ?thesis
    using l arm_retry_ok(2) [OF l scanAll_grows]
    by (auto simp: delay_ok_def keeperInitialBackoff_def keeperMaxBackoff_def keeper_step_def)
qed

theorem retry_delay_bounded_witness:
  "kl_armed (keeper_step (\<lambda>_. []) (\<lambda>_. True) (\<lambda>_. True) (ScanTick 1)
     (keeper_run (\<lambda>_. []) [] (keeper_start (\<lambda>_. []) (\<lambda>_. True) (\<lambda>_. True) 0 (NewJournalKeeper (jk_cfg one_file_keeper) [])))) \<longleftrightarrow>
   jk_pending (kl_k (keeper_step (\<lambda>_. []) (\<lambda>_. True) (\<lambda>_. True) (ScanTick 1)
     (keeper_run (\<lambda>_. []) [] (keeper_start (\<lambda>_. []) (\<lambda>_. True) (\<lambda>_. True) 0 (NewJournalKeeper (jk_cfg one_file_keeper) []))))) \<noteq> []"
  using retry_delay_bounded [OF refl] by blast

end
