(* ===== verification/Calendar.thy ===== *)
theory Calendar
  imports Keeper
begin

text \<open>
  The calendar of the file names: the civil date that the writer computes from a day is a valid date, and
  counting the days of the date, as the keeper does, gives the day back.
\<close>

section \<open>The calendar\<close>

text \<open>Years begin in March, in eras of 400 years: the first and the last day of year \<open>n\<close> of an era.\<close>

definition year_start :: "int \<Rightarrow> int" where
  "year_start n = 365 * n + n div 4 - n div 100"

definition year_end :: "int \<Rightarrow> int" where
  "year_end n = (if n = 399 then 146096 else year_start (n + 1) - 1)"

definition year_key :: "int \<Rightarrow> int" where
  "year_key doe = doe - doe div 1460 + doe div 36524 - doe div 146096"

lemma year_bounds:
  "list_all (\<lambda>n. 365 * n \<le> year_key (year_start n) \<and> year_key (year_end n) < 365 * (n + 1) \<and>
     year_end n - year_start n = (if isLeap (n + 1) then 365 else 364)) [0..399]"
  by code_simp

lemma year_bound:
  assumes "0 \<le> n" "n \<le> 399"
  shows "365 * n \<le> year_key (year_start n)" "year_key (year_end n) < 365 * (n + 1)"
    "year_end n - year_start n = (if isLeap (n + 1) then 365 else 364)"
proof -
  have "n \<in> set [0..399]"
    using assms by simp
  then show "365 * n \<le> year_key (year_start n)" "year_key (year_end n) < 365 * (n + 1)"
    "year_end n - year_start n = (if isLeap (n + 1) then 365 else 364)"
    using year_bounds unfolding list_all_iff by blast+
qed

lemma div_step: "a \<le> b \<Longrightarrow> b div 1460 - a div 1460 \<le> b - (a :: int)"
proof (rule ccontr)
  assume ab: "a \<le> b" "\<not> b div 1460 - a div 1460 \<le> b - a"
  have "1460 * (b div 1460) \<le> b" "a < 1460 * (a div 1460) + 1460"
    by simp_all
  then show False
    using ab by linarith
qed

lemma year_key_mono_less:
  assumes "0 \<le> a" "a \<le> b" "b < 146096"
  shows "year_key a \<le> year_key b"
proof -
  have "a div 146096 = 0" "b div 146096 = 0"
    using assms by (simp_all only: div_pos_pos_trivial)
  moreover have "a div 36524 \<le> b div 36524"
    using assms(2) by (rule zdiv_mono1) simp
  ultimately show ?thesis
    using div_step [OF assms(2)] unfolding year_key_def by linarith
qed

lemma year_key_mono:
  assumes "0 \<le> a" "a \<le> b" "b \<le> 146096"
  shows "year_key a \<le> year_key b"
proof (cases "b = 146096 \<and> a \<noteq> b")
  case True
  then have "year_key a \<le> year_key 146095"
    using assms by (intro year_key_mono_less) auto
  then show ?thesis
    using True by (simp add: year_key_def)
next
  case False
  then show ?thesis
    using assms year_key_mono_less [of a b] by (cases "a = b") auto
qed

lemma year_exists_upto: "0 \<le> doe \<Longrightarrow> \<exists>n \<le> N. year_start (int n) \<le> doe \<and> (n = N \<or> doe < year_start (int n + 1))"
proof (induction N)
  case (Suc N)
  then obtain n where n: "n \<le> N" "year_start (int n) \<le> doe" "n = N \<or> doe < year_start (int n + 1)"
    by blast
  show ?case
  proof (cases "doe < year_start (int n + 1)")
    case True
    then show ?thesis
      using n by (intro exI [of _ n]) simp
  next
    case False
    then show ?thesis
      using n by (intro exI [of _ "Suc N"]) (simp add: add.commute)
  qed
qed (simp add: year_start_def)

lemma year_exists:
  assumes "0 \<le> doe" "doe \<le> 146096"
  shows "\<exists>n. 0 \<le> n \<and> n \<le> 399 \<and> year_start n \<le> doe \<and> doe \<le> year_end n"
proof -
  obtain n where "n \<le> 399" "year_start (int n) \<le> doe" "n = 399 \<or> doe < year_start (int n + 1)"
    using year_exists_upto [OF assms(1), of 399] by blast
  then show ?thesis
    using assms(2) by (intro exI [of _ "int n"]) (auto simp: year_end_def)
qed

lemma year_of_day:
  assumes "0 \<le> doe" "doe \<le> 146096" "0 \<le> n" "n \<le> 399" "year_start n \<le> doe" "doe \<le> year_end n"
  shows "year_key doe div 365 = n"
proof -
  have pos: "0 \<le> year_start n"
    using assms(3) by (simp add: year_start_def)
  have "year_end n \<le> 146096"
  proof (cases "n = 399")
    case False
    then have "n + 1 \<le> 399"
      using assms(4) by simp
    then have "365 * (n + 1) + (n + 1) div 4 - (n + 1) div 100 \<le> 365 * 399 + 399 div 4"
      using assms(3) by (simp add: zdiv_mono1 pos_imp_zdiv_nonneg_iff)
    then show ?thesis
      using False by (simp add: year_end_def year_start_def)
  qed (simp add: year_end_def)
  then have "year_key (year_start n) \<le> year_key doe" "year_key doe \<le> year_key (year_end n)"
    using assms pos by (auto intro: year_key_mono)
  then have "365 * n \<le> year_key doe \<and> year_key doe < 365 * n + 365"
    using year_bound(1,2) [OF assms(3,4)] by auto
  then show ?thesis
    by linarith
qed

text \<open>Days of a year and dates: the month, the day, and back.\<close>

definition month_index :: "int \<Rightarrow> int" where
  "month_index doy = (5 * doy + 2) div 153"

definition month_of :: "int \<Rightarrow> int" where
  "month_of doy = (if month_index doy < 10 then month_index doy + 3 else month_index doy - 9)"

definition day_of :: "int \<Rightarrow> int" where
  "day_of doy = doy - (153 * month_index doy + 2) div 5 + 1"

lemma month_bounds:
  "list_all (\<lambda>doy. 1 \<le> month_of doy \<and> month_of doy \<le> 12 \<and> 1 \<le> day_of doy \<and>
     day_of doy \<le> (if month_of doy = 2 then if doy = 365 then 29 else 28 else if month_of doy \<in> {4, 6, 9, 11} then 30 else 31) \<and>
     (month_of doy \<le> 2 \<longleftrightarrow> 306 \<le> doy) \<and>
     (153 * (if month_of doy > 2 then month_of doy - 3 else month_of doy + 9) + 2) div 5 + day_of doy - 1 = doy) [0..365]"
  by code_simp

lemma month_bound:
  assumes "0 \<le> doy" "doy \<le> 365"
  shows "1 \<le> month_of doy" "month_of doy \<le> 12" "1 \<le> day_of doy"
    "day_of doy \<le> (if month_of doy = 2 then if doy = 365 then 29 else 28 else if month_of doy \<in> {4, 6, 9, 11} then 30 else 31)"
    "month_of doy \<le> 2 \<longleftrightarrow> 306 \<le> doy"
    "(153 * (if month_of doy > 2 then month_of doy - 3 else month_of doy + 9) + 2) div 5 + day_of doy - 1 = doy"
proof -
  have "doy \<in> set [0..365]"
    using assms by simp
  note b = bspec [OF month_bounds [unfolded list_all_iff] this]
  show "1 \<le> month_of doy" "month_of doy \<le> 12" "1 \<le> day_of doy"
    "day_of doy \<le> (if month_of doy = 2 then if doy = 365 then 29 else 28 else if month_of doy \<in> {4, 6, 9, 11} then 30 else 31)"
    "month_of doy \<le> 2 \<longleftrightarrow> 306 \<le> doy"
    "(153 * (if month_of doy > 2 then month_of doy - 3 else month_of doy + 9) + 2) div 5 + day_of doy - 1 = doy"
    using b by blast+
qed

lemma isLeap_era: "isLeap (n + 400 * e) = isLeap n"
proof -
  have "(n + 400 * e) mod 4 = n mod 4" "(n + 400 * e) mod 100 = n mod 100" "(n + 400 * e) mod 400 = n mod 400"
    using mod_mult_self2 [of n 4 "100 * e"] mod_mult_self2 [of n 100 "4 * e"] by simp_all
  then show ?thesis
    by (simp add: isLeap_def)
qed

lemma civil_date_valid:
  assumes "civil_date days = (y, m, d)"
  shows "1 \<le> m \<and> m \<le> 12 \<and> 1 \<le> d \<and> d \<le> daysIn m y \<and> days_from_civil y m d = days"
    and "0 \<le> days \<Longrightarrow> days < 3652059 \<Longrightarrow> 0 \<le> y \<and> y \<le> 9999"
proof -
  define era where "era = (days + 306) div 146097"
  define doe where "doe = (days + 306) mod 146097"
  have doe: "0 \<le> doe" "doe \<le> 146096" and days: "days = era * 146097 + doe - 306"
    using pos_mod_bound [of 146097 "days + 306"] div_mult_mod_eq [of "days + 306" 146097] by (simp_all add: doe_def era_def)
  obtain n where n: "0 \<le> n" "n \<le> 399" "year_start n \<le> doe" "doe \<le> year_end n"
    using year_exists [OF doe] by blast
  define doy where "doy = doe - year_start n"
  have doy: "0 \<le> doy" "doy \<le> 365" "doy = 365 \<Longrightarrow> isLeap (n + 1)"
    using n(3,4) year_bound(3) [OF n(1,2)] by (auto simp: doy_def split: if_splits)
  have yr: "year_key doe div 365 = n"
    by (rule year_of_day [OF doe n])
  have "civil_date days = (n + era * 400 + (if month_of doy \<le> 2 then 1 else 0), month_of doy, day_of doy)"
    unfolding civil_date_def Let_def era_def [symmetric] doe_def [symmetric] year_key_def [symmetric] yr year_start_def [symmetric]
      doy_def [symmetric] month_index_def [symmetric] month_of_def [symmetric] day_of_def [symmetric] by (rule refl)
  then have e: "y = n + era * 400 + (if m \<le> 2 then 1 else 0)" "m = month_of doy" "d = day_of doy"
    using assms by simp_all
  note b = month_bound [OF doy(1,2)]
  have leap: "isLeap y = isLeap (n + 1)" if "m \<le> 2"
    using that isLeap_era [of "n + 1" era] by (simp add: e(1) ac_simps)
  have "d \<le> daysIn m y"
    using b(4) doy(3) leap unfolding e(2,3) by (auto simp: daysIn_def split: if_splits)
  moreover have "days_from_civil y m d = days"
  proof -
    have "(if m \<le> 2 then y - 1 else y) = n + era * 400"
      by (simp add: e(1))
    moreover have "(n + era * 400) div 400 = era" "(n + era * 400) mod 400 = n"
      using n(1,2) by simp_all
    moreover have "(153 * (if m > 2 then m - 3 else m + 9) + 2) div 5 + d - 1 = doy"
      using b(6) unfolding e(2,3) .
    ultimately show ?thesis
      unfolding days_from_civil_def Let_def days by (simp add: doy_def year_start_def)
  qed
  ultimately show "1 \<le> m \<and> m \<le> 12 \<and> 1 \<le> d \<and> d \<le> daysIn m y \<and> days_from_civil y m d = days"
    using b(1-3) e(2,3) by simp
  show "0 \<le> y \<and> y \<le> 9999" if "0 \<le> days" "days < 3652059"
  proof -
    have era: "0 \<le> era" "era \<le> 24"
      using that by (simp_all add: era_def pos_imp_zdiv_nonneg_iff)
    have "y \<noteq> 10000"
    proof
      assume "y = 10000"
      then have "m \<le> 2" "n = 399" "era = 24"
        using e(1) n(2) era by (auto split: if_splits)
      then have "306 \<le> doy" "doe = year_start 399 + doy"
        using b(5) e(2) by (auto simp: doy_def)
      then show False
        using that(2) days \<open>era = 24\<close> by (simp add: year_start_def)
    qed
    then show ?thesis
      using e(1) n(1,2) era by (auto split: if_splits)
  qed
qed

end
