(* ===== verification/JournalNames.thy ===== *)
theory JournalNames
  imports KeeperProps Calendar
begin

text \<open>
  The names of journal files: the timestamp that the writer puts into the name of a file is the one that
  the keeper reads from it, to the millisecond.
\<close>

section \<open>Digits\<close>

lemma digit_char_value: "n < 10 \<Longrightarrow> is_digit (digit_char n) \<and> bcode (digit_char n) - 48 = n"
  by (simp add: is_digit_def digit_char_def bcode_char_of)

lemma digit_value: "foldl (\<lambda>n c. 10 * n + (bcode c - 48)) 0 (FormatUint 10 n) = n"
proof (induction n rule: less_induct)
  case (less n)
  show ?case
  proof (cases "n < 10")
    case True
    then show ?thesis
      using digit_char_value [of n] by (subst FormatUint.simps) simp
  next
    case False
    then show ?thesis
      using less [of "n div 10"] digit_char_value [of "n mod 10"] by (subst FormatUint.simps) simp
  qed
qed

lemma length_FormatUint: "n < 10 ^ w \<Longrightarrow> 0 < w \<Longrightarrow> length (FormatUint 10 n) \<le> w"
proof (induction n arbitrary: w rule: less_induct)
  case (less n)
  show ?case
  proof (cases "n < 10")
    case True
    then show ?thesis
      using less.prems by (subst FormatUint.simps) simp
  next
    case False
    then obtain v where v: "w = Suc v" "0 < v"
      using less.prems by (cases w; cases "w - 1") auto
    have "length (FormatUint 10 (n div 10)) \<le> v"
      using less.prems v False by (intro less.IH) (auto simp: less_mult_imp_div_less)
    then show ?thesis
      using False v(1) by (subst FormatUint.simps) simp
  qed
qed

lemma foldl_zeros: "foldl (\<lambda>n c. 10 * n + (bcode c - 48)) 0 (replicate k (CHR ''0'') @ s) = foldl (\<lambda>n c. 10 * n + (bcode c - 48)) 0 s"
  by (induction k) (simp_all add: bcode_def)

lemma pad_int_digits:
  assumes "0 \<le> n" "n < 10 ^ w" "0 < w"
  shows "length (pad_int w n) = w" "digits (pad_int w n) = Some n" "list_all is_digit (pad_int w n)"
proof -
  have "nat n < 10 ^ w"
    using assms(1,2) by (simp add: nat_less_iff)
  then have len: "length (FormatUint 10 (nat n)) \<le> w"
    using assms(3) by (rule length_FormatUint)
  then show "length (pad_int w n) = w"
    by (simp add: pad_int_def Let_def)
  show d: "list_all is_digit (pad_int w n)"
    using FormatUint_digits [of 10 "nat n"] by (auto simp: pad_int_def Let_def list_all_iff is_digit_def bcode_def)
  have "pad_int w n \<noteq> []"
    by (simp add: pad_int_def Let_def)
  moreover have "foldl (\<lambda>n c. 10 * n + (bcode c - 48)) 0 (pad_int w n) = nat n"
    unfolding pad_int_def Let_def foldl_zeros by (rule digit_value)
  ultimately show "digits (pad_int w n) = Some n"
    using d assms(1) by (simp add: digits_def)
qed

lemma num_field_pad: "0 \<le> n \<Longrightarrow> n < 10 ^ w \<Longrightarrow> 0 < w \<Longrightarrow> num_field w (pad_int w n @ s) = Some (n, s)"
  by (simp add: num_field_def pad_int_digits)

lemma hd_digit: "list_all is_digit s \<Longrightarrow> s \<noteq> [] \<Longrightarrow> hd s \<notin> {CHR ''-'', CHR ''+''}"
  by (cases s) (auto simp: is_digit_def bcode_def)

lemma frac_field_pad:
  assumes "0 \<le> n" "n < 1000"
  shows "frac_field (CHR ''.'' # pad_int 3 n @ s) = Some (n * 10 ^ 6, s)"
proof -
  have p: "length (pad_int 3 n) = 3" "digits (pad_int 3 n) = Some n" "list_all is_digit (pad_int 3 n)"
    using assms pad_int_digits [of n 3] by simp_all
  then have "pad_int 3 n \<noteq> []"
    by auto
  then show ?thesis
    using p hd_digit [OF p(3)] by (simp add: frac_field_def Let_def)
qed

section \<open>File names\<close>

lemma time_Parse_format:
  assumes "0 \<le> t" "t < 315537897600000000000"
  shows "time_Parse (format_timestamp t) = Some (t - t mod 1000000)"
proof -
  define secs where "secs = t div 10 ^ 9"
  define ms where "ms = t mod 10 ^ 9 div 10 ^ 6"
  define s where "s = secs mod 86400"
  obtain y m d where c: "civil_date (secs div 86400) = (y, m, d)"
    by (cases "civil_date (secs div 86400)")
  have secs: "0 \<le> secs" "secs < 315537897600"
    using assms by (simp_all add: secs_def)
  have "0 \<le> secs div 86400" "secs div 86400 < 3652059"
    using secs by simp_all
  note v = civil_date_valid(1) [OF c] civil_date_valid(2) [OF c this]
  have "d \<le> 31"
    using v(1) by (auto simp: daysIn_def split: if_splits)
  have s: "0 \<le> s" "s < 86400"
    by (simp_all add: s_def)
  have ms: "0 \<le> ms" "ms < 1000"
    by (simp_all add: ms_def)
  have f: "format_timestamp t = pad_int 4 y @ pad_int 2 m @ pad_int 2 d @ CHR ''T'' # pad_int 2 (s div 3600) @ pad_int 2 (s div 60 mod 60)
      @ pad_int 2 (s mod 60) @ CHR ''.'' # pad_int 3 ms @ ''Z''"
    unfolding format_timestamp_def Let_def secs_def [symmetric] ms_def [symmetric] s_def [symmetric] c by simp
  have h: "s div 3600 < 24" "0 \<le> s div 3600"
    using s by simp_all
  have "time_Parse (format_timestamp t) = Some (((days_from_civil y m d * 24 + s div 3600) * 60 + s div 60 mod 60) * 60 * 10 ^ 9 + (s mod 60) * 10 ^ 9 + ms * 10 ^ 6)"
    unfolding f time_Parse_def using v \<open>d \<le> 31\<close> h ms by (simp add: num_field_pad frac_field_pad lit_field_def)
  moreover have "((days_from_civil y m d * 24 + s div 3600) * 60 + s div 60 mod 60) * 60 + s mod 60 = secs"
  proof -
    have "s div 60 div 60 = s div 3600"
      by (simp add: zdiv_zmult2_eq [symmetric])
    then have "(s div 3600 * 60 + s div 60 mod 60) * 60 + s mod 60 = s"
      using div_mult_mod_eq [of "s div 60" 60] div_mult_mod_eq [of s 60] by simp
    moreover have "days_from_civil y m d * 86400 + s = secs"
      using v(1) div_mult_mod_eq [of secs 86400] by (simp add: s_def)
    ultimately show ?thesis
      by simp
  qed
  moreover have "secs * 10 ^ 9 + ms * 10 ^ 6 = t - t mod 1000000"
  proof -
    have parts: "t mod 1000000000 mod 1000000 = t mod 1000000" "t div 1000000000 * 1000000000 + t mod 1000000000 = t"
      "t mod 1000000000 div 1000000 * 1000000 + t mod 1000000000 mod 1000000 = t mod 1000000000"
      by (simp_all only: div_mult_mod_eq) (simp add: mod_mod_cancel)
    have "secs * 10 ^ 9 + ms * 10 ^ 6 = t div 1000000000 * 1000000000 + t mod 1000000000 div 1000000 * 1000000"
      by (simp add: secs_def ms_def)
    then show ?thesis
      using parts by linarith
  qed
  ultimately show ?thesis
    by (simp add: algebra_simps)
qed

lemma format_chars:
  assumes "0 \<le> t" "t < 315537897600000000000"
  shows "format_timestamp t \<noteq> []" "CHR ''-'' \<notin> set (format_timestamp t)" "CHR ''/'' \<notin> set (format_timestamp t)"
proof -
  have "list_all is_digit (pad_int w n)" for w n
    using FormatUint_digits [of 10 "nat n"] by (auto simp: pad_int_def Let_def list_all_iff is_digit_def bcode_def)
  moreover have "\<not> is_digit (CHR ''-'')" "\<not> is_digit (CHR ''/'')"
    by (simp_all add: is_digit_def bcode_def)
  ultimately have pad: "CHR ''-'' \<notin> set (pad_int w n)" "CHR ''/'' \<notin> set (pad_int w n)" for w n
    by (auto simp: list_all_iff)
  show "format_timestamp t \<noteq> []" "CHR ''-'' \<notin> set (format_timestamp t)" "CHR ''/'' \<notin> set (format_timestamp t)"
    using pad by (auto simp: format_timestamp_def Let_def split: prod.split)
qed

lemma after_last_hyphen_append: "CHR ''-'' \<notin> set ts \<Longrightarrow> after_last_hyphen (pfx @ CHR ''-'' # ts) = Some ts"
  unfolding after_last_hyphen_def rev_append rev.simps append_assoc by (subst takeWhile_append2) auto

lemma base_name_append: "CHR ''/'' \<notin> set name \<Longrightarrow> base_name (dir @ CHR ''/'' # name) = name"
  unfolding base_name_def rev_append rev.simps append_assoc by (subst takeWhile_append2) auto

lemma base_name_self: "CHR ''/'' \<notin> set name \<Longrightarrow> base_name name = name"
  unfolding base_name_def by (subst takeWhile_eq_all_conv [THEN iffD2]) auto

lemma TrimSuffix_append: "TrimSuffix (s @ suf) suf = s"
  by (simp add: TrimSuffix_def CutSuffix_def)

text \<open>
  C9: The keeper reads from the name of a journal file the time at which the writer opened it, to the
  millisecond, for every time from year 1 to year 9999 and every prefix without a slash; so ages and the
  order of files are those of their creation.
\<close>

theorem journal_name_roundtrip:
  assumes "0 \<le> ts" "ts < 315537897600000000000" "CHR ''/'' \<notin> set pfx"
  shows "parseTimestampFromFilename (base_name (journal_path dir pfx ts)) = ts - ts mod 1000000"
proof -
  let ?name = "pfx @ ''-'' @ format_timestamp ts @ ''.lpj''"
  note f = format_chars [OF assms(1,2)]
  have "CHR ''/'' \<notin> set ?name"
    using assms(3) f(3) by simp
  then have "base_name (journal_path dir pfx ts) = ?name"
    using base_name_append [of ?name dir] base_name_self [of ?name] by (simp add: journal_path_def)
  moreover have "TrimSuffix ?name ''.lpj'' = pfx @ CHR ''-'' # format_timestamp ts"
    using TrimSuffix_append [of "pfx @ CHR ''-'' # format_timestamp ts" "''.lpj''"] by simp
  ultimately show ?thesis
    using f(1) after_last_hyphen_append [OF f(2)] time_Parse_format [OF assms(1,2)] by (simp add: parseTimestampFromFilename_def)
qed

theorem journal_name_roundtrip_witness:
  "parseTimestampFromFilename (base_name (journal_path ''/var/log'' ''nmea2k'' 63908000000123456789)) = 63908000000123000000"
  using journal_name_roundtrip [of 63908000000123456789 "''nmea2k''" "''/var/log''"] by simp

end
