(* ===== verification/Spec2Isabelle.thy ===== *)
theory Spec2Isabelle
  imports CanId FastPacket Holes ChangeTracker RequestRules Devices SendPolicy VirtualDevice Values Ring Consumer Alerting
    BrokerProps FilterRoundtrip ConsumerReplay JournalNames
begin

text \<open>
  Verification development of \<^bold>\<open>lplex\<close>, a server that bridges NMEA 2000 CAN buses to HTTP clients,
  journals and replicas.

  \<^bold>\<open>The program.\<close> \<^verbatim>\<open>CANReader\<close> (\<^verbatim>\<open>can.go\<close>) receives CAN frames, reassembles fast packets
  (\<^verbatim>\<open>fastpacket.go\<close>) and hands complete frames to the broker goroutine (\<^verbatim>\<open>broker.go\<close>), which discovers
  devices (\<^verbatim>\<open>devices.go\<close>), runs virtual devices (\<^verbatim>\<open>virtual_device.go\<close>) and request rules
  (\<^verbatim>\<open>requestrules/\<close>), numbers the frame, stores it in a ring buffer, updates the last-value store
  (\<^verbatim>\<open>values.go\<close>), fans it out to push subscribers and wakes pull consumers (\<^verbatim>\<open>consumer.go\<close>). Frames to
  transmit pass the send policy (\<^verbatim>\<open>sendpolicy/\<close>, \<^verbatim>\<open>server.go\<close>) and reach the bus through \<^verbatim>\<open>CANWriter\<close>.
  Replicas mirror a broker's frames and track the gaps (\<^verbatim>\<open>replication.go\<close>). \<^verbatim>\<open>changetracker/\<close> compresses
  streams of payloads to events, \<^verbatim>\<open>filter/\<close> is the display filter language of the command line tools,
  \<^verbatim>\<open>alerting.go\<close> and \<^verbatim>\<open>bus_silence.go\<close> raise alerts.

  \<^bold>\<open>Conventions.\<close> Fixed-width integers are words (wrap-around included); \<^verbatim>\<open>time.Time\<close> is a number of
  nanoseconds since Go's zero time, \<^verbatim>\<open>time.Duration\<close> an integer, \<^verbatim>\<open>Time.Sub\<close> saturates; a Go map is an
  association list whose order stands for an arbitrary iteration order; structs are records, with the
  fields' names prefixed; nil is \<open>None\<close>; errors are values of a datatype on the left of a sum, run-time
  panics are \<open>None\<close>. The clock is an argument \<open>now\<close> of the operations that read it. The goroutines that
  share state under a lock appear as interleaved sequences of whole critical sections.

  \<^bold>\<open>The theories.\<close>
  \<^item> \<open>Prelude\<close>, \<open>GoStrings\<close>, \<open>Float64\<close>, \<open>Pgn\<close>: the Go library functions the sources call (words,
    little-endian encodings, maps, strings, \<^verbatim>\<open>strconv\<close>, \<^verbatim>\<open>float64\<close>) and the reflection view of decoded
    packets; the PGN registry, generated code, is a parameter.
  \<^item> \<open>CanId\<close> (\<^verbatim>\<open>canbus/canid.go\<close>, \<^verbatim>\<open>canbus/name.go\<close>): identifiers and NAMEs are encoded without loss.
  \<^item> \<open>FastPacket\<close> (\<^verbatim>\<open>fastpacket.go\<close>, \<^verbatim>\<open>can.go\<close>): fragmentation and reassembly are inverse, transfers of
    different senders do not interfere, the writer's frames are read back.
  \<^item> \<open>Devices\<close> (\<^verbatim>\<open>devices.go\<close>), \<open>VirtualDevice\<close> (\<^verbatim>\<open>virtual_device.go\<close>): the registry invariant over all
    histories, address claiming without collisions among virtual devices.
  \<^item> \<open>EventFilter\<close>, \<open>Values\<close> (\<^verbatim>\<open>broker.go\<close>, \<^verbatim>\<open>values.go\<close>): filters and their pre-resolved form, the last
    value per key and its snapshots.
  \<^item> \<open>Ring\<close>, \<open>Consumer\<close> (\<^verbatim>\<open>broker.go\<close>, \<^verbatim>\<open>consumer.go\<close>): the ring as a log addressed by sequence numbers
    (locale \<open>sequence_log\<close>), replicas of it, and the pull consumer as a state machine interleaved with
    the broker: in-order delivery, no lost wake-up, termination of \<^verbatim>\<open>Next\<close>.
  \<^item> \<open>RequestRules\<close>, \<open>SendPolicy\<close>, \<open>ChangeTracker\<close>, \<open>Holes\<close>, \<open>Alerting\<close>: one theory per package or
    file, with its rate limits, first-match semantics, replay, set refinement and deduplication.
  \<^item> \<open>Broker\<close>, \<open>BrokerInv\<close>, \<open>BrokerProps\<close> (\<^verbatim>\<open>broker.go\<close>): the whole of \<^verbatim>\<open>handleFrame\<close>, the ticker, the
    sessions, and the guarantees over every history of operations.
  \<^item> \<open>FilterParse\<close>, \<open>FilterEval\<close>, \<open>FilterRoundtrip\<close> (\<^verbatim>\<open>filter/\<close>): lexer, parser, printer, evaluator.
  \<^item> \<open>JournalFormat\<close>, \<open>JournalWriter\<close>, \<open>JournalReader\<close> (\<^verbatim>\<open>journal/\<close>, \<^verbatim>\<open>journal_writer.go\<close>,
    \<^verbatim>\<open>block_writer.go\<close>): the block file format with varints and CRC-32C, the writers and the reader with
    its index, forward scan, seeking and read-ahead; the zstd library is the parameter \<open>zstd\<close>.
    \<open>JournalBlocks\<close> relates the bytes of a block to its frames, \<open>JournalFiles\<close> has the invariant of the
    writer, \<open>JournalRoundtrip\<close> the round trip of a whole file, \<open>JournalSeek\<close> the searches.
  \<^item> \<open>ConsumerJournal\<close>, \<open>ConsumerReplay\<close> (\<^verbatim>\<open>consumer.go\<close>): a consumer that is behind the ring reads on from the
    journal files; the files of consecutive runs are delivered from the cursor on without a gap. Every
    pass of the loop has an observation (choice of the \<^verbatim>\<open>select\<close>, ring tail, cancellation) as its input.
  \<^item> \<open>Keeper\<close>, \<open>KeeperProps\<close>, \<open>Calendar\<close>, \<open>JournalNames\<close> (\<^verbatim>\<open>keeper/keeper.go\<close>): retention and archiving of
    the journal files on the disk of the writers; locale \<open>keeper_invariant\<close> carries an invariant through
    every history; the timestamps in file names survive the way from the writer to the keeper.

  \<^bold>\<open>Fuel and bounds.\<close> The filter parser has fuel: six units per token and four
  more, enough for every input (\<open>filter_parse_terminates\<close>); \<open>drain\<close>, the loop of the callers of the
  journal reader, has one unit per frame, and \<open>journal_roundtrip\<close> holds for every larger value. All other loops are structural or have a
  measure. Sequence numbers are 64-bit words; theorems about numbering assume fewer than \<open>2 ^ 64\<close> frames.

  \<^bold>\<open>Not modelled.\<close> Sockets, HTTP, gRPC, MQTT, WebSocket, metrics, tracing and terminal output
  are input and output around the modelled operations. File system errors of the journal and
  the round trip across several rotated files are left out.  The code generator \<^verbatim>\<open>pgngen/\<close> and the generated
  decoders are a parameter of the model.
\<close>

end
